(* ===== verification/Go_Prelude.thy ===== *)
theory Go_Prelude
  imports Main "HOL-Library.Word"
begin

unbundle bit_operations_syntax

text \<open>
  What every component of the development shares: the machine integers of the Go
  source, Go errors as values, the result type of a fallible function, Go maps used
  as sets, \<open>strings.Join\<close> and its relatives, and loops that stop at the first error.

  A Go string is a sequence of bytes and is modelled by \<^typ>\<open>string\<close>; a Go byte
  slice is a list of 8-bit words. Standard library functions whose result depends on
  the Unicode tables (\<open>strings.ToLower\<close>, \<open>strings.EqualFold\<close>, regular
  expressions) are arguments of the definitions that call them.
\<close>

section \<open>Types\<close>

type_synonym u8 = "8 word"
type_synonym u16 = "16 word"
type_synonym u32 = "32 word"
type_synonym u64 = "64 word"
type_synonym bytes = "8 word list"

text \<open>Errors: \<open>E.New\<close>, \<open>E.Cause\<close> and \<open>E.Extend\<close> build them.\<close>

datatype error =
    ErrNew string
  | ErrCause error string
  | ErrExtend error string
  | ErrLib string

definition os_ErrInvalid :: error where
  "os_ErrInvalid = ErrLib ''invalid argument''"

type_synonym 'a result = "error + 'a"

named_theorems go_simps \<open>equations of the shared Go idioms\<close>

section \<open>Results\<close>

definition rbind :: "'a result \<Rightarrow> ('a \<Rightarrow> 'b result) \<Rightarrow> 'b result" where
  "rbind r f = (case r of Inl e \<Rightarrow> Inl e | Inr a \<Rightarrow> f a)"

definition with_cause :: "string \<Rightarrow> 'a result \<Rightarrow> 'a result" where
  "with_cause msg r = (case r of Inl e \<Rightarrow> Inl (ErrCause e msg) | Inr a \<Rightarrow> Inr a)"

lemma rbind_simps [simp, go_simps]:
  "rbind (Inl e) f = Inl e"
  "rbind (Inr a) f = f a"
  by (simp_all add: rbind_def)

lemma rbind_eq_Inr [simp]:
  "rbind r f = Inr b \<longleftrightarrow> (\<exists>a. r = Inr a \<and> f a = Inr b)"
  by (cases r) auto

lemma rbind_eq_Inl:
  "rbind r f = Inl e \<longleftrightarrow> r = Inl e \<or> (\<exists>a. r = Inr a \<and> f a = Inl e)"
  by (cases r) auto

lemma with_cause_simps [simp, go_simps]:
  "with_cause msg (Inl e) = Inl (ErrCause e msg)"
  "with_cause msg (Inr a) = Inr a"
  by (simp_all add: with_cause_def)

lemma with_cause_eq_Inr [simp]: "with_cause msg r = Inr a \<longleftrightarrow> r = Inr a"
  by (cases r) auto

text \<open>A loop \<open>for i, x := range xs\<close> that converts each element and returns at the
  first error; the index is what the error message reports.\<close>

fun map_result_from :: "nat \<Rightarrow> (nat \<Rightarrow> 'a \<Rightarrow> 'b result) \<Rightarrow> 'a list \<Rightarrow> 'b list result" where
  "map_result_from i f [] = Inr []"
| "map_result_from i f (x # xs) =
     rbind (f i x) (\<lambda>y. rbind (map_result_from (Suc i) f xs) (\<lambda>ys. Inr (y # ys)))"

abbreviation map_result :: "(nat \<Rightarrow> 'a \<Rightarrow> 'b result) \<Rightarrow> 'a list \<Rightarrow> 'b list result" where
  "map_result \<equiv> map_result_from 0"

lemma map_result_from_length:
  "map_result_from i f xs = Inr ys \<Longrightarrow> length ys = length xs"
  by (induction i f xs arbitrary: ys rule: map_result_from.induct) auto

lemma map_result_from_nth:
  "map_result_from i f xs = Inr ys \<Longrightarrow> k < length xs \<Longrightarrow> f (i + k) (xs ! k) = Inr (ys ! k)"
proof (induction i f xs arbitrary: ys k rule: map_result_from.induct)
  case (2 i f x xs)
  then show ?case by (cases k) auto
qed simp

lemma map_result_from_total:
  "(\<And>i x. x \<in> set xs \<Longrightarrow> \<exists>y. f i x = Inr y) \<Longrightarrow> \<exists>ys. map_result_from i f xs = Inr ys"
proof (induction xs arbitrary: i)
  case (Cons x xs)
  obtain y where "f i x = Inr y" using Cons.prems[of x i] by auto
  moreover obtain ys where "map_result_from (Suc i) f xs = Inr ys"
    using Cons.IH[of "Suc i"] Cons.prems by auto
  ultimately show ?case by simp
qed simp

lemma map_result_from_all:
  "map_result_from i f xs = Inr ys \<Longrightarrow> (\<And>i x y. x \<in> set xs \<Longrightarrow> f i x = Inr y \<Longrightarrow> P y) \<Longrightarrow>
   \<forall>y \<in> set ys. P y"
proof (induction xs arbitrary: i ys)
  case (Cons x xs)
  then obtain y zs where y: "f i x = Inr y" and zs: "map_result_from (Suc i) f xs = Inr zs"
    and ys: "ys = y # zs" by auto
  have "P y" using Cons.prems(2)[of x i y] y by simp
  moreover have "\<forall>z \<in> set zs. P z" using Cons.IH[OF zs] Cons.prems(2) by (meson list.set_intros(2))
  ultimately show ?case using ys by simp
qed simp

section \<open>Go maps as sets\<close>

text \<open>\<open>make(map[K]bool)\<close> filled by a loop with \<open>true\<close>, read with \<open>m[k]\<close>: a key
  that is missing reads as \<open>false\<close>.\<close>

type_synonym 'k bool_map = "'k \<rightharpoonup> bool"

primrec true_map_from :: "'k bool_map \<Rightarrow> 'k list \<Rightarrow> 'k bool_map" where
  "true_map_from m [] = m"
| "true_map_from m (k # ks) = true_map_from (m(k \<mapsto> True)) ks"

abbreviation true_map :: "'k list \<Rightarrow> 'k bool_map" where
  "true_map \<equiv> true_map_from Map.empty"

definition map_at :: "'k bool_map \<Rightarrow> 'k \<Rightarrow> bool" where
  "map_at m k = (case m k of None \<Rightarrow> False | Some b \<Rightarrow> b)"

lemma map_at_true_map_from [simp]:
  "map_at (true_map_from m ks) k \<longleftrightarrow> k \<in> set ks \<or> map_at m k"
  by (induction ks arbitrary: m) (auto simp: map_at_def)

lemma map_at_empty [simp]: "\<not> map_at Map.empty k"
  by (simp add: map_at_def)

section \<open>Strings\<close>

text \<open>\<open>strings.Join\<close>.\<close>

fun strings_Join :: "string list \<Rightarrow> string \<Rightarrow> string" where
  "strings_Join [] sep = []"
| "strings_Join [s] sep = s"
| "strings_Join (s # ss) sep = s @ sep @ strings_Join ss sep"

text \<open>\<open>strings.HasPrefix\<close>, \<open>strings.Contains\<close> and \<open>strings.Index\<close> of one byte.\<close>

fun has_prefix :: "'a list \<Rightarrow> 'a list \<Rightarrow> bool" where
  "has_prefix xs [] \<longleftrightarrow> True"
| "has_prefix [] (y # ys) \<longleftrightarrow> False"
| "has_prefix (x # xs) (y # ys) \<longleftrightarrow> x = y \<and> has_prefix xs ys"

fun strings_Contains :: "string \<Rightarrow> string \<Rightarrow> bool" where
  "strings_Contains [] sub \<longleftrightarrow> sub = []"
| "strings_Contains (c # cs) sub \<longleftrightarrow> has_prefix (c # cs) sub \<or> strings_Contains cs sub"

fun index_byte :: "'a list \<Rightarrow> 'a \<Rightarrow> nat option" where
  "index_byte [] c = None"
| "index_byte (x # xs) c = (if x = c then Some 0 else map_option Suc (index_byte xs c))"

lemma has_prefix_iff: "has_prefix xs ys \<longleftrightarrow> (\<exists>zs. xs = ys @ zs)"
  by (induction xs ys rule: has_prefix.induct) auto

lemma has_prefix_take: "has_prefix xs ys \<longleftrightarrow> take (length ys) xs = ys"
  by (induction xs ys rule: has_prefix.induct) auto

lemma has_prefix_append [simp]: "has_prefix (ys @ zs) ys"
  by (auto simp: has_prefix_iff)

lemma strings_Contains_iff: "strings_Contains s sub \<longleftrightarrow> (\<exists>p q. s = p @ sub @ q)"
proof (induction s sub rule: strings_Contains.induct)
  case (2 c cs sub)
  show ?case
  proof
    assume "strings_Contains (c # cs) sub"
    then consider "has_prefix (c # cs) sub" | "strings_Contains cs sub" by auto
    then show "\<exists>p q. c # cs = p @ sub @ q"
    proof cases
      case 1
      then show ?thesis by (metis append_Nil has_prefix_iff)
    next
      case 2
      then show ?thesis using "2.IH" by (metis append_Cons)
    qed
  next
    assume "\<exists>p q. c # cs = p @ sub @ q"
    then obtain p q where pq: "c # cs = p @ sub @ q" by blast
    show "strings_Contains (c # cs) sub"
    proof (cases p)
      case Nil
      then have "has_prefix (c # cs) sub" using pq by (simp add: has_prefix_iff)
      then show ?thesis by simp
    next
      case (Cons d p')
      then show ?thesis using pq "2.IH" by auto
    qed
  qed
qed simp

lemma index_byte_Some:
  "index_byte xs c = Some i \<Longrightarrow> i < length xs \<and> xs ! i = c \<and> c \<notin> set (take i xs)"
proof (induction xs arbitrary: i)
  case (Cons x xs)
  then show ?case by (cases "x = c") (auto split: option.splits)
qed simp

lemma index_byte_None: "index_byte xs c = None \<longleftrightarrow> c \<notin> set xs"
  by (induction xs) auto

lemma index_byte_append:
  "c \<notin> set xs \<Longrightarrow> index_byte (xs @ c # ys) c = Some (length xs)"
  by (induction xs) auto

text \<open>\<open>strconv.ParseUint (s, 10, w)\<close>: at least one digit, digits only, and the value fits
  the width.\<close>

definition is_digit :: "char \<Rightarrow> bool" where
  "is_digit c \<longleftrightarrow> 48 \<le> (of_char c :: nat) \<and> (of_char c :: nat) \<le> 57"

fun parse_uint_loop :: "nat \<Rightarrow> nat \<Rightarrow> string \<Rightarrow> nat result" where
  "parse_uint_loop w acc [] = Inr acc"
| "parse_uint_loop w acc (c # cs) =
     (if \<not> is_digit c then Inl (ErrLib ''strconv.ParseUint: invalid syntax'')
      else let n = 10 * acc + (of_char c - 48)
           in if n < 2 ^ w then parse_uint_loop w n cs
              else Inl (ErrLib ''strconv.ParseUint: value out of range''))"

definition parse_uint :: "nat \<Rightarrow> string \<Rightarrow> nat result" where
  "parse_uint w s =
     (if s = [] then Inl (ErrLib ''strconv.ParseUint: invalid syntax'')
      else parse_uint_loop w 0 s)"

lemma parse_uint_loop_bound:
  "acc < 2 ^ w \<Longrightarrow> parse_uint_loop w acc s = Inr n \<Longrightarrow> n < 2 ^ w"
  by (induction w acc s rule: parse_uint_loop.induct) (auto simp: Let_def split: if_splits)

lemma parse_uint_bound: "parse_uint w s = Inr n \<Longrightarrow> n < 2 ^ w"
  using parse_uint_loop_bound[of 0 w s n] by (auto simp: parse_uint_def split: if_splits)

section \<open>Bits\<close>

lemma and_not_zero_iff: "(x :: 'a::len word) AND NOT y = 0 \<longleftrightarrow> x OR y = y"
  by (metis (no_types, opaque_lifting) and.right_neutral bit.conj_cancel_right
      bit.conj_disj_distrib2 bit.disj_cancel_right bit.double_compl bit.de_Morgan_conj
      or.right_neutral or.commute bit.disj_conj_distrib2)

end
