(* ===== verification/Net_Addr.thy ===== *)
theory Net_Addr
  imports Go_Prelude
begin

text \<open>
  The part of Go's \<open>net/netip\<close> the components use: addresses (the zero \<open>Addr\<close>, an
  IPv4 address, an IPv6 address with its zone), \<open>Next\<close>, prefixes with \<open>Contains\<close>,
  \<open>Overlaps\<close> and \<open>Masked\<close>, and the socket address of the sing library
  (\<open>M.Socksaddr\<close>), whose fields the source reads.
\<close>

section \<open>Addresses\<close>

datatype addr =
    NoAddr
  | Addr4 "32 word"
  | Addr6 "128 word" (zone: string)

definition addr_IsValid :: "addr \<Rightarrow> bool" where
  "addr_IsValid a \<longleftrightarrow> a \<noteq> NoAddr"

fun addr_Is4 :: "addr \<Rightarrow> bool" where
  "addr_Is4 (Addr4 _) = True"
| "addr_Is4 _ = False"

fun addr_Is6 :: "addr \<Rightarrow> bool" where
  "addr_Is6 (Addr6 _ _) = True"
| "addr_Is6 _ = False"

fun addr_BitLen :: "addr \<Rightarrow> nat" where
  "addr_BitLen NoAddr = 0"
| "addr_BitLen (Addr4 _) = 32"
| "addr_BitLen (Addr6 _ _) = 128"

fun addr_hasZone :: "addr \<Rightarrow> bool" where
  "addr_hasZone (Addr6 _ z) = (z \<noteq> [])"
| "addr_hasZone _ = False"

text \<open>\<open>Addr.Next\<close>: the zero \<open>Addr\<close> after the last address of the family.\<close>

fun addr_Next :: "addr \<Rightarrow> addr" where
  "addr_Next NoAddr = NoAddr"
| "addr_Next (Addr4 w) = (if w = - 1 then NoAddr else Addr4 (w + 1))"
| "addr_Next (Addr6 w z) = (if w = - 1 then NoAddr else Addr6 (w + 1) z)"

section \<open>Prefixes\<close>

text \<open>\<open>bits\<close> is \<open>None\<close> for the invalid prefix, whose \<open>Bits\<close> is \<open>-1\<close>.\<close>

datatype prefix = Prefix (prefix_Addr: addr) (prefix_bits: "nat option")

definition prefix_IsValid :: "prefix \<Rightarrow> bool" where
  "prefix_IsValid p \<longleftrightarrow> prefix_bits p \<noteq> None"

definition prefix_Bits :: "prefix \<Rightarrow> int" where
  "prefix_Bits p = (case prefix_bits p of None \<Rightarrow> - 1 | Some n \<Rightarrow> int n)"

definition no_prefix :: prefix where
  "no_prefix = Prefix NoAddr None"

text \<open>\<open>netip.PrefixFrom\<close> drops the zone and gives the invalid prefix for bits out of range.\<close>

fun drop_zone :: "addr \<Rightarrow> addr" where
  "drop_zone (Addr6 w _) = Addr6 w []"
| "drop_zone a = a"

definition prefix_from :: "addr \<Rightarrow> nat \<Rightarrow> prefix" where
  "prefix_from a n =
     Prefix (drop_zone a) (if a \<noteq> NoAddr \<and> n \<le> addr_BitLen a then Some n else None)"

text \<open>The host part of an address is dropped by a shift; two addresses agree on a prefix
  when what remains is equal.\<close>

fun same_high_bits :: "addr \<Rightarrow> addr \<Rightarrow> nat \<Rightarrow> bool" where
  "same_high_bits (Addr4 a) (Addr4 b) n \<longleftrightarrow> drop_bit (32 - n) (a XOR b) = 0"
| "same_high_bits (Addr6 a _) (Addr6 b _) n \<longleftrightarrow> drop_bit (128 - n) (a XOR b) = 0"
| "same_high_bits _ _ _ \<longleftrightarrow> False"

definition prefix_Contains :: "prefix \<Rightarrow> addr \<Rightarrow> bool" where
  "prefix_Contains p a =
     (case prefix_bits p of
        None \<Rightarrow> False
      | Some n \<Rightarrow> \<not> addr_hasZone a \<and> same_high_bits (prefix_Addr p) a n)"

definition prefix_Overlaps :: "prefix \<Rightarrow> prefix \<Rightarrow> bool" where
  "prefix_Overlaps p q =
     (case (prefix_bits p, prefix_bits q) of
        (Some n, Some m) \<Rightarrow>
          if p = q then True
          else if addr_Is4 (prefix_Addr p) \<noteq> addr_Is4 (prefix_Addr q) then False
          else if min n m = 0 then True
          else same_high_bits (prefix_Addr p) (prefix_Addr q) (min n m)
      | _ \<Rightarrow> False)"

fun addr_masked :: "addr \<Rightarrow> nat \<Rightarrow> addr" where
  "addr_masked (Addr4 a) n = Addr4 (push_bit (32 - n) (drop_bit (32 - n) a))"
| "addr_masked (Addr6 a z) n = Addr6 (push_bit (128 - n) (drop_bit (128 - n) a)) []"
| "addr_masked NoAddr n = NoAddr"

definition prefix_Masked :: "prefix \<Rightarrow> prefix" where
  "prefix_Masked p =
     (case prefix_bits p of None \<Rightarrow> no_prefix | Some n \<Rightarrow> Prefix (addr_masked (prefix_Addr p) n) (Some n))"

section \<open>Socket addresses\<close>

record socksaddr =
  Addr :: addr
  Port :: u16
  Fqdn :: string

lemma prefix_Contains_valid: "prefix_Contains p a \<Longrightarrow> prefix_IsValid p \<and> addr_IsValid a"
  by (cases "prefix_Addr p"; cases a)
    (auto simp: prefix_Contains_def prefix_IsValid_def addr_IsValid_def split: option.splits)

lemma same_high_bits_refl: "a \<noteq> NoAddr \<Longrightarrow> same_high_bits a a n"
  by (cases a) auto

lemma same_high_bits_sym: "same_high_bits a b n \<longleftrightarrow> same_high_bits b a n"
  by (cases a; cases b) (auto simp: xor.commute)

lemma prefix_Overlaps_sym: "prefix_Overlaps p q \<longleftrightarrow> prefix_Overlaps q p"
  by (auto simp: prefix_Overlaps_def min.commute same_high_bits_sym split: option.splits)

end
