(* ===== verification/Inbound_Context.thy ===== *)
theory Inbound_Context
  imports Net_Addr
begin

text \<open>
  The state the router and the DNS router evaluate their rules on: DNS messages as
  far as the rules look into them, the connection metadata
  (\<open>adapter.InboundContext\<close>, the fields the modelled code reads or writes), and the
  environment of a rule: what the rule items read from the services they hold (network
  manager, interface monitor, clash mode manager, outbounds and DNS transports), and the
  library functions they call that are not part of the repository.
\<close>

section \<open>DNS messages\<close>

record rr_header =
  hdr_Name :: string
  hdr_Rrtype :: u16
  hdr_Class :: u16
  hdr_Ttl :: u32

datatype svcb_value =
    SVCBIPv4Hint "bytes list"
  | SVCBIPv6Hint "bytes list"
  | SVCBOther string

datatype rr =
    RR_A (rr_Header: rr_header) bytes
  | RR_AAAA (rr_Header: rr_header) bytes
  | RR_HTTPS (rr_Header: rr_header) "svcb_value list"
  | RR_Other (rr_Header: rr_header) string

record dns_msg =
  Rcode :: int
  Answer :: "rr list"
  Ns :: "rr list"
  Extra :: "rr list"

section \<open>Connection metadata\<close>

record connection_owner =
  UserId :: int
  UserName :: string
  ProcessPath :: string
  AndroidPackageNames :: "string list"

text \<open>The fields only the router writes while it applies rule actions, grouped; the
  durations are nanoseconds.\<close>

record route_state =
  RouteRule :: string
  RouteOutbound :: string
  SnifferNames :: "string list"
  SniffError :: "error option"
  InboundDetour :: string
  LastInbound :: string
  OriginDestination :: socksaddr
  RouteOriginalDestination :: socksaddr
  UDPDisableDomainUnmapping :: bool
  UDPConnect :: bool
  UDPTimeout :: int
  TLSFragment :: bool
  TLSFragmentFallbackDelay :: int
  TLSRecordFragment :: bool
  TLSSpoof :: string
  TLSSpoofMethod :: int
  NetworkStrategy :: "u8 option"
  NetworkType :: "u8 list"
  FallbackNetworkType :: "u8 list"
  FallbackDelay :: int
  FakeIP :: bool

record inbound_context =
  Inbound :: string
  InboundType :: string
  IPVersion :: u8
  Network :: string
  Source :: socksaddr
  Destination :: socksaddr
  User :: string
  Outbound :: string
  Protocol :: string
  DomainName :: string
  Client :: string
  DestinationAddresses :: "addr list"
  DNSResponse :: "dns_msg option"
  NamedDNSResponses :: "string \<rightharpoonup> dns_msg"
  DestinationAddressMatchFromResponse :: bool
  ProcessInfo :: "connection_owner option"
  SourceMACAddress :: "bytes option"
  SourceHostname :: string
  QueryType :: u16
  QueryClientSubnet :: prefix
  QueryDNSSEC :: bool
  PreMatch :: bool
  Route :: route_state
  IPCIDRMatchSource :: bool
  IPCIDRAcceptEmpty :: bool
  SourceAddressMatch :: bool
  SourcePortMatch :: bool
  DestinationAddressMatch :: bool
  DestinationPortMatch :: bool
  DeferredIPCIDRMatchGroups :: u8
  IgnoreDestinationIPCIDRMatch :: bool

text \<open>The zero value of the struct.\<close>

definition zero_socksaddr :: socksaddr where
  "zero_socksaddr = \<lparr>Addr = NoAddr, Port = 0, Fqdn = []\<rparr>"

definition zero_route :: route_state where
  "zero_route = \<lparr>RouteRule = [], RouteOutbound = [], SnifferNames = [], SniffError = None, InboundDetour = [],
     LastInbound = [], OriginDestination = zero_socksaddr, RouteOriginalDestination = zero_socksaddr,
     UDPDisableDomainUnmapping = False, UDPConnect = False, UDPTimeout = 0, TLSFragment = False,
     TLSFragmentFallbackDelay = 0, TLSRecordFragment = False, TLSSpoof = [], TLSSpoofMethod = 0,
     NetworkStrategy = None, NetworkType = [], FallbackNetworkType = [], FallbackDelay = 0, FakeIP = False\<rparr>"

definition zero_context :: inbound_context where
  "zero_context = \<lparr>Inbound = [], InboundType = [], IPVersion = 0, Network = [], Source = zero_socksaddr,
     Destination = zero_socksaddr, User = [], Outbound = [], Protocol = [], DomainName = [], Client = [],
     DestinationAddresses = [], DNSResponse = None, NamedDNSResponses = Map.empty,
     DestinationAddressMatchFromResponse = False, ProcessInfo = None, SourceMACAddress = None, SourceHostname = [],
     QueryType = 0, QueryClientSubnet = Prefix NoAddr None, QueryDNSSEC = False, PreMatch = False,
     Route = zero_route, IPCIDRMatchSource = False, IPCIDRAcceptEmpty = False, SourceAddressMatch = False,
     SourcePortMatch = False, DestinationAddressMatch = False, DestinationPortMatch = False,
     DeferredIPCIDRMatchGroups = 0, IgnoreDestinationIPCIDRMatch = False\<rparr>"

definition ResetRuleMatchCache :: "inbound_context \<Rightarrow> inbound_context" where
  "ResetRuleMatchCache c = c\<lparr>
     SourceAddressMatch := False,
     SourcePortMatch := False,
     DestinationAddressMatch := False,
     DestinationPortMatch := False,
     DeferredIPCIDRMatchGroups := 0\<rparr>"

definition ResetRuleCache :: "inbound_context \<Rightarrow> inbound_context" where
  "ResetRuleCache c = ResetRuleMatchCache (c\<lparr>IPCIDRMatchSource := False, IPCIDRAcceptEmpty := False\<rparr>)"

section \<open>The environment of a rule\<close>

text \<open>The outbounds of the repository that implement \<open>PreferredDomain\<close> and
  \<open>PreferredAddress\<close> read nothing of the metadata but \<open>PreMatch\<close> (the bridge
  outbound), which is what they get here.\<close>

record control_interface =
  if_Name :: string
  if_Addresses :: "prefix list"

record network_interface = control_interface +
  if_Type :: u8
  if_Expensive :: bool
  if_Constrained :: bool

record interface_monitor =
  MyInterfaces :: "string list"
  DefaultInterface :: "control_interface option"

record rule_env =
  M_IsIP :: "socksaddr \<Rightarrow> bool"
  M_IsIPv6 :: "socksaddr \<Rightarrow> bool"
  M_AddrFromIP :: "bytes \<Rightarrow> addr"
  N_IsPublicAddr :: "addr \<Rightarrow> bool"
  F_ToString :: "int \<Rightarrow> string"
  strings_ToLower :: "string \<Rightarrow> string"
  strings_EqualFold :: "string \<Rightarrow> string \<Rightarrow> bool"
  filepath_Base :: "string \<Rightarrow> string"
  net_ParseMAC :: "string \<Rightarrow> bytes option"
  mac_String :: "bytes \<Rightarrow> string"
  prefix_String :: "prefix \<Rightarrow> string"
  dns_IsDuplicate :: "rr \<Rightarrow> rr \<Rightarrow> bool"
  dns_CanonicalName :: "string \<Rightarrow> string"
  rr_String :: "rr \<Rightarrow> string"
  IsAndroid :: bool
  DefaultNetworkInterface :: "network_interface option"
  WIFIState_SSID :: string
  WIFIState_BSSID :: string
  Interfaces :: "control_interface list"
  NetworkInterfaces :: "network_interface list"
  InterfaceMonitor :: "interface_monitor option"
  ClashMode_Mode :: string
  Outbound_PreferredDomain :: "string \<Rightarrow> string \<Rightarrow> bool"
  Outbound_PreferredAddress :: "string \<Rightarrow> bool \<Rightarrow> addr \<Rightarrow> bool"
  Transport_PreferredDomain :: "string \<Rightarrow> string \<Rightarrow> bool"

section \<open>The addresses of a DNS response\<close>

text \<open>\<open>Addr.Unmap\<close>: an IPv4 address mapped into IPv6 becomes the IPv4 address.\<close>

fun addr_Unmap :: "addr \<Rightarrow> addr" where
  "addr_Unmap (Addr6 w z) = (if drop_bit 32 w = 0xffff then Addr4 (ucast w) else Addr6 w z)"
| "addr_Unmap a = a"

definition valid_only :: "addr \<Rightarrow> addr list" where
  "valid_only a = (if addr_IsValid a then [a] else [])"

fun svcb_addresses :: "rule_env \<Rightarrow> svcb_value \<Rightarrow> addr list" where
  "svcb_addresses E (SVCBIPv4Hint hint) =
     concat (map (\<lambda>ip. valid_only (addr_Unmap (M_AddrFromIP E ip))) hint)"
| "svcb_addresses E (SVCBIPv6Hint hint) =
     concat (map (\<lambda>ip. valid_only (M_AddrFromIP E ip)) hint)"
| "svcb_addresses E (SVCBOther _) = []"

fun rr_addresses :: "rule_env \<Rightarrow> rr \<Rightarrow> addr list" where
  "rr_addresses E (RR_A _ ip) = valid_only (M_AddrFromIP E ip)"
| "rr_addresses E (RR_AAAA _ ip) = valid_only (M_AddrFromIP E ip)"
| "rr_addresses E (RR_HTTPS _ values) = concat (map (svcb_addresses E) values)"
| "rr_addresses E (RR_Other _ _) = []"

definition DNSResponseAddresses :: "rule_env \<Rightarrow> dns_msg option \<Rightarrow> addr list" where
  "DNSResponseAddresses E response =
     (case response of
        None \<Rightarrow> []
      | Some msg \<Rightarrow> if Rcode msg \<noteq> 0 then [] else concat (map (rr_addresses E) (Answer msg)))"

definition DNSResponseAddressesForMatch :: "rule_env \<Rightarrow> inbound_context \<Rightarrow> addr list" where
  "DNSResponseAddressesForMatch E c = DNSResponseAddresses E (DNSResponse c)"

lemma DNSResponseAddresses_valid: "a \<in> set (DNSResponseAddresses E response) \<Longrightarrow> addr_IsValid a"
proof -
  have sv: "a \<in> set (svcb_addresses E v) \<Longrightarrow> addr_IsValid a" for v a
    by (cases v) (auto simp: valid_only_def split: if_splits)
  have rr: "a \<in> set (rr_addresses E r) \<Longrightarrow> addr_IsValid a" for r a
    by (cases r) (auto simp: valid_only_def dest: sv split: if_splits)
  show "a \<in> set (DNSResponseAddresses E response) \<Longrightarrow> addr_IsValid a"
    by (auto simp: DNSResponseAddresses_def dest: rr split: option.splits if_splits)
qed

end
