(* ===== verification/Rule_Items.thy ===== *)
theory Rule_Items
  imports Inbound_Context
begin

text \<open>
  The rule items of \<open>route/rule\<close>: for each item its constructor (\<open>New...\<close>), its
  \<open>Match\<close> and its \<open>String\<close>, in that order. A compiled regular expression is its
  \<open>MatchString\<close>, a domain matcher and an IP set are their membership tests; the
  functions that build them are arguments (\<^term>\<open>compile\<close>, \<^term>\<open>NewMatcher\<close>,
  \<^term>\<open>build_set\<close>). \<open>Match\<close> of these items never changes the metadata.
\<close>

type_synonym matcher = "string \<Rightarrow> bool"
type_synonym ip_set = "addr \<Rightarrow> bool"

datatype rule_item =
    InboundItem "string list" "string bool_map"
  | IPVersionItem bool
  | NetworkItem "string list" "string bool_map"
  | AuthUserItem "string list" "string bool_map"
  | ProtocolItem "string list" "string bool_map"
  | ClientItem "string list" "string bool_map"
  | DomainItem matcher string
  | DomainKeywordItem "string list"
  | DomainRegexItem "matcher list" string
  | IPCIDRItem ip_set bool string
  | IPIsPrivateItem bool
  | IPAcceptAnyItem
  | PortItem "u16 list" "u16 bool_map" bool
  | PortRangeItem bool "string list" "(u16 \<times> u16) list"
  | ProcessItem "string list" "string bool_map"
  | ProcessPathItem "string list" "string bool_map"
  | ProcessPathRegexItem "matcher list" string
  | PackageNameItem "string list" "string bool_map"
  | PackageNameRegexItem "matcher list" string
  | UserItem "string list" "string bool_map"
  | UserIdItem "int list" "int bool_map"
  | OutboundItem "string list" "string bool_map" bool
  | ClashModeItem bool string
  | NetworkTypeItem "u8 list"
  | NetworkIsExpensiveItem
  | NetworkIsConstrainedItem
  | WIFISSIDItem "string list" "string bool_map"
  | WIFIBSSIDItem "string list" "string bool_map"
  | InterfaceAddressItem "(string \<times> prefix list) list" string
  | NetworkInterfaceAddressItem "(u8 \<times> prefix list) list" string
  | DefaultInterfaceAddressItem "prefix list"
  | SourceMACAddressItem "string list" "string bool_map"
  | SourceHostnameItem "string list" "string bool_map"
  | PreferredByItem "string list" "string list"
  | PreferredByDNSItem "string list" "string list"
  | QueryTypeItem "u16 list" "u16 bool_map"
  | QueryClientSubnetItem "prefix list"
  | QueryDNSSECItem
  | AdGuardDomainItem matcher
  | DNSResponseRCodeItem int
  | DNSResponseRecordItem string "rr option list" "dns_msg \<Rightarrow> rr list"

section \<open>Descriptions\<close>

text \<open>The two shapes the \<open>String\<close> methods use: a single entry bare, several in
  brackets; and the same with at most three entries shown.\<close>

definition describe_list :: "string \<Rightarrow> string list \<Rightarrow> string" where
  "describe_list field xs =
     field @ (if length xs = 1 then xs ! 0 else ''['' @ strings_Join xs '' '' @ '']'')"

definition describe_short :: "string \<Rightarrow> string \<Rightarrow> string list \<Rightarrow> string" where
  "describe_short field ellipsis xs =
     field @ (if length xs = 1 then xs ! 0
              else if length xs > 3 then ''['' @ strings_Join (take 3 xs) '' '' @ ellipsis @ '']''
              else ''['' @ strings_Join xs '' '' @ '']'')"

text \<open>The host an item matches on: the sniffed domain, else the destination's name.\<close>

definition domain_host :: "inbound_context \<Rightarrow> string" where
  "domain_host m = (if DomainName m \<noteq> [] then DomainName m else Fqdn (Destination m))"

section \<open>Items on names of the connection\<close>

definition NewInboundRule :: "string list \<Rightarrow> rule_item" where
  "NewInboundRule inbounds = InboundItem inbounds (true_map inbounds)"

definition InboundItem_Match :: "string bool_map \<Rightarrow> inbound_context \<Rightarrow> bool" where
  "InboundItem_Match inboundMap m = map_at inboundMap (Inbound m)"

definition InboundItem_String :: "string list \<Rightarrow> string" where
  "InboundItem_String inbounds = describe_list ''inbound='' inbounds"

definition IPVersionItem_Match :: "rule_env \<Rightarrow> bool \<Rightarrow> inbound_context \<Rightarrow> bool" where
  "IPVersionItem_Match E isIPv6 m \<longleftrightarrow>
     IPVersion m \<noteq> 0 \<and> (IPVersion m = 6) = isIPv6 \<or>
     M_IsIP E (Destination m) \<and> M_IsIPv6 E (Destination m) = isIPv6"

definition IPVersionItem_String :: "bool \<Rightarrow> string" where
  "IPVersionItem_String isIPv6 = ''ip_version='' @ (if isIPv6 then ''6'' else ''4'')"

definition NewNetworkItem :: "string list \<Rightarrow> rule_item" where
  "NewNetworkItem networks = NetworkItem networks (true_map networks)"

definition NetworkItem_Match :: "string bool_map \<Rightarrow> inbound_context \<Rightarrow> bool" where
  "NetworkItem_Match networkMap m = map_at networkMap (Network m)"

definition NetworkItem_String :: "string list \<Rightarrow> string" where
  "NetworkItem_String networks = describe_list ''network='' networks"

definition NewAuthUserItem :: "string list \<Rightarrow> rule_item" where
  "NewAuthUserItem users = AuthUserItem users (true_map users)"

definition AuthUserItem_Match :: "string bool_map \<Rightarrow> inbound_context \<Rightarrow> bool" where
  "AuthUserItem_Match userMap m = map_at userMap (User m)"

definition AuthUserItem_String :: "string list \<Rightarrow> string" where
  "AuthUserItem_String users = describe_list ''auth_user='' users"

definition NewProtocolItem :: "string list \<Rightarrow> rule_item" where
  "NewProtocolItem protocols = ProtocolItem protocols (true_map protocols)"

definition ProtocolItem_Match :: "string bool_map \<Rightarrow> inbound_context \<Rightarrow> bool" where
  "ProtocolItem_Match protocolMap m = map_at protocolMap (Protocol m)"

definition ProtocolItem_String :: "string list \<Rightarrow> string" where
  "ProtocolItem_String protocols = describe_list ''protocol='' protocols"

definition NewClientItem :: "string list \<Rightarrow> rule_item" where
  "NewClientItem clients = ClientItem clients (true_map clients)"

definition ClientItem_Match :: "string bool_map \<Rightarrow> inbound_context \<Rightarrow> bool" where
  "ClientItem_Match clientMap m = map_at clientMap (Client m)"

definition ClientItem_String :: "string list \<Rightarrow> string" where
  "ClientItem_String clients = describe_list ''client='' clients"

section \<open>Items on the destination name\<close>

definition domain_description :: "string list \<Rightarrow> string list \<Rightarrow> string" where
  "domain_description domains domainSuffixes =
     (let d = (if domains \<noteq> [] then describe_short ''domain='' ''...'' domains else [])
      in if domainSuffixes \<noteq> []
         then (if d \<noteq> [] then d @ '' '' else d) @ describe_short ''domain_suffix='' ''...'' domainSuffixes
         else d)"

definition NewDomainItem ::
  "(string list \<Rightarrow> string list \<Rightarrow> bool \<Rightarrow> matcher) \<Rightarrow> string list \<Rightarrow> string list \<Rightarrow> rule_item result" where
  "NewDomainItem NewMatcher domains domainSuffixes =
     (if [] \<in> set domains then Inl (ErrNew ''domain: empty item is not allowed'')
      else if [] \<in> set domainSuffixes then Inl (ErrNew ''domain_suffix: empty item is not allowed'')
      else Inr (DomainItem (NewMatcher domains domainSuffixes False)
                           (domain_description domains domainSuffixes)))"

definition NewRawDomainItem :: "matcher \<Rightarrow> rule_item" where
  "NewRawDomainItem matcher = DomainItem matcher ''domain/domain_suffix=<binary>''"

definition DomainItem_Match :: "rule_env \<Rightarrow> matcher \<Rightarrow> inbound_context \<Rightarrow> bool" where
  "DomainItem_Match E matcher m =
     (if domain_host m = [] then False else matcher (strings_ToLower E (domain_host m)))"

definition DomainKeywordItem_Match :: "rule_env \<Rightarrow> string list \<Rightarrow> inbound_context \<Rightarrow> bool" where
  "DomainKeywordItem_Match E keywords m =
     (if domain_host m = [] then False
      else list_ex (\<lambda>keyword. strings_Contains (strings_ToLower E (domain_host m)) keyword) keywords)"

definition DomainKeywordItem_String :: "string list \<Rightarrow> string" where
  "DomainKeywordItem_String keywords = describe_short ''domain_keyword='' ''...'' keywords"

text \<open>\<open>regexp.Compile\<close> of every expression, the first failure reported with its index.\<close>

definition compile_all ::
  "(string \<Rightarrow> matcher result) \<Rightarrow> (nat \<Rightarrow> string) \<Rightarrow> string list \<Rightarrow> matcher list result" where
  "compile_all compile itoa expressions =
     map_result (\<lambda>i regex. with_cause (''parse expression '' @ itoa i) (compile regex)) expressions"

definition NewDomainRegexItem ::
  "(string \<Rightarrow> matcher result) \<Rightarrow> (nat \<Rightarrow> string) \<Rightarrow> string list \<Rightarrow> rule_item result" where
  "NewDomainRegexItem compile itoa expressions =
     rbind (compile_all compile itoa expressions)
       (\<lambda>matchers. Inr (DomainRegexItem matchers (describe_short ''domain_regex='' [] expressions)))"

definition DomainRegexItem_Match :: "rule_env \<Rightarrow> matcher list \<Rightarrow> inbound_context \<Rightarrow> bool" where
  "DomainRegexItem_Match E matchers m =
     (if domain_host m = [] then False
      else list_ex (\<lambda>matcher. matcher (strings_ToLower E (domain_host m))) matchers)"

definition NewAdGuardDomainItem :: "(string list \<Rightarrow> matcher) \<Rightarrow> string list \<Rightarrow> rule_item" where
  "NewAdGuardDomainItem NewAdGuardMatcher ruleLines = AdGuardDomainItem (NewAdGuardMatcher ruleLines)"

definition AdGuardDomainItem_Match :: "rule_env \<Rightarrow> matcher \<Rightarrow> inbound_context \<Rightarrow> bool" where
  "AdGuardDomainItem_Match E matcher m =
     (if domain_host m = [] then False else matcher (strings_ToLower E (domain_host m)))"

section \<open>Items on addresses\<close>

text \<open>One entry of an IP set: a prefix, else a single address, else the error of the
  prefix parser.\<close>

datatype ip_entry = EntryPrefix prefix | EntryAddr addr

definition parse_ip_entry ::
  "(string \<Rightarrow> prefix result) \<Rightarrow> (string \<Rightarrow> addr result) \<Rightarrow> (nat \<Rightarrow> string) \<Rightarrow> nat \<Rightarrow> string \<Rightarrow> ip_entry result" where
  "parse_ip_entry ParsePrefix ParseAddr itoa i s =
     (case ParsePrefix s of
        Inr p \<Rightarrow> Inr (EntryPrefix p)
      | Inl err \<Rightarrow>
          (case ParseAddr s of
             Inr a \<Rightarrow> Inr (EntryAddr a)
           | Inl _ \<Rightarrow> Inl (ErrCause err (''parse ['' @ itoa i @ '']''))))"

definition NewIPCIDRItem ::
  "(string \<Rightarrow> prefix result) \<Rightarrow> (string \<Rightarrow> addr result) \<Rightarrow> (ip_entry list \<Rightarrow> ip_set result) \<Rightarrow>
   (nat \<Rightarrow> string) \<Rightarrow> bool \<Rightarrow> string list \<Rightarrow> rule_item result" where
  "NewIPCIDRItem ParsePrefix ParseAddr build_set itoa isSource prefixStrings =
     rbind (map_result (parse_ip_entry ParsePrefix ParseAddr itoa) prefixStrings)
       (\<lambda>entries. rbind (build_set entries)
         (\<lambda>ipSet. Inr (IPCIDRItem ipSet isSource
            (describe_short (if isSource then ''source_ip_cidr='' else ''ip_cidr='') ''...'' prefixStrings))))"

definition NewRawIPCIDRItem :: "bool \<Rightarrow> ip_set \<Rightarrow> rule_item" where
  "NewRawIPCIDRItem isSource ipSet =
     IPCIDRItem ipSet isSource ((if isSource then ''source_ip_cidr='' else ''ip_cidr='') @ ''<binary>'')"

definition IPCIDRItem_Match :: "rule_env \<Rightarrow> ip_set \<Rightarrow> bool \<Rightarrow> inbound_context \<Rightarrow> bool" where
  "IPCIDRItem_Match E ipSet isSource m =
     (if isSource \<or> IPCIDRMatchSource m then ipSet (Addr (Source m))
      else if DestinationAddressMatchFromResponse m then
        (let addresses = DNSResponseAddressesForMatch E m
         in if addresses = [] then IPCIDRAcceptEmpty m else list_ex ipSet addresses)
      else if M_IsIP E (Destination m) then ipSet (Addr (Destination m))
      else if DestinationAddresses m \<noteq> [] then list_ex ipSet (DestinationAddresses m)
      else IPCIDRAcceptEmpty m)"

definition IPIsPrivateItem_Match :: "rule_env \<Rightarrow> bool \<Rightarrow> inbound_context \<Rightarrow> bool" where
  "IPIsPrivateItem_Match E isSource m =
     (if isSource then \<not> N_IsPublicAddr E (Addr (Source m))
      else if DestinationAddressMatchFromResponse m then
        list_ex (\<lambda>a. \<not> N_IsPublicAddr E a) (DNSResponseAddressesForMatch E m)
      else if addr_IsValid (Addr (Destination m)) then \<not> N_IsPublicAddr E (Addr (Destination m))
      else list_ex (\<lambda>a. \<not> N_IsPublicAddr E a) (DestinationAddresses m))"

definition IPIsPrivateItem_String :: "bool \<Rightarrow> string" where
  "IPIsPrivateItem_String isSource =
     (if isSource then ''source_ip_is_private=true'' else ''ip_is_private=true'')"

definition IPAcceptAnyItem_Match :: "rule_env \<Rightarrow> inbound_context \<Rightarrow> bool" where
  "IPAcceptAnyItem_Match E m =
     (if DestinationAddressMatchFromResponse m then DNSResponseAddressesForMatch E m \<noteq> []
      else DestinationAddresses m \<noteq> [])"

section \<open>Items on ports\<close>

definition NewPortItem :: "bool \<Rightarrow> u16 list \<Rightarrow> rule_item" where
  "NewPortItem isSource ports = PortItem ports (true_map ports) isSource"

definition PortItem_Match :: "u16 bool_map \<Rightarrow> bool \<Rightarrow> inbound_context \<Rightarrow> bool" where
  "PortItem_Match portMap isSource m =
     (if isSource then map_at portMap (Port (Source m)) else map_at portMap (Port (Destination m)))"

definition PortItem_String :: "rule_env \<Rightarrow> bool \<Rightarrow> u16 list \<Rightarrow> string" where
  "PortItem_String E isSource ports =
     describe_list (if isSource then ''source_port='' else ''port='')
       (map (\<lambda>p. F_ToString E (uint p)) ports)"

definition ErrBadPortRange :: error where
  "ErrBadPortRange = ErrNew ''bad port range''"

definition parse_port_range :: "string \<Rightarrow> (u16 \<times> u16) result" where
  "parse_port_range portRange =
     (case index_byte portRange CHR '':'' of
        None \<Rightarrow> Inl (ErrExtend ErrBadPortRange portRange)
      | Some subIndex \<Rightarrow>
          rbind (if subIndex > 0 then with_cause (''bad port range '' @ portRange) (parse_uint 16 (take subIndex portRange)) else Inr 0)
            (\<lambda>start. rbind (if subIndex = length portRange - 1 then Inr 0xFFFF
                            else with_cause (''bad port range '' @ portRange) (parse_uint 16 (drop (subIndex + 1) portRange)))
              (\<lambda>end'. Inr (of_nat start, of_nat end'))))"

definition NewPortRangeItem :: "bool \<Rightarrow> string list \<Rightarrow> rule_item result" where
  "NewPortRangeItem isSource rangeList =
     rbind (map_result (\<lambda>_. parse_port_range) rangeList)
       (\<lambda>portRangeList. Inr (PortRangeItem isSource rangeList portRangeList))"

definition PortRangeItem_Match :: "bool \<Rightarrow> (u16 \<times> u16) list \<Rightarrow> inbound_context \<Rightarrow> bool" where
  "PortRangeItem_Match isSource portRangeList m =
     (let port = (if isSource then Port (Source m) else Port (Destination m))
      in list_ex (\<lambda>(start, end'). port \<ge> start \<and> port \<le> end') portRangeList)"

definition PortRangeItem_String :: "bool \<Rightarrow> string list \<Rightarrow> string" where
  "PortRangeItem_String isSource portRanges =
     describe_list (if isSource then ''source_port_range='' else ''port_range='') portRanges"

section \<open>Items on the process\<close>

definition NewProcessItem :: "string list \<Rightarrow> rule_item" where
  "NewProcessItem processNameList = ProcessItem processNameList (true_map processNameList)"

definition ProcessItem_Match :: "rule_env \<Rightarrow> string bool_map \<Rightarrow> inbound_context \<Rightarrow> bool" where
  "ProcessItem_Match E processMap m =
     (case ProcessInfo m of
        None \<Rightarrow> False
      | Some info \<Rightarrow> if ProcessPath info = [] then False
                     else map_at processMap (filepath_Base E (ProcessPath info)))"

definition ProcessItem_String :: "string list \<Rightarrow> string" where
  "ProcessItem_String processes = describe_list ''process_name='' processes"

definition NewProcessPathItem :: "string list \<Rightarrow> rule_item" where
  "NewProcessPathItem processNameList = ProcessPathItem processNameList (true_map processNameList)"

definition ProcessPathItem_Match :: "rule_env \<Rightarrow> string bool_map \<Rightarrow> inbound_context \<Rightarrow> bool" where
  "ProcessPathItem_Match E processMap m =
     (case ProcessInfo m of
        None \<Rightarrow> False
      | Some info \<Rightarrow>
          if ProcessPath info \<noteq> [] \<and> map_at processMap (ProcessPath info) then True
          else if IsAndroid E then list_ex (map_at processMap) (AndroidPackageNames info)
          else False)"

definition ProcessPathItem_String :: "string list \<Rightarrow> string" where
  "ProcessPathItem_String processes = describe_list ''process_path='' processes"

definition NewProcessPathRegexItem ::
  "(string \<Rightarrow> matcher result) \<Rightarrow> (nat \<Rightarrow> string) \<Rightarrow> string list \<Rightarrow> rule_item result" where
  "NewProcessPathRegexItem compile itoa expressions =
     rbind (compile_all compile itoa expressions)
       (\<lambda>matchers. Inr (ProcessPathRegexItem matchers (describe_short ''process_path_regex='' [] expressions)))"

definition ProcessPathRegexItem_Match :: "matcher list \<Rightarrow> inbound_context \<Rightarrow> bool" where
  "ProcessPathRegexItem_Match matchers m =
     (case ProcessInfo m of
        None \<Rightarrow> False
      | Some info \<Rightarrow> if ProcessPath info = [] then False
                     else list_ex (\<lambda>matcher. matcher (ProcessPath info)) matchers)"

definition NewPackageNameItem :: "string list \<Rightarrow> rule_item" where
  "NewPackageNameItem packageNameList = PackageNameItem packageNameList (true_map packageNameList)"

definition PackageNameItem_Match :: "string bool_map \<Rightarrow> inbound_context \<Rightarrow> bool" where
  "PackageNameItem_Match packageMap m =
     (case ProcessInfo m of
        None \<Rightarrow> False
      | Some info \<Rightarrow> if AndroidPackageNames info = [] then False
                     else list_ex (map_at packageMap) (AndroidPackageNames info))"

definition PackageNameItem_String :: "string list \<Rightarrow> string" where
  "PackageNameItem_String packageNames = describe_list ''package_name='' packageNames"

definition NewPackageNameRegexItem ::
  "(string \<Rightarrow> matcher result) \<Rightarrow> (nat \<Rightarrow> string) \<Rightarrow> string list \<Rightarrow> rule_item result" where
  "NewPackageNameRegexItem compile itoa expressions =
     rbind (compile_all compile itoa expressions)
       (\<lambda>matchers. Inr (PackageNameRegexItem matchers (describe_short ''package_name_regex='' [] expressions)))"

definition PackageNameRegexItem_Match :: "matcher list \<Rightarrow> inbound_context \<Rightarrow> bool" where
  "PackageNameRegexItem_Match matchers m =
     (case ProcessInfo m of
        None \<Rightarrow> False
      | Some info \<Rightarrow> if AndroidPackageNames info = [] then False
                     else list_ex (\<lambda>matcher. list_ex matcher (AndroidPackageNames info)) matchers)"

definition NewUserItem :: "string list \<Rightarrow> rule_item" where
  "NewUserItem users = UserItem users (true_map users)"

definition UserItem_Match :: "string bool_map \<Rightarrow> inbound_context \<Rightarrow> bool" where
  "UserItem_Match userMap m =
     (case ProcessInfo m of
        None \<Rightarrow> False
      | Some info \<Rightarrow> if UserName info = [] then False else map_at userMap (UserName info))"

definition UserItem_String :: "string list \<Rightarrow> string" where
  "UserItem_String users = describe_list ''user='' users"

definition NewUserIDItem :: "int list \<Rightarrow> rule_item" where
  "NewUserIDItem userIdList = UserIdItem userIdList (true_map userIdList)"

definition UserIdItem_Match :: "int bool_map \<Rightarrow> inbound_context \<Rightarrow> bool" where
  "UserIdItem_Match userIdMap m =
     (case ProcessInfo m of
        None \<Rightarrow> False
      | Some info \<Rightarrow> if UserId info = - 1 then False else map_at userIdMap (UserId info))"

definition UserIdItem_String :: "rule_env \<Rightarrow> int list \<Rightarrow> string" where
  "UserIdItem_String E userIds = describe_list ''user_id='' (map (F_ToString E) userIds)"

section \<open>Items on the outbound, the mode and the network\<close>

text \<open>The loop of \<open>NewOutboundRule\<close>: the name \<open>any\<close> sets the flag, every other name
  goes into the map.\<close>

definition NewOutboundRule :: "string list \<Rightarrow> rule_item" where
  "NewOutboundRule outbounds =
     OutboundItem outbounds (true_map (filter (\<lambda>o'. o' \<noteq> ''any'') outbounds)) (''any'' \<in> set outbounds)"

definition OutboundItem_Match :: "string bool_map \<Rightarrow> bool \<Rightarrow> inbound_context \<Rightarrow> bool" where
  "OutboundItem_Match outboundMap matchAny m =
     (if matchAny then Outbound m \<noteq> [] else map_at outboundMap (Outbound m))"

definition OutboundItem_String :: "string list \<Rightarrow> string" where
  "OutboundItem_String outbounds = describe_list ''outbound='' outbounds"

definition NewClashModeItem :: "string \<Rightarrow> rule_item" where
  "NewClashModeItem mode = ClashModeItem False mode"

text \<open>\<open>Start\<close> looks the manager up in the context; \<open>found\<close> says whether it is there.\<close>

definition ClashModeItem_Start :: "bool \<Rightarrow> string \<Rightarrow> rule_item" where
  "ClashModeItem_Start found mode = ClashModeItem found mode"

definition ClashModeItem_Match :: "rule_env \<Rightarrow> bool \<Rightarrow> string \<Rightarrow> inbound_context \<Rightarrow> bool" where
  "ClashModeItem_Match E started mode m =
     (if \<not> started then False else strings_EqualFold E (ClashMode_Mode E) mode)"

definition NetworkTypeItem_Match :: "rule_env \<Rightarrow> u8 list \<Rightarrow> inbound_context \<Rightarrow> bool" where
  "NetworkTypeItem_Match E networkType m =
     (case DefaultNetworkInterface E of
        None \<Rightarrow> False
      | Some networkInterface \<Rightarrow> if_Type networkInterface \<in> set networkType)"

definition InterfaceType_String :: "rule_env \<Rightarrow> u8 \<Rightarrow> string" where
  "InterfaceType_String E t =
     (if t = 0 then ''wifi'' else if t = 1 then ''cellular'' else if t = 2 then ''ethernet''
      else if t = 3 then ''other'' else F_ToString E (uint t))"

definition NetworkTypeItem_String :: "rule_env \<Rightarrow> u8 list \<Rightarrow> string" where
  "NetworkTypeItem_String E networkType =
     describe_list ''network_type='' (map (InterfaceType_String E) networkType)"

definition NetworkIsExpensiveItem_Match :: "rule_env \<Rightarrow> inbound_context \<Rightarrow> bool" where
  "NetworkIsExpensiveItem_Match E m =
     (case DefaultNetworkInterface E of None \<Rightarrow> False | Some ni \<Rightarrow> if_Expensive ni)"

definition NetworkIsExpensiveItem_String :: string where
  "NetworkIsExpensiveItem_String = ''network_is_expensive=true''"

definition NetworkIsConstrainedItem_Match :: "rule_env \<Rightarrow> inbound_context \<Rightarrow> bool" where
  "NetworkIsConstrainedItem_Match E m =
     (case DefaultNetworkInterface E of None \<Rightarrow> False | Some ni \<Rightarrow> if_Constrained ni)"

definition NetworkIsConstrainedItem_String :: string where
  "NetworkIsConstrainedItem_String = ''network_is_expensive=true''"

definition NewWIFISSIDItem :: "string list \<Rightarrow> rule_item" where
  "NewWIFISSIDItem ssidList = WIFISSIDItem ssidList (true_map ssidList)"

definition WIFISSIDItem_Match :: "rule_env \<Rightarrow> string bool_map \<Rightarrow> inbound_context \<Rightarrow> bool" where
  "WIFISSIDItem_Match E ssidMap m = map_at ssidMap (WIFIState_SSID E)"

definition WIFISSIDItem_String :: "string list \<Rightarrow> string" where
  "WIFISSIDItem_String ssidList = describe_list ''wifi_ssid='' ssidList"

definition NewWIFIBSSIDItem :: "(string \<Rightarrow> string) \<Rightarrow> string list \<Rightarrow> rule_item" where
  "NewWIFIBSSIDItem NormalizeWIFIBSSID bssidList =
     WIFIBSSIDItem bssidList (true_map (map NormalizeWIFIBSSID bssidList))"

definition WIFIBSSIDItem_Match :: "rule_env \<Rightarrow> string bool_map \<Rightarrow> inbound_context \<Rightarrow> bool" where
  "WIFIBSSIDItem_Match E bssidMap m = map_at bssidMap (WIFIState_BSSID E)"

definition WIFIBSSIDItem_String :: "string list \<Rightarrow> string" where
  "WIFIBSSIDItem_String bssidList = describe_list ''wifi_bssid='' bssidList"

text \<open>\<open>prefixes\<close> of an entry as \<open>name=p1,p2\<close>.\<close>

definition describe_entry :: "rule_env \<Rightarrow> string \<Rightarrow> prefix list \<Rightarrow> string" where
  "describe_entry E name prefixes = name @ ''='' @ strings_Join (map (prefix_String E) prefixes) '',''"

definition NewInterfaceAddressItem :: "rule_env \<Rightarrow> (string \<times> prefix list) list \<Rightarrow> rule_item" where
  "NewInterfaceAddressItem E entries =
     InterfaceAddressItem entries
       (''interface_address=['' @ strings_Join (map (\<lambda>(k, ps). describe_entry E k ps) entries) '' '' @ '']'')"

definition InterfaceAddressItem_Match :: "rule_env \<Rightarrow> (string \<times> prefix list) list \<Rightarrow> inbound_context \<Rightarrow> bool" where
  "InterfaceAddressItem_Match E interfaceAddresses m =
     list_all (\<lambda>(ifName, addresses).
       (case find (\<lambda>it. if_Name it = ifName) (Interfaces E) of
          None \<Rightarrow> False
        | Some iface \<Rightarrow>
            if if_Name iface = [] then False
            else \<not> list_all (\<lambda>address. list_all (\<lambda>it. \<not> prefix_Overlaps address it) (if_Addresses iface)) addresses))
       interfaceAddresses"

definition NewNetworkInterfaceAddressItem :: "rule_env \<Rightarrow> (u8 \<times> prefix list) list \<Rightarrow> rule_item" where
  "NewNetworkInterfaceAddressItem E entries =
     NetworkInterfaceAddressItem entries
       (''network_interface_address=['' @
        strings_Join (map (\<lambda>(k, ps). describe_entry E (InterfaceType_String E k) ps) entries) '' '' @ '']'')"

definition NetworkInterfaceAddressItem_Match ::
  "rule_env \<Rightarrow> (u8 \<times> prefix list) list \<Rightarrow> inbound_context \<Rightarrow> bool" where
  "NetworkInterfaceAddressItem_Match E interfaceAddresses m =
     (let myInterfaces = (case InterfaceMonitor E of None \<Rightarrow> [] | Some monitor \<Rightarrow> MyInterfaces monitor)
      in list_all (\<lambda>(ifType, addresses).
           list_ex (\<lambda>networkInterface.
              if_Name networkInterface \<notin> set myInterfaces \<and>
              if_Type networkInterface = ifType \<and>
              list_ex (\<lambda>it. list_ex (\<lambda>prefix. prefix_Overlaps prefix it) addresses)
                (if_Addresses networkInterface))
             (NetworkInterfaces E))
         interfaceAddresses)"

definition DefaultInterfaceAddressItem_Match :: "rule_env \<Rightarrow> prefix list \<Rightarrow> inbound_context \<Rightarrow> bool" where
  "DefaultInterfaceAddressItem_Match E interfaceAddresses m =
     (case InterfaceMonitor E of
        None \<Rightarrow> False
      | Some monitor \<Rightarrow>
          (case DefaultInterface monitor of
             None \<Rightarrow> False
           | Some defaultInterface \<Rightarrow>
               list_all (\<lambda>address.
                 \<not> list_all (\<lambda>it. \<not> prefix_Overlaps address it) (if_Addresses defaultInterface))
                 interfaceAddresses))"

definition DefaultInterfaceAddressItem_String :: "rule_env \<Rightarrow> prefix list \<Rightarrow> string" where
  "DefaultInterfaceAddressItem_String E interfaceAddresses =
     describe_short ''default_interface_address='' ''...'' (map (prefix_String E) interfaceAddresses)"

section \<open>Items on the source device\<close>

definition NewSourceMACAddressItem :: "rule_env \<Rightarrow> string list \<Rightarrow> rule_item" where
  "NewSourceMACAddressItem E addressList =
     SourceMACAddressItem addressList
       (true_map (map (\<lambda>address. case net_ParseMAC E address of
                                   Some parsed \<Rightarrow> mac_String E parsed
                                 | None \<Rightarrow> address) addressList))"

definition SourceMACAddressItem_Match :: "rule_env \<Rightarrow> string bool_map \<Rightarrow> inbound_context \<Rightarrow> bool" where
  "SourceMACAddressItem_Match E addressMap m =
     (case SourceMACAddress m of None \<Rightarrow> False | Some mac \<Rightarrow> map_at addressMap (mac_String E mac))"

definition SourceMACAddressItem_String :: "string list \<Rightarrow> string" where
  "SourceMACAddressItem_String addresses = describe_list ''source_mac_address='' addresses"

definition NewSourceHostnameItem :: "string list \<Rightarrow> rule_item" where
  "NewSourceHostnameItem hostnameList = SourceHostnameItem hostnameList (true_map hostnameList)"

definition SourceHostnameItem_Match :: "string bool_map \<Rightarrow> inbound_context \<Rightarrow> bool" where
  "SourceHostnameItem_Match hostnameMap m =
     (if SourceHostname m = [] then False else map_at hostnameMap (SourceHostname m))"

definition SourceHostnameItem_String :: "string list \<Rightarrow> string" where
  "SourceHostnameItem_String hostnames = describe_list ''source_hostname='' hostnames"

section \<open>Items on preferred routes\<close>

definition NewPreferredByItem :: "string list \<Rightarrow> rule_item" where
  "NewPreferredByItem outboundTags = PreferredByItem outboundTags []"

text \<open>\<open>Start\<close>: every tag must name an outbound, and one with preferred routes. The lookup
  gives \<open>None\<close> when there is no such outbound and otherwise whether it has routes.\<close>

fun PreferredByItem_Start_loop ::
  "(string \<Rightarrow> bool option) \<Rightarrow> string list \<Rightarrow> string list \<Rightarrow> string list result" where
  "PreferredByItem_Start_loop lookup [] acc = Inr acc"
| "PreferredByItem_Start_loop lookup (tag # tags) acc =
     (case lookup tag of
        None \<Rightarrow> Inl (ErrNew (''outbound not found: '' @ tag))
      | Some withRoutes \<Rightarrow>
          if \<not> withRoutes then Inl (ErrNew ''outbound type does not support preferred routes'')
          else PreferredByItem_Start_loop lookup tags (acc @ [tag]))"

definition PreferredByItem_Match :: "rule_env \<Rightarrow> string list \<Rightarrow> inbound_context \<Rightarrow> bool" where
  "PreferredByItem_Match E outbounds m =
     (if domain_host m \<noteq> [] \<and> list_ex (\<lambda>ob. Outbound_PreferredDomain E ob (domain_host m)) outbounds
      then True
      else if M_IsIP E (Destination m) \<and>
              list_ex (\<lambda>ob. Outbound_PreferredAddress E ob (PreMatch m) (Addr (Destination m))) outbounds
      then True
      else list_ex (\<lambda>address. list_ex (\<lambda>ob. Outbound_PreferredAddress E ob (PreMatch m) address) outbounds)
             (DestinationAddresses m))"

definition PreferredByItem_String :: "string list \<Rightarrow> string" where
  "PreferredByItem_String outboundTags = describe_list ''preferred_by='' outboundTags"

definition NewPreferredByDNSItem :: "string list \<Rightarrow> rule_item" where
  "NewPreferredByDNSItem transportTags = PreferredByDNSItem transportTags []"

fun PreferredByDNSItem_Start_loop ::
  "(string \<Rightarrow> bool option) \<Rightarrow> string list \<Rightarrow> string list \<Rightarrow> string list result" where
  "PreferredByDNSItem_Start_loop lookup [] acc = Inr acc"
| "PreferredByDNSItem_Start_loop lookup (tag # tags) acc =
     (case lookup tag of
        None \<Rightarrow> Inl (ErrNew (''DNS server not found: '' @ tag))
      | Some withPreferredDomain \<Rightarrow>
          if \<not> withPreferredDomain then Inl (ErrNew ''DNS server type does not support preferred_by'')
          else PreferredByDNSItem_Start_loop lookup tags (acc @ [tag]))"

definition PreferredByDNSItem_Match :: "rule_env \<Rightarrow> string list \<Rightarrow> inbound_context \<Rightarrow> bool" where
  "PreferredByDNSItem_Match E transports m =
     (if domain_host m = [] then False
      else list_ex (\<lambda>transport. Transport_PreferredDomain E transport (dns_CanonicalName E (domain_host m))) transports)"

definition PreferredByDNSItem_String :: "string list \<Rightarrow> string" where
  "PreferredByDNSItem_String transportTags = describe_list ''preferred_by='' transportTags"

section \<open>Items on the DNS query and response\<close>

definition NewQueryTypeItem :: "u16 list \<Rightarrow> rule_item" where
  "NewQueryTypeItem typeList = QueryTypeItem typeList (true_map typeList)"

definition QueryTypeItem_Match :: "u16 bool_map \<Rightarrow> inbound_context \<Rightarrow> bool" where
  "QueryTypeItem_Match typeMap m = (if QueryType m = 0 then False else map_at typeMap (QueryType m))"

definition QueryClientSubnetItem_Match :: "prefix list \<Rightarrow> inbound_context \<Rightarrow> bool" where
  "QueryClientSubnetItem_Match prefixes m =
     (if \<not> prefix_IsValid (QueryClientSubnet m) then False
      else list_ex (\<lambda>prefix. prefix_Bits (QueryClientSubnet m) \<ge> prefix_Bits prefix \<and>
                             prefix_Contains prefix (prefix_Addr (QueryClientSubnet m))) prefixes)"

definition QueryClientSubnetItem_String :: "rule_env \<Rightarrow> prefix list \<Rightarrow> string" where
  "QueryClientSubnetItem_String E prefixes =
     describe_list ''query_client_subnet='' (map (prefix_String E) prefixes)"

definition QueryDNSSECItem_Match :: "inbound_context \<Rightarrow> bool" where
  "QueryDNSSECItem_Match m = QueryDNSSEC m"

definition DNSResponseRCodeItem_Match :: "int \<Rightarrow> inbound_context \<Rightarrow> bool" where
  "DNSResponseRCodeItem_Match rcode m =
     (case DNSResponse m of None \<Rightarrow> False | Some msg \<Rightarrow> Rcode msg = rcode)"

text \<open>\<open>DNSRecordOptions.Match\<close>; \<open>None\<close> is an option without a record.\<close>

definition DNSRecordOptions_Match :: "rule_env \<Rightarrow> rr option \<Rightarrow> rr \<Rightarrow> bool" where
  "DNSRecordOptions_Match E expected record =
     (case expected of None \<Rightarrow> False | Some rr \<Rightarrow> dns_IsDuplicate E rr record)"

definition DNSResponseRecordItem_Match ::
  "rule_env \<Rightarrow> rr option list \<Rightarrow> (dns_msg \<Rightarrow> rr list) \<Rightarrow> inbound_context \<Rightarrow> bool" where
  "DNSResponseRecordItem_Match E records selector m =
     (case DNSResponse m of
        None \<Rightarrow> False
      | Some msg \<Rightarrow> list_ex (\<lambda>expected. list_ex (DNSRecordOptions_Match E expected) (selector msg)) records)"

definition DNSResponseRecordItem_String :: "rule_env \<Rightarrow> string \<Rightarrow> rr option list \<Rightarrow> string" where
  "DNSResponseRecordItem_String E field records =
     field @ ''=['' @ strings_Join (map (rr_String E) (List.map_filter id records)) '' '' @ '']''"

section \<open>Dispatch\<close>

text \<open>The method \<open>Match\<close> of the interface \<open>RuleItem\<close>.\<close>

fun item_Match :: "rule_env \<Rightarrow> rule_item \<Rightarrow> inbound_context \<Rightarrow> bool" where
  "item_Match E (InboundItem _ mp) m = InboundItem_Match mp m"
| "item_Match E (IPVersionItem v) m = IPVersionItem_Match E v m"
| "item_Match E (NetworkItem _ mp) m = NetworkItem_Match mp m"
| "item_Match E (AuthUserItem _ mp) m = AuthUserItem_Match mp m"
| "item_Match E (ProtocolItem _ mp) m = ProtocolItem_Match mp m"
| "item_Match E (ClientItem _ mp) m = ClientItem_Match mp m"
| "item_Match E (DomainItem mt _) m = DomainItem_Match E mt m"
| "item_Match E (DomainKeywordItem ks) m = DomainKeywordItem_Match E ks m"
| "item_Match E (DomainRegexItem ms _) m = DomainRegexItem_Match E ms m"
| "item_Match E (IPCIDRItem st src _) m = IPCIDRItem_Match E st src m"
| "item_Match E (IPIsPrivateItem src) m = IPIsPrivateItem_Match E src m"
| "item_Match E IPAcceptAnyItem m = IPAcceptAnyItem_Match E m"
| "item_Match E (PortItem _ mp src) m = PortItem_Match mp src m"
| "item_Match E (PortRangeItem src _ rs) m = PortRangeItem_Match src rs m"
| "item_Match E (ProcessItem _ mp) m = ProcessItem_Match E mp m"
| "item_Match E (ProcessPathItem _ mp) m = ProcessPathItem_Match E mp m"
| "item_Match E (ProcessPathRegexItem ms _) m = ProcessPathRegexItem_Match ms m"
| "item_Match E (PackageNameItem _ mp) m = PackageNameItem_Match mp m"
| "item_Match E (PackageNameRegexItem ms _) m = PackageNameRegexItem_Match ms m"
| "item_Match E (UserItem _ mp) m = UserItem_Match mp m"
| "item_Match E (UserIdItem _ mp) m = UserIdItem_Match mp m"
| "item_Match E (OutboundItem _ mp anyb) m = OutboundItem_Match mp anyb m"
| "item_Match E (ClashModeItem st mode) m = ClashModeItem_Match E st mode m"
| "item_Match E (NetworkTypeItem ts) m = NetworkTypeItem_Match E ts m"
| "item_Match E NetworkIsExpensiveItem m = NetworkIsExpensiveItem_Match E m"
| "item_Match E NetworkIsConstrainedItem m = NetworkIsConstrainedItem_Match E m"
| "item_Match E (WIFISSIDItem _ mp) m = WIFISSIDItem_Match E mp m"
| "item_Match E (WIFIBSSIDItem _ mp) m = WIFIBSSIDItem_Match E mp m"
| "item_Match E (InterfaceAddressItem as _) m = InterfaceAddressItem_Match E as m"
| "item_Match E (NetworkInterfaceAddressItem as _) m = NetworkInterfaceAddressItem_Match E as m"
| "item_Match E (DefaultInterfaceAddressItem ps) m = DefaultInterfaceAddressItem_Match E ps m"
| "item_Match E (SourceMACAddressItem _ mp) m = SourceMACAddressItem_Match E mp m"
| "item_Match E (SourceHostnameItem _ mp) m = SourceHostnameItem_Match mp m"
| "item_Match E (PreferredByItem _ obs) m = PreferredByItem_Match E obs m"
| "item_Match E (PreferredByDNSItem _ ts) m = PreferredByDNSItem_Match E ts m"
| "item_Match E (QueryTypeItem _ mp) m = QueryTypeItem_Match mp m"
| "item_Match E (QueryClientSubnetItem ps) m = QueryClientSubnetItem_Match ps m"
| "item_Match E QueryDNSSECItem m = QueryDNSSECItem_Match m"
| "item_Match E (AdGuardDomainItem mt) m = AdGuardDomainItem_Match E mt m"
| "item_Match E (DNSResponseRCodeItem rc) m = DNSResponseRCodeItem_Match rc m"
| "item_Match E (DNSResponseRecordItem _ rs sel) m = DNSResponseRecordItem_Match E rs sel m"

definition matchAnyItem :: "rule_env \<Rightarrow> rule_item list \<Rightarrow> inbound_context \<Rightarrow> bool" where
  "matchAnyItem E items m = list_ex (\<lambda>it. item_Match E it m) items"

end
