(* ===== verification/Rule_Match.thy ===== *)
theory Rule_Match
  imports Rule_Items
begin

text \<open>
  Rule matching: \<open>route/rule/match_state.go\<close>, \<open>rule_abstract.go\<close>,
  \<open>rule_item_rule_set.go\<close> and the matching methods of \<open>rule_dns.go\<close>. A match reads the
  connection metadata and writes its rule cache, so every operation takes the metadata
  and returns the result with the metadata it leaves. Rule sets are reached through
  the pointers a \<open>RuleSetItem\<close> holds; the model carries the rules a set has at the
  time of the match.
\<close>

section \<open>Match groups\<close>

type_synonym ruleMatchState = u8

definition ruleMatchSourceAddress :: ruleMatchState where "ruleMatchSourceAddress = 1"
definition ruleMatchSourcePort :: ruleMatchState where "ruleMatchSourcePort = 2"
definition ruleMatchDestinationAddress :: ruleMatchState where "ruleMatchDestinationAddress = 4"
definition ruleMatchDestinationPort :: ruleMatchState where "ruleMatchDestinationPort = 8"

lemmas match_bits = ruleMatchSourceAddress_def ruleMatchSourcePort_def
  ruleMatchDestinationAddress_def ruleMatchDestinationPort_def

record ruleGroupMatch =
  required :: ruleMatchState
  satisfied :: ruleMatchState

definition group_done :: "ruleGroupMatch \<Rightarrow> bool" where
  "group_done g \<longleftrightarrow> required g AND NOT (satisfied g) = 0"

definition mergeWith :: "ruleGroupMatch \<Rightarrow> ruleGroupMatch \<Rightarrow> ruleGroupMatch" where
  "mergeWith g other = \<lparr>required = required g OR required other, satisfied = satisfied g OR satisfied other\<rparr>"

definition state_has :: "ruleMatchState \<Rightarrow> ruleMatchState \<Rightarrow> bool" where
  "state_has s target \<longleftrightarrow> s AND target \<noteq> 0"

record ruleMatchSnapshot =
  snap_ipCidrMatchSource :: bool
  snap_ipCidrAcceptEmpty :: bool
  snap_deferred :: u8

definition snapshotRuleMatch :: "inbound_context \<Rightarrow> ruleMatchSnapshot" where
  "snapshotRuleMatch m = \<lparr>snap_ipCidrMatchSource = IPCIDRMatchSource m,
     snap_ipCidrAcceptEmpty = IPCIDRAcceptEmpty m, snap_deferred = DeferredIPCIDRMatchGroups m\<rparr>"

definition restore :: "ruleMatchSnapshot \<Rightarrow> inbound_context \<Rightarrow> inbound_context" where
  "restore s m = m\<lparr>IPCIDRMatchSource := snap_ipCidrMatchSource s,
     IPCIDRAcceptEmpty := snap_ipCidrAcceptEmpty s, DeferredIPCIDRMatchGroups := snap_deferred s\<rparr>"

section \<open>Rules\<close>

text \<open>\<open>allItems\<close> lists every item of the rule; its rule-set item is the same object as
  \<open>ruleSetItem\<close>.\<close>

datatype any_item = ItemRef rule_item | RuleSetRef

record ruleSetMetadata =
  ContainsProcessRule :: bool
  ContainsWIFIRule :: bool
  ContainsIPCIDRRule :: bool
  ContainsDNSQueryTypeRule :: bool
  ContainsNonIPCIDRRule :: bool

datatype 'a abstractDefaultRule = AbstractDefaultRule
    (items: "rule_item list")
    (sourceAddressItems: "rule_item list")
    (sourcePortItems: "rule_item list")
    (destinationAddressItems: "rule_item list")
    (destinationIPCIDRItems: "rule_item list")
    (destinationPortItems: "rule_item list")
    (allItems: "any_item list")
    (ruleSetItem: "'a ruleSetItem option")
    (invert: bool)
    (action: "'a option")
and 'a ruleSetItem = RuleSetItem
    (tagList: "string list")
    (setList: "'a ruleSet list")
    (ipCidrMatchSource: bool)
    (ipCidrAcceptEmpty: bool)
and 'a ruleSet = RuleSet
    (rs_tag: string)
    (rs_rules: "'a headlessRule list")
    (rs_metadata: ruleSetMetadata)
and 'a abstractLogicalRule = AbstractLogicalRule
    (rules: "'a headlessRule list")
    (mode: string)
    (l_invert: bool)
    (l_action: "'a option")
and 'a headlessRule =
    DefaultHeadlessRule "'a abstractDefaultRule"
  | LogicalHeadlessRule "'a abstractLogicalRule"
  | DefaultRule "'a abstractDefaultRule"
  | LogicalRule "'a abstractLogicalRule"
  | DefaultDNSRule "'a abstractDefaultRule" bool string bool
  | LogicalDNSRule "'a abstractLogicalRule" "string list" bool bool

section \<open>Groups of a default rule\<close>

definition destinationIPCIDRMatchesSource :: "'a abstractDefaultRule \<Rightarrow> inbound_context \<Rightarrow> bool" where
  "destinationIPCIDRMatchesSource r m \<longleftrightarrow> IPCIDRMatchSource m \<and> destinationIPCIDRItems r \<noteq> []"

definition destinationIPCIDRMatchesDestination :: "'a abstractDefaultRule \<Rightarrow> inbound_context \<Rightarrow> bool" where
  "destinationIPCIDRMatchesDestination r m \<longleftrightarrow>
     \<not> IgnoreDestinationIPCIDRMatch m \<and> \<not> IPCIDRMatchSource m \<and> destinationIPCIDRItems r \<noteq> []"

text \<open>One \<open>if len(items) > 0 { required |= bit; if matchAnyItem { satisfied |= bit } }\<close>.\<close>

definition require_group :: "ruleMatchState \<Rightarrow> bool \<Rightarrow> bool \<Rightarrow> ruleGroupMatch \<Rightarrow> ruleGroupMatch" where
  "require_group b present matched g =
     (if present then
        g\<lparr>required := required g OR b,
          satisfied := (if matched then satisfied g OR b else satisfied g)\<rparr>
      else g)"

definition evaluateGroups ::
  "rule_env \<Rightarrow> 'a abstractDefaultRule \<Rightarrow> inbound_context \<Rightarrow> ruleGroupMatch \<times> inbound_context" where
  "evaluateGroups E r m =
     (let g0 = \<lparr>required = 0, satisfied = 0\<rparr>;
          g1 = require_group ruleMatchSourceAddress (sourceAddressItems r \<noteq> [])
                 (matchAnyItem E (sourceAddressItems r) m) g0;
          g2 = require_group ruleMatchSourceAddress (destinationIPCIDRMatchesSource r m)
                 (\<not> state_has (satisfied g1) ruleMatchSourceAddress \<and>
                  matchAnyItem E (destinationIPCIDRItems r) m) g1;
          g3 = require_group ruleMatchSourcePort (sourcePortItems r \<noteq> [])
                 (matchAnyItem E (sourcePortItems r) m) g2;
          g4 = require_group ruleMatchDestinationAddress (destinationAddressItems r \<noteq> [])
                 (matchAnyItem E (destinationAddressItems r) m) g3;
          g5 = require_group ruleMatchDestinationAddress (destinationIPCIDRMatchesDestination r m)
                 (\<not> state_has (satisfied g4) ruleMatchDestinationAddress \<and>
                  matchAnyItem E (destinationIPCIDRItems r) m) g4;
          g6 = require_group ruleMatchDestinationPort (destinationPortItems r \<noteq> [])
                 (matchAnyItem E (destinationPortItems r) m) g5;
          m' = (if IgnoreDestinationIPCIDRMatch m \<and> \<not> IPCIDRMatchSource m \<and>
                   destinationIPCIDRItems r \<noteq> [] \<and> destinationAddressItems r = []
                then m\<lparr>DeferredIPCIDRMatchGroups := DeferredIPCIDRMatchGroups m OR ruleMatchDestinationAddress\<rparr>
                else m)
      in (g6, m'))"

definition evaluateForMerge ::
  "rule_env \<Rightarrow> 'a abstractDefaultRule \<Rightarrow> inbound_context \<Rightarrow> (ruleGroupMatch \<times> bool) \<times> inbound_context" where
  "evaluateForMerge E r m =
     (let (groups, m') = evaluateGroups E r m
      in if list_all (\<lambda>it. item_Match E it m') (items r) then ((groups, True), m')
         else ((\<lparr>required = 0, satisfied = 0\<rparr>, False), m'))"

section \<open>Rule sets\<close>

text \<open>The two flags are the fields of the rule-set item.\<close>

definition prepareNestedMatch :: "bool \<Rightarrow> bool \<Rightarrow> inbound_context \<Rightarrow> inbound_context" where
  "prepareNestedMatch src ae m =
     (ResetRuleMatchCache m)\<lparr>IPCIDRMatchSource := src, IPCIDRAcceptEmpty := ae\<rparr>"

definition mergeableRuleIn :: "'a headlessRule list \<Rightarrow> 'a abstractDefaultRule option" where
  "mergeableRuleIn rs =
     (case rs of
        [DefaultHeadlessRule rule] \<Rightarrow>
          if invert rule \<or> ruleSetItem rule \<noteq> None then None else Some rule
      | _ \<Rightarrow> None)"

text \<open>What a loop that found no definite match leaves behind: the snapshot restored, and
  the deferred groups of the branches that matched.\<close>

definition leave_loop :: "ruleMatchSnapshot \<Rightarrow> bool \<Rightarrow> u8 \<Rightarrow> inbound_context \<Rightarrow> bool \<times> inbound_context" where
  "leave_loop snapshot matched deferredGroups m =
     (let m' = restore snapshot m
      in (matched,
          if matched
          then m'\<lparr>DeferredIPCIDRMatchGroups := DeferredIPCIDRMatchGroups m' OR deferredGroups\<rparr>
          else m'))"

text \<open>The end of \<open>abstractDefaultRule.Match\<close> and of \<open>abstractLogicalRule.Match\<close>.\<close>

definition invert_default :: "bool \<Rightarrow> bool \<times> inbound_context \<Rightarrow> bool \<times> inbound_context" where
  "invert_default ivt res =
     (let (matched, m) = res
      in if ivt then
           if \<not> matched then (True, m\<lparr>DeferredIPCIDRMatchGroups := 0\<rparr>)
           else (DeferredIPCIDRMatchGroups m \<noteq> 0, m)
         else (matched, m))"

definition leave_logical ::
  "bool \<Rightarrow> ruleMatchSnapshot \<Rightarrow> bool \<Rightarrow> u8 \<Rightarrow> inbound_context \<Rightarrow> bool \<times> inbound_context" where
  "leave_logical ivt snapshot matched deferredGroups m =
     (let (_, m') = leave_loop snapshot matched deferredGroups m
      in if ivt then (if \<not> matched then (True, m') else (deferredGroups \<noteq> 0, m'))
         else (matched, m'))"

section \<open>Loops over rules and rule sets\<close>

text \<open>A rule is used through the interface \<open>adapter.HeadlessRule\<close>: its \<open>Match\<close> method,
  here a function on the metadata. The loops have the local variables of the source as
  arguments.\<close>

type_synonym matchFn = "inbound_context \<Rightarrow> bool \<times> inbound_context"

fun headless_loop :: "ruleMatchSnapshot \<Rightarrow> matchFn list \<Rightarrow> inbound_context \<Rightarrow> bool \<Rightarrow> u8 \<Rightarrow> bool \<times> inbound_context" where
  "headless_loop snapshot [] m matched deferredGroups = leave_loop snapshot matched deferredGroups m"
| "headless_loop snapshot (match # rs) m matched deferredGroups =
     (let (b, m2) = match (ResetRuleMatchCache m)
      in if b then
           if DeferredIPCIDRMatchGroups m2 = 0 then (True, restore snapshot m2)
           else headless_loop snapshot rs m2 True (deferredGroups OR DeferredIPCIDRMatchGroups m2)
         else headless_loop snapshot rs m2 matched deferredGroups)"

definition matchAnyHeadlessRule :: "matchFn list \<Rightarrow> matchFn" where
  "matchAnyHeadlessRule rs m = headless_loop (snapshotRuleMatch m) rs m False 0"

fun and_loop :: "matchFn list \<Rightarrow> inbound_context \<Rightarrow> u8 \<Rightarrow> (bool \<times> u8) \<times> inbound_context" where
  "and_loop [] m deferredGroups = ((True, deferredGroups), m)"
| "and_loop (match # rs) m deferredGroups =
     (let (b, m2) = match (ResetRuleCache m)
      in if \<not> b then ((False, 0), m2)
         else and_loop rs m2 (deferredGroups OR DeferredIPCIDRMatchGroups m2))"

fun or_loop :: "matchFn list \<Rightarrow> inbound_context \<Rightarrow> bool \<Rightarrow> u8 \<Rightarrow> (bool \<times> u8) \<times> inbound_context" where
  "or_loop [] m matched deferredGroups = ((matched, deferredGroups), m)"
| "or_loop (match # rs) m matched deferredGroups =
     (let (b, m2) = match (ResetRuleCache m)
      in if b then
           if DeferredIPCIDRMatchGroups m2 = 0 then ((True, 0), m2)
           else or_loop rs m2 True (deferredGroups OR DeferredIPCIDRMatchGroups m2)
         else or_loop rs m2 matched deferredGroups)"

text \<open>\<open>abstractLogicalRule.Match\<close>, given the \<open>Match\<close> methods of its rules.\<close>

definition logical_body :: "string \<Rightarrow> bool \<Rightarrow> matchFn list \<Rightarrow> matchFn" where
  "logical_body md ivt rs m =
     (let ((matched, deferredGroups), m') =
            (if md = ''and'' then and_loop rs m 0 else or_loop rs m False 0)
      in leave_logical ivt (snapshotRuleMatch m) matched deferredGroups m')"

text \<open>The loop of \<open>matchWithOuterGroups\<close>. Of a rule set it uses \<open>mergeableRule\<close> and \<open>Match\<close>.\<close>

fun outer_loop ::
  "rule_env \<Rightarrow> (inbound_context \<Rightarrow> inbound_context) \<Rightarrow> ruleGroupMatch \<Rightarrow> ruleMatchSnapshot \<Rightarrow>
   ('a abstractDefaultRule option \<times> matchFn) list \<Rightarrow> inbound_context \<Rightarrow> bool \<Rightarrow> u8 \<Rightarrow> bool \<times> inbound_context" where
  "outer_loop E prepare outerGroups snapshot [] m matched deferredGroups =
     leave_loop snapshot matched deferredGroups m"
| "outer_loop E prepare outerGroups snapshot ((mergeable, match) # sets) m matched deferredGroups =
     (let m1 = prepare m
      in case mergeable of
           Some branch \<Rightarrow>
             (let ((branchGroups, branchMatched), m2) = evaluateForMerge E branch m1;
                  merged = mergeWith outerGroups branchGroups
              in if branchMatched \<and> group_done merged then
                   let branchDeferredGroups = DeferredIPCIDRMatchGroups m2 AND NOT (satisfied merged)
                   in if branchDeferredGroups = 0 then
                        let m3 = restore snapshot m2
                        in (True, m3\<lparr>DeferredIPCIDRMatchGroups :=
                                       DeferredIPCIDRMatchGroups m3 AND NOT (satisfied merged)\<rparr>)
                      else outer_loop E prepare outerGroups snapshot sets m2 True
                             (deferredGroups OR branchDeferredGroups)
                 else outer_loop E prepare outerGroups snapshot sets m2 matched deferredGroups)
         | None \<Rightarrow>
             if group_done outerGroups then
               let (b, m2) = match m1
               in if b then
                    if DeferredIPCIDRMatchGroups m2 = 0 then (True, restore snapshot m2)
                    else outer_loop E prepare outerGroups snapshot sets m2 True
                           (deferredGroups OR DeferredIPCIDRMatchGroups m2)
                  else outer_loop E prepare outerGroups snapshot sets m2 matched deferredGroups
             else outer_loop E prepare outerGroups snapshot sets m1 matched deferredGroups)"

definition outer_match ::
  "rule_env \<Rightarrow> bool \<Rightarrow> bool \<Rightarrow> ('a abstractDefaultRule option \<times> matchFn) list \<Rightarrow>
   inbound_context \<Rightarrow> ruleGroupMatch \<Rightarrow> bool \<times> inbound_context" where
  "outer_match E src ae sets m outerGroups =
     outer_loop E (prepareNestedMatch src ae) outerGroups (snapshotRuleMatch m) sets m False 0"

text \<open>\<open>abstractDefaultRule.Match\<close> with \<open>matchInner\<close>, given \<open>matchWithOuterGroups\<close> of its
  rule-set item.\<close>

definition matchInner ::
  "rule_env \<Rightarrow> 'a abstractDefaultRule \<Rightarrow> (inbound_context \<Rightarrow> ruleGroupMatch \<Rightarrow> bool \<times> inbound_context) option \<Rightarrow>
   matchFn" where
  "matchInner E r outer m =
     (let (groups, m1) = evaluateGroups E r m
      in if \<not> list_all (\<lambda>it. item_Match E it m1) (items r) then (False, m1)
         else
           let (matched, m2) =
                 (case outer of
                    Some matchWithOuterGroups \<Rightarrow> matchWithOuterGroups m1 groups
                  | None \<Rightarrow> (group_done groups, m1))
           in (matched,
               if matched
               then m2\<lparr>DeferredIPCIDRMatchGroups := DeferredIPCIDRMatchGroups m2 AND NOT (satisfied groups)\<rparr>
               else m2))"

definition default_body ::
  "rule_env \<Rightarrow> 'a abstractDefaultRule \<Rightarrow> (inbound_context \<Rightarrow> ruleGroupMatch \<Rightarrow> bool \<times> inbound_context) option \<Rightarrow>
   matchFn" where
  "default_body E r outer m =
     (if allItems r = [] then (True, m) else invert_default (invert r) (matchInner E r outer m))"

text \<open>\<open>DefaultDNSRule.matchForMatch\<close>, given \<open>abstractDefaultRule.Match\<close>: the rule is
  matched on a copy of the metadata when it matches a response.\<close>

definition matchForMatch :: "bool \<Rightarrow> bool \<Rightarrow> string \<Rightarrow> matchFn \<Rightarrow> matchFn" where
  "matchForMatch ivt matchResponse matchResponseTag match m =
     (if matchResponse then
        (case (if matchResponseTag \<noteq> [] then NamedDNSResponses m matchResponseTag else DNSResponse m) of
           None \<Rightarrow> (ivt, m)
         | Some response \<Rightarrow>
             (fst (match (m\<lparr>DNSResponse := Some response, DestinationAddressMatchFromResponse := True\<rparr>)), m))
      else match m)"

section \<open>Matching\<close>

primrec default_Match :: "'a abstractDefaultRule \<Rightarrow> rule_env \<Rightarrow> matchFn"
and matchWithOuterGroups ::
  "'a ruleSetItem \<Rightarrow> rule_env \<Rightarrow> inbound_context \<Rightarrow> ruleGroupMatch \<Rightarrow> bool \<times> inbound_context"
and ruleSet_Match :: "'a ruleSet \<Rightarrow> rule_env \<Rightarrow> matchFn"
and logical_Match :: "'a abstractLogicalRule \<Rightarrow> rule_env \<Rightarrow> matchFn"
and rule_Match :: "'a headlessRule \<Rightarrow> rule_env \<Rightarrow> matchFn"
where
  "default_Match (AbstractDefaultRule its srcA srcP dstA dstC dstP allI rsi ivt act) =
     (\<lambda>E. default_body E (AbstractDefaultRule its srcA srcP dstA dstC dstP allI rsi ivt act)
            (map_option (\<lambda>f. f E) (map_option matchWithOuterGroups rsi)))"
| "matchWithOuterGroups (RuleSetItem tags sets src ae) =
     (\<lambda>E. outer_match E src ae
            (zip (map (\<lambda>rs. mergeableRuleIn (rs_rules rs)) sets) (map (\<lambda>f. f E) (map ruleSet_Match sets))))"
| "ruleSet_Match (RuleSet t rs md) = (\<lambda>E. matchAnyHeadlessRule (map (\<lambda>f. f E) (map rule_Match rs)))"
| "logical_Match (AbstractLogicalRule rs md ivt act) =
     (\<lambda>E. logical_body md ivt (map (\<lambda>f. f E) (map rule_Match rs)))"
| "rule_Match (DefaultHeadlessRule r) = default_Match r"
| "rule_Match (LogicalHeadlessRule r) = logical_Match r"
| "rule_Match (DefaultRule r) = default_Match r"
| "rule_Match (LogicalRule r) = logical_Match r"
| "rule_Match (DefaultDNSRule r matchResponse matchResponseTag race) =
     (\<lambda>E. matchForMatch (invert r) matchResponse matchResponseTag (default_Match r E))"
| "rule_Match (LogicalDNSRule r tags anonymous race) = logical_Match r"

section \<open>The DNS rule interface\<close>

definition ContainsDestinationIPCIDRRule :: "'a ruleSetItem \<Rightarrow> bool" where
  "ContainsDestinationIPCIDRRule r =
     (if ipCidrMatchSource r then False
      else list_ex (\<lambda>ruleSet. ContainsIPCIDRRule (rs_metadata ruleSet)) (setList r))"

definition default_WithAddressLimit :: "'a abstractDefaultRule \<Rightarrow> bool" where
  "default_WithAddressLimit r =
     (if destinationIPCIDRItems r \<noteq> [] then True
      else case ruleSetItem r of None \<Rightarrow> False | Some si \<Rightarrow> ContainsDestinationIPCIDRRule si)"

text \<open>Of the rules in a logical rule only DNS rules are asked; the others have no
  \<open>WithAddressLimit\<close>.\<close>

fun WithAddressLimit :: "'a headlessRule \<Rightarrow> bool" where
  "WithAddressLimit (DefaultDNSRule r _ _ _) = default_WithAddressLimit r"
| "WithAddressLimit (LogicalDNSRule (AbstractLogicalRule rs _ _ _) _ _ _) = list_ex WithAddressLimit rs"
| "WithAddressLimit _ = False"

definition default_LegacyPreMatch :: "'a abstractDefaultRule \<Rightarrow> bool \<Rightarrow> rule_env \<Rightarrow> matchFn" where
  "default_LegacyPreMatch r matchResponse E m =
     (if matchResponse then (False, m)
      else let (b, m') = default_Match r E (m\<lparr>IgnoreDestinationIPCIDRMatch := True\<rparr>)
           in (b, m'\<lparr>IgnoreDestinationIPCIDRMatch := False\<rparr>))"

definition logical_LegacyPreMatch :: "'a abstractLogicalRule \<Rightarrow> rule_env \<Rightarrow> matchFn" where
  "logical_LegacyPreMatch r E m =
     (let (b, m') = logical_Match r E (m\<lparr>IgnoreDestinationIPCIDRMatch := True\<rparr>)
      in (b, m'\<lparr>IgnoreDestinationIPCIDRMatch := False\<rparr>))"

definition address_limit_metadata :: "inbound_context \<Rightarrow> dns_msg option \<Rightarrow> inbound_context" where
  "address_limit_metadata m response =
     (ResetRuleCache m)\<lparr>DNSResponse := response, DestinationAddressMatchFromResponse := True\<rparr>"

definition default_MatchAddressLimit ::
  "'a abstractDefaultRule \<Rightarrow> rule_env \<Rightarrow> inbound_context \<Rightarrow> dns_msg option \<Rightarrow> bool" where
  "default_MatchAddressLimit r E m response = fst (default_Match r E (address_limit_metadata m response))"

definition logical_MatchAddressLimit ::
  "'a abstractLogicalRule \<Rightarrow> rule_env \<Rightarrow> inbound_context \<Rightarrow> dns_msg option \<Rightarrow> bool" where
  "logical_MatchAddressLimit r E m response = fst (logical_Match r E (address_limit_metadata m response))"

text \<open>The methods of the interface \<open>adapter.DNSRule\<close>; only DNS rules have them.\<close>

fun LegacyPreMatch :: "'a headlessRule \<Rightarrow> rule_env \<Rightarrow> matchFn" where
  "LegacyPreMatch (DefaultDNSRule r matchResponse _ _) E m = default_LegacyPreMatch r matchResponse E m"
| "LegacyPreMatch (LogicalDNSRule r _ _ _) E m = logical_LegacyPreMatch r E m"
| "LegacyPreMatch _ E m = (False, m)"

fun MatchAddressLimit :: "'a headlessRule \<Rightarrow> rule_env \<Rightarrow> inbound_context \<Rightarrow> dns_msg option \<Rightarrow> bool" where
  "MatchAddressLimit (DefaultDNSRule r _ _ _) E m response = default_MatchAddressLimit r E m response"
| "MatchAddressLimit (LogicalDNSRule r _ _ _) E m response = logical_MatchAddressLimit r E m response"
| "MatchAddressLimit _ E m response = False"

fun isDNSRule :: "'a headlessRule \<Rightarrow> bool" where
  "isDNSRule (DefaultDNSRule _ _ _ _) = True"
| "isDNSRule (LogicalDNSRule _ _ _ _) = True"
| "isDNSRule _ = False"

end
