(* ===== verification/Rule_Spec.thy ===== *)
theory Rule_Spec
  imports Rule_Match
begin

text \<open>
  What a rule promises, and that the matcher keeps it. The specification
  \<open>rule_spec\<close> reads a rule as a formula over its items: all plain items hold, every
  group that has items has one that holds, a rule set that is a single plain rule adds its
  items to the groups of the rule that refers to it, any other rule set is a condition of
  its own, logical rules are conjunctions and disjunctions, \<open>invert\<close> is negation. The
  locale \<open>match_view\<close> relates the imperative matcher to it for every way of looking at the
  metadata that fits its assumptions: the matcher's answer with no deferred group is exact,
  an answer with deferred groups is undecided. It is interpreted twice, for ordinary
  matching and for the pre-match of DNS rules before the response is known.
\<close>

section \<open>Groups as sets of four bits\<close>

definition bits4 :: "bool \<Rightarrow> bool \<Rightarrow> bool \<Rightarrow> bool \<Rightarrow> u8" where
  "bits4 a b c d = (if a then 1 else 0) OR (if b then 2 else 0) OR (if c then 4 else 0) OR (if d then 8 else 0)"

lemma bits4_or: "bits4 a b c d OR bits4 a' b' c' d' = bits4 (a \<or> a') (b \<or> b') (c \<or> c') (d \<or> d')"
  by (cases a; cases b; cases c; cases d; cases a'; cases b'; cases c'; cases d') (simp_all add: bits4_def)

lemma bits4_and_not:
  "bits4 a b c d AND NOT (bits4 a' b' c' d') = bits4 (a \<and> \<not> a') (b \<and> \<not> b') (c \<and> \<not> c') (d \<and> \<not> d')"
  by (cases a; cases b; cases c; cases d; cases a'; cases b'; cases c'; cases d') (simp_all add: bits4_def)

lemma bits4_zero: "bits4 a b c d = 0 \<longleftrightarrow> \<not> a \<and> \<not> b \<and> \<not> c \<and> \<not> d"
  by (cases a; cases b; cases c; cases d) (simp_all add: bits4_def)

lemmas bits4_simps = bits4_or bits4_and_not bits4_zero

lemma bits4_match_bits:
  "ruleMatchSourceAddress = bits4 True False False False"
  "ruleMatchSourcePort = bits4 False True False False"
  "ruleMatchDestinationAddress = bits4 False False True False"
  "ruleMatchDestinationPort = bits4 False False False True"
  by (simp_all add: match_bits bits4_def)

lemma bits4_has:
  "state_has (bits4 a b c d) (bits4 True False False False) = a"
  "state_has (bits4 a b c d) (bits4 False False True False) = c"
  by (cases a; cases b; cases c; cases d; simp add: bits4_def state_has_def)+

abbreviation deferred :: "bool \<Rightarrow> u8" where
  "deferred d \<equiv> bits4 False False d False"

lemma deferred_0: "0 = deferred False"
  by (simp add: bits4_def)

section \<open>The specification\<close>

datatype match_group = GSourceAddress | GSourcePort | GDestinationAddress | GDestinationPort

fun group_items :: "'a abstractDefaultRule \<Rightarrow> bool \<Rightarrow> match_group \<Rightarrow> rule_item list" where
  "group_items r src GSourceAddress =
     sourceAddressItems r @ (if src then destinationIPCIDRItems r else [])"
| "group_items r src GSourcePort = sourcePortItems r"
| "group_items r src GDestinationAddress =
     destinationAddressItems r @ (if src then [] else destinationIPCIDRItems r)"
| "group_items r src GDestinationPort = destinationPortItems r"

text \<open>Several rules seen as one, each on its own view of the metadata: a group some of
  them has items in must have an item that holds.\<close>

definition group_holds :: "rule_env \<Rightarrow> ('a abstractDefaultRule \<times> inbound_context) list \<Rightarrow> match_group \<Rightarrow> bool" where
  "group_holds E rs g =
     (list_ex (\<lambda>(r, m). group_items r (IPCIDRMatchSource m) g \<noteq> []) rs \<longrightarrow>
      list_ex (\<lambda>(r, m). matchAnyItem E (group_items r (IPCIDRMatchSource m) g) m) rs)"

definition groups_hold :: "rule_env \<Rightarrow> ('a abstractDefaultRule \<times> inbound_context) list \<Rightarrow> bool" where
  "groups_hold E rs =
     list_all (group_holds E rs) [GSourceAddress, GSourcePort, GDestinationAddress, GDestinationPort]"

definition items_hold :: "rule_env \<Rightarrow> 'a abstractDefaultRule \<Rightarrow> inbound_context \<Rightarrow> bool" where
  "items_hold E r m = list_all (\<lambda>it. item_Match E it m) (items r)"

definition set_holds ::
  "rule_env \<Rightarrow> 'a abstractDefaultRule \<Rightarrow> inbound_context \<Rightarrow> inbound_context \<Rightarrow>
   'a abstractDefaultRule option \<times> (inbound_context \<Rightarrow> bool) \<Rightarrow> bool" where
  "set_holds E r m mn s =
     (case s of
        (Some branch, _) \<Rightarrow> items_hold E branch mn \<and> groups_hold E [(r, m), (branch, mn)]
      | (None, holds) \<Rightarrow> groups_hold E [(r, m)] \<and> holds mn)"

definition default_formula ::
  "rule_env \<Rightarrow> 'a abstractDefaultRule \<Rightarrow> ('a abstractDefaultRule \<Rightarrow> inbound_context \<Rightarrow> bool) option \<Rightarrow>
   inbound_context \<Rightarrow> bool" where
  "default_formula E r outer m =
     (allItems r = [] \<or>
      invert r \<noteq>
        (items_hold E r m \<and>
         (case outer of None \<Rightarrow> groups_hold E [(r, m)] | Some holds \<Rightarrow> holds r m)))"

definition logical_formula :: "string \<Rightarrow> bool \<Rightarrow> (inbound_context \<Rightarrow> bool) list \<Rightarrow> inbound_context \<Rightarrow> bool" where
  "logical_formula md ivt fs m =
     (ivt \<noteq> (let m0 = m\<lparr>IPCIDRMatchSource := False, IPCIDRAcceptEmpty := False\<rparr>
             in if md = ''and'' then list_all (\<lambda>f. f m0) fs else list_ex (\<lambda>f. f m0) fs))"

definition response_formula :: "bool \<Rightarrow> bool \<Rightarrow> string \<Rightarrow> (inbound_context \<Rightarrow> bool) \<Rightarrow> inbound_context \<Rightarrow> bool" where
  "response_formula ivt matchResponse matchResponseTag holds m =
     (if matchResponse then
        (case (if matchResponseTag \<noteq> [] then NamedDNSResponses m matchResponseTag else DNSResponse m) of
           None \<Rightarrow> ivt
         | Some response \<Rightarrow> holds (m\<lparr>DNSResponse := Some response, DestinationAddressMatchFromResponse := True\<rparr>))
      else holds m)"

primrec default_spec :: "'a abstractDefaultRule \<Rightarrow> rule_env \<Rightarrow> inbound_context \<Rightarrow> bool"
and setItem_spec :: "'a ruleSetItem \<Rightarrow> rule_env \<Rightarrow> 'a abstractDefaultRule \<Rightarrow> inbound_context \<Rightarrow> bool"
and set_spec :: "'a ruleSet \<Rightarrow> rule_env \<Rightarrow> inbound_context \<Rightarrow> bool"
and logical_spec :: "'a abstractLogicalRule \<Rightarrow> rule_env \<Rightarrow> inbound_context \<Rightarrow> bool"
and rule_spec :: "'a headlessRule \<Rightarrow> rule_env \<Rightarrow> inbound_context \<Rightarrow> bool"
where
  "default_spec (AbstractDefaultRule its srcA srcP dstA dstC dstP allI rsi ivt act) =
     (\<lambda>E. default_formula E (AbstractDefaultRule its srcA srcP dstA dstC dstP allI rsi ivt act)
            (map_option (\<lambda>f. f E) (map_option setItem_spec rsi)))"
| "setItem_spec (RuleSetItem tags sets src ae) =
     (\<lambda>E r m. list_ex (set_holds E r m (m\<lparr>IPCIDRMatchSource := src, IPCIDRAcceptEmpty := ae\<rparr>))
        (zip (map (\<lambda>rs. mergeableRuleIn (rs_rules rs)) sets) (map (\<lambda>f. f E) (map set_spec sets))))"
| "set_spec (RuleSet t rs md) = (\<lambda>E m. list_ex (\<lambda>f. f E m) (map rule_spec rs))"
| "logical_spec (AbstractLogicalRule rs md ivt act) =
     (\<lambda>E. logical_formula md ivt (map (\<lambda>f. f E) (map rule_spec rs)))"
| "rule_spec (DefaultHeadlessRule r) = default_spec r"
| "rule_spec (LogicalHeadlessRule r) = logical_spec r"
| "rule_spec (DefaultRule r) = default_spec r"
| "rule_spec (LogicalRule r) = logical_spec r"
| "rule_spec (DefaultDNSRule r matchResponse matchResponseTag race) =
     (\<lambda>E. response_formula (invert r) matchResponse matchResponseTag (default_spec r E))"
| "rule_spec (LogicalDNSRule r tags anonymous race) = logical_spec r"

section \<open>Items do not read the rule cache\<close>

lemmas item_Match_defs =
  InboundItem_Match_def IPVersionItem_Match_def NetworkItem_Match_def AuthUserItem_Match_def
  ProtocolItem_Match_def ClientItem_Match_def DomainItem_Match_def DomainKeywordItem_Match_def
  DomainRegexItem_Match_def IPCIDRItem_Match_def IPIsPrivateItem_Match_def IPAcceptAnyItem_Match_def
  PortItem_Match_def PortRangeItem_Match_def ProcessItem_Match_def ProcessPathItem_Match_def
  ProcessPathRegexItem_Match_def PackageNameItem_Match_def PackageNameRegexItem_Match_def
  UserItem_Match_def UserIdItem_Match_def OutboundItem_Match_def ClashModeItem_Match_def
  NetworkTypeItem_Match_def NetworkIsExpensiveItem_Match_def NetworkIsConstrainedItem_Match_def
  WIFISSIDItem_Match_def WIFIBSSIDItem_Match_def InterfaceAddressItem_Match_def
  NetworkInterfaceAddressItem_Match_def DefaultInterfaceAddressItem_Match_def
  SourceMACAddressItem_Match_def SourceHostnameItem_Match_def PreferredByItem_Match_def
  PreferredByDNSItem_Match_def QueryTypeItem_Match_def QueryClientSubnetItem_Match_def
  QueryDNSSECItem_Match_def AdGuardDomainItem_Match_def DNSResponseRCodeItem_Match_def
  DNSResponseRecordItem_Match_def domain_host_def DNSResponseAddressesForMatch_def

lemma item_Match_cache [simp]:
  "item_Match E it (m\<lparr>DeferredIPCIDRMatchGroups := d\<rparr>) = item_Match E it m"
  "item_Match E it (m\<lparr>IgnoreDestinationIPCIDRMatch := i\<rparr>) = item_Match E it m"
  "item_Match E it (m\<lparr>SourceAddressMatch := b\<rparr>) = item_Match E it m"
  "item_Match E it (m\<lparr>SourcePortMatch := b\<rparr>) = item_Match E it m"
  "item_Match E it (m\<lparr>DestinationAddressMatch := b\<rparr>) = item_Match E it m"
  "item_Match E it (m\<lparr>DestinationPortMatch := b\<rparr>) = item_Match E it m"
  by (cases it; simp add: item_Match_defs)+

lemma item_Match_ResetRuleMatchCache [simp]:
  "item_Match E it (ResetRuleMatchCache m) = item_Match E it m"
  by (simp add: ResetRuleMatchCache_def)

section \<open>What a match leaves of the metadata\<close>

text \<open>The metadata up to the rule cache is \<open>ResetRuleMatchCache m\<close>; up to the cache and the two
  flags of a rule-set item it is \<open>ResetRuleCache m\<close>.\<close>

abbreviation same_ctx :: "inbound_context \<Rightarrow> inbound_context \<Rightarrow> bool" where
  "same_ctx m m0 \<equiv> ResetRuleMatchCache m = ResetRuleMatchCache m0"

abbreviation same_base :: "inbound_context \<Rightarrow> inbound_context \<Rightarrow> bool" where
  "same_base m m0 \<equiv> ResetRuleCache m = ResetRuleCache m0"

lemma same_ctx_base: "same_ctx m m0 \<Longrightarrow> same_base m m0"
  by (cases m; cases m0) (simp add: ResetRuleCache_def ResetRuleMatchCache_def)

lemma same_ctx_fields:
  assumes "same_ctx m m0"
  shows "IgnoreDestinationIPCIDRMatch m = IgnoreDestinationIPCIDRMatch m0"
    and "IPCIDRMatchSource m = IPCIDRMatchSource m0"
    and "item_Match E it m = item_Match E it m0"
  using arg_cong[OF assms, of IgnoreDestinationIPCIDRMatch] arg_cong[OF assms, of IPCIDRMatchSource]
    arg_cong[OF assms, of "item_Match E it"]
  by (simp_all, simp_all add: ResetRuleMatchCache_def)

lemma same_base_ignore:
  assumes "same_base m m0"
  shows "IgnoreDestinationIPCIDRMatch m = IgnoreDestinationIPCIDRMatch m0"
  using arg_cong[OF assms, of IgnoreDestinationIPCIDRMatch]
  by (simp add: ResetRuleCache_def ResetRuleMatchCache_def)

lemma Reset_same [simp]:
  "ResetRuleMatchCache (ResetRuleMatchCache m) = ResetRuleMatchCache m"
  "ResetRuleCache (ResetRuleMatchCache m) = ResetRuleCache m"
  "ResetRuleMatchCache (ResetRuleCache m) = ResetRuleCache m"
  "ResetRuleCache (ResetRuleCache m) = ResetRuleCache m"
  "ResetRuleMatchCache (m\<lparr>DeferredIPCIDRMatchGroups := d\<rparr>) = ResetRuleMatchCache m"
  "ResetRuleCache (m\<lparr>DeferredIPCIDRMatchGroups := d\<rparr>) = ResetRuleCache m"
  "ResetRuleCache (m\<lparr>IPCIDRMatchSource := b, IPCIDRAcceptEmpty := b'\<rparr>) = ResetRuleCache m"
  by (cases m; simp add: ResetRuleCache_def ResetRuleMatchCache_def)+

lemma restore_same_ctx:
  assumes "same_base m m0"
  shows "same_ctx (restore (snapshotRuleMatch m0) m) m0"
  using assms
  by (cases m; cases m0) (simp add: restore_def snapshotRuleMatch_def ResetRuleCache_def ResetRuleMatchCache_def)

lemma restore_deferred [simp]:
  "DeferredIPCIDRMatchGroups (restore (snapshotRuleMatch m0) m) = DeferredIPCIDRMatchGroups m0"
  by (simp add: restore_def snapshotRuleMatch_def)

lemma prepareNestedMatch_base [simp]: "same_base (prepareNestedMatch src ae m) m"
  by (cases m) (simp add: prepareNestedMatch_def ResetRuleCache_def ResetRuleMatchCache_def)

lemma prepareNestedMatch_cong: "same_base m m0 \<Longrightarrow> prepareNestedMatch src ae m = prepareNestedMatch src ae m0"
  by (cases m; cases m0) (simp add: prepareNestedMatch_def ResetRuleCache_def ResetRuleMatchCache_def)

definition frame :: "matchFn \<Rightarrow> bool" where
  "frame f \<longleftrightarrow> (\<forall>m. same_ctx (snd (f m)) m)"

lemma frameD: "frame f \<Longrightarrow> f m = (b, m') \<Longrightarrow> same_ctx m' m"
  unfolding frame_def by (metis snd_conv)

lemma leave_loop_frame: "same_base m m0 \<Longrightarrow> same_ctx (snd (leave_loop (snapshotRuleMatch m0) b d m)) m0"
  by (simp add: leave_loop_def Let_def restore_same_ctx)

lemma headless_loop_frame:
  assumes "\<forall>f \<in> set rs. frame f" and "same_base m m0"
  shows "same_ctx (snd (headless_loop (snapshotRuleMatch m0) rs m b d)) m0"
  using assms
proof (induction rs arbitrary: m b d)
  case Nil
  then show ?case by (simp add: leave_loop_frame)
next
  case (Cons f rs)
  obtain c m2 where f: "f (ResetRuleMatchCache m) = (c, m2)" by fastforce
  have "same_base m2 m0"
    using same_ctx_base[OF frameD[of f, OF _ f]] Cons.prems by simp
  with Cons f show ?case by (auto simp: restore_same_ctx Let_def)
qed

lemma and_loop_frame:
  assumes "\<forall>f \<in> set rs. frame f"
  shows "same_base (snd (and_loop rs m d)) m"
  using assms
proof (induction rs arbitrary: m d)
  case (Cons f rs)
  obtain c m2 where f: "f (ResetRuleCache m) = (c, m2)" by fastforce
  have "same_base m2 m"
    using same_ctx_base[OF frameD[of f, OF _ f]] Cons.prems by simp
  with Cons f show ?case by simp
qed simp

lemma or_loop_frame:
  assumes "\<forall>f \<in> set rs. frame f"
  shows "same_base (snd (or_loop rs m b d)) m"
  using assms
proof (induction rs arbitrary: m b d)
  case (Cons f rs)
  obtain c m2 where f: "f (ResetRuleCache m) = (c, m2)" by fastforce
  have "same_base m2 m"
    using same_ctx_base[OF frameD[of f, OF _ f]] Cons.prems by simp
  with Cons f show ?case by simp
qed simp

lemma logical_body_frame:
  assumes "\<forall>f \<in> set rs. frame f"
  shows "frame (logical_body md ivt rs)"
proof -
  have "same_ctx (snd (leave_logical ivt (snapshotRuleMatch m) b d m')) m" if "same_base m' m" for m m' b d
    using leave_loop_frame[OF that, of b d] by (auto simp: leave_logical_def split: prod.split)
  then show ?thesis
    using and_loop_frame[OF assms] or_loop_frame[OF assms]
    by (simp add: frame_def logical_body_def split: prod.split) (metis snd_conv)
qed

lemma evaluateGroups_frame: "same_ctx (snd (evaluateGroups E r m)) m"
  by (simp add: evaluateGroups_def Let_def)

lemma evaluateForMerge_frame: "same_ctx (snd (evaluateForMerge E r m)) m"
  using evaluateGroups_frame[of E r m] by (auto simp: evaluateForMerge_def split: prod.split)

lemma outer_loop_frame:
  assumes "\<forall>(mo, f) \<in> set sets. frame f" and "same_base m m0"
  shows "same_ctx (snd (outer_loop E (prepareNestedMatch src ae) g (snapshotRuleMatch m0) sets m b d)) m0"
  using assms
proof (induction sets arbitrary: m b d)
  case Nil
  then show ?case by (simp add: leave_loop_frame)
next
  case (Cons s sets)
  obtain mo f where s: "s = (mo, f)" by fastforce
  let ?m1 = "prepareNestedMatch src ae m"
  obtain c m2 where f: "f ?m1 = (c, m2)" by fastforce
  have m2: "same_base m2 m0"
    using same_ctx_base[OF frameD[of f, OF _ f]] Cons.prems s by simp
  have m1: "same_base ?m1 m0" using Cons.prems by simp
  have sets: "\<forall>(mo, f) \<in> set sets. frame f" using Cons.prems by simp
  show ?case
  proof (cases mo)
    case None
    with s f m1 m2 Cons.IH[OF sets] show ?thesis
      by (auto simp: restore_same_ctx Let_def)
  next
    case (Some branch)
    obtain bg bm m3 where e: "evaluateForMerge E branch ?m1 = ((bg, bm), m3)"
      by (metis surj_pair)
    have "same_base m3 m0"
      using same_ctx_base[OF evaluateForMerge_frame[of E branch ?m1]] e m1 by simp
    with s e Some Cons.IH[OF sets] show ?thesis
      by (auto simp: restore_same_ctx Let_def)
  qed
qed

lemma default_body_frame:
  assumes "\<And>f m g. outer = Some f \<Longrightarrow> same_ctx (snd (f m g)) m"
  shows "frame (default_body E r outer)"
proof -
  have "same_ctx (snd (matchInner E r outer m)) m" for m
  proof -
    obtain g m1 where e: "evaluateGroups E r m = (g, m1)" by fastforce
    have m1: "same_ctx m1 m" using evaluateGroups_frame[of E r m] e by simp
    show ?thesis
      using e m1 assms by (cases outer) (simp_all add: matchInner_def split: prod.split, metis snd_conv)
  qed
  moreover have "same_ctx (snd (invert_default i res)) (snd res)" for i res
    by (simp add: invert_default_def split: prod.split)
  ultimately show ?thesis by (auto simp: frame_def default_body_def)
qed

lemma matchForMatch_frame: "frame f \<Longrightarrow> frame (matchForMatch i mr t f)"
  by (auto simp: frame_def matchForMatch_def split: option.split)

lemma Match_frame:
  fixes r :: "'a abstractDefaultRule" and si :: "'a ruleSetItem" and s :: "'a ruleSet"
    and l :: "'a abstractLogicalRule" and h :: "'a headlessRule"
  shows "frame (default_Match r E)"
    and "same_ctx (snd (matchWithOuterGroups si E m g)) m"
    and "frame (ruleSet_Match s E)"
    and "frame (logical_Match l E)"
    and "frame (rule_Match h E)"
proof (induction r and si and s and l and h arbitrary: and m g)
  case (AbstractDefaultRule its srcA srcP dstA dstC dstP allI rsi ivt act)
  show ?case
    unfolding default_Match.simps
    by (rule default_body_frame) (use AbstractDefaultRule in \<open>auto\<close>)
next
  case (RuleSetItem tags sets src ae)
  then show ?case
    by (auto simp: outer_match_def set_zip intro!: outer_loop_frame)
next
  case (RuleSet t rs md)
  then show ?case
    by (auto simp: frame_def matchAnyHeadlessRule_def intro!: headless_loop_frame)
next
  case (AbstractLogicalRule rs md ivt act)
  then show ?case by (auto intro!: logical_body_frame)
qed (simp_all add: matchForMatch_frame)

end
