(* ===== verification/Rule_Sound.thy ===== *)
theory Rule_Sound
  imports Rule_Spec
begin

text \<open>
  The matcher implements the specification. A match can be run before the DNS response is
  known (\<open>LegacyPreMatch\<close>): destination address conditions are then skipped, and the
  bits they would decide are recorded in \<open>DeferredIPCIDRMatchGroups\<close>. The locale
  \<open>match_view\<close> covers both runs: \<open>view\<close> is the metadata the condition is really about
  and \<open>strict\<close> says whether destination addresses are skipped. Its main lemma says that an
  answer \<open>False\<close> is definite, and that \<open>True\<close> is definite when no group is deferred.
\<close>

section \<open>Rules that can be pre-matched\<close>

text \<open>Items whose answer does not depend on the DNS response, given whether IP items look at
  the source.\<close>

fun response_free :: "bool \<Rightarrow> rule_item \<Rightarrow> bool" where
  "response_free src (IPCIDRItem _ isSource _) = (isSource \<or> src)"
| "response_free src (IPIsPrivateItem isSource) = isSource"
| "response_free src IPAcceptAnyItem = False"
| "response_free src (DNSResponseRCodeItem _) = False"
| "response_free src (DNSResponseRecordItem _ _ _) = False"
| "response_free src _ = True"

definition cidr_destination :: "bool \<Rightarrow> 'a abstractDefaultRule \<Rightarrow> bool" where
  "cidr_destination src r \<longleftrightarrow> \<not> src \<and> destinationIPCIDRItems r \<noteq> []"

text \<open>Whether a match of the rule can end with a deferred group.\<close>

primrec default_mayDefer :: "'a abstractDefaultRule \<Rightarrow> bool \<Rightarrow> bool"
and setItem_mayDefer :: "'a ruleSetItem \<Rightarrow> bool"
and set_mayDefer :: "'a ruleSet \<Rightarrow> bool \<Rightarrow> bool"
and logical_mayDefer :: "'a abstractLogicalRule \<Rightarrow> bool"
and rule_mayDefer :: "'a headlessRule \<Rightarrow> bool \<Rightarrow> bool"
where
  "default_mayDefer (AbstractDefaultRule its srcA srcP dstA dstC dstP allI rsi ivt act) =
     (\<lambda>src. cidr_destination src (AbstractDefaultRule its srcA srcP dstA dstC dstP allI rsi ivt act) \<or>
            map_option setItem_mayDefer rsi = Some True)"
| "setItem_mayDefer (RuleSetItem tags sets src ae) = list_ex (\<lambda>f. f src) (map set_mayDefer sets)"
| "set_mayDefer (RuleSet t rs md) = (\<lambda>src. list_ex (\<lambda>f. f src) (map rule_mayDefer rs))"
| "logical_mayDefer (AbstractLogicalRule rs md ivt act) = list_ex (\<lambda>f. f False) (map rule_mayDefer rs)"
| "rule_mayDefer (DefaultHeadlessRule r) = default_mayDefer r"
| "rule_mayDefer (LogicalHeadlessRule r) = (\<lambda>src. logical_mayDefer r)"
| "rule_mayDefer (DefaultRule r) = default_mayDefer r"
| "rule_mayDefer (LogicalRule r) = (\<lambda>src. logical_mayDefer r)"
| "rule_mayDefer (DefaultDNSRule r matchResponse tag race) = default_mayDefer r"
| "rule_mayDefer (LogicalDNSRule r tags anonymous race) = (\<lambda>src. logical_mayDefer r)"

text \<open>The rules the pre-match is exact for: no item reads the response, and no group mixes
  destination names with destination addresses, neither in a rule nor across a rule and the
  rule sets it refers to.\<close>

definition items_free :: "bool \<Rightarrow> 'a abstractDefaultRule \<Rightarrow> bool" where
  "items_free src r =
     list_all (response_free src)
       (items r @ sourceAddressItems r @ sourcePortItems r @ destinationAddressItems r @ destinationPortItems r @
        (if src then destinationIPCIDRItems r else []))"

definition unmixed :: "bool \<Rightarrow> 'a abstractDefaultRule \<Rightarrow> bool" where
  "unmixed src r \<longleftrightarrow> destinationAddressItems r = [] \<or> \<not> cidr_destination src r"

definition set_unmixed :: "bool \<Rightarrow> 'a abstractDefaultRule \<Rightarrow> bool \<Rightarrow> 'a ruleSet \<Rightarrow> bool" where
  "set_unmixed src r src' s \<longleftrightarrow>
     (destinationAddressItems r \<noteq> [] \<longrightarrow> \<not> set_mayDefer s src') \<and>
     (case mergeableRuleIn (rs_rules s) of
        None \<Rightarrow> True
      | Some branch \<Rightarrow> destinationAddressItems branch \<noteq> [] \<longrightarrow> \<not> cidr_destination src r)"

primrec default_ok :: "'a abstractDefaultRule \<Rightarrow> bool \<Rightarrow> bool"
and setItem_ok :: "'a ruleSetItem \<Rightarrow> bool"
and set_ok :: "'a ruleSet \<Rightarrow> bool \<Rightarrow> bool"
and logical_ok :: "'a abstractLogicalRule \<Rightarrow> bool"
and rule_ok :: "'a headlessRule \<Rightarrow> bool \<Rightarrow> bool"
where
  "default_ok (AbstractDefaultRule its srcA srcP dstA dstC dstP allI rsi ivt act) =
     (\<lambda>src. let r = AbstractDefaultRule its srcA srcP dstA dstC dstP allI rsi ivt act
            in items_free src r \<and> unmixed src r \<and>
               map_option setItem_ok rsi \<noteq> Some False \<and>
               (case rsi of None \<Rightarrow> True
                | Some si \<Rightarrow> list_all (set_unmixed src r (ipCidrMatchSource si)) (setList si)))"
| "setItem_ok (RuleSetItem tags sets src ae) = list_all (\<lambda>f. f src) (map set_ok sets)"
| "set_ok (RuleSet t rs md) = (\<lambda>src. list_all (\<lambda>f. f src) (map rule_ok rs))"
| "logical_ok (AbstractLogicalRule rs md ivt act) = list_all (\<lambda>f. f False) (map rule_ok rs)"
| "rule_ok (DefaultHeadlessRule r) = default_ok r"
| "rule_ok (LogicalHeadlessRule r) = (\<lambda>src. logical_ok r)"
| "rule_ok (DefaultRule r) = default_ok r"
| "rule_ok (LogicalRule r) = (\<lambda>src. logical_ok r)"
| "rule_ok (DefaultDNSRule r matchResponse tag race) = (\<lambda>src. \<not> matchResponse \<and> default_ok r src)"
| "rule_ok (LogicalDNSRule r tags anonymous race) = (\<lambda>src. logical_ok r)"

section \<open>The groups of a rule as bits\<close>

lemma require_group_bits:
  "require_group (bits4 a b c d) present matched \<lparr>required = bits4 a1 b1 c1 d1, satisfied = bits4 a2 b2 c2 d2\<rparr> =
     (let p = present; q = present \<and> matched in
      \<lparr>required = bits4 (a1 \<or> p \<and> a) (b1 \<or> p \<and> b) (c1 \<or> p \<and> c) (d1 \<or> p \<and> d),
       satisfied = bits4 (a2 \<or> q \<and> a) (b2 \<or> q \<and> b) (c2 \<or> q \<and> c) (d2 \<or> q \<and> d)\<rparr>)"
  by (auto simp: require_group_def bits4_or)

definition skips :: "'a abstractDefaultRule \<Rightarrow> inbound_context \<Rightarrow> bool" where
  "skips r m \<longleftrightarrow> IgnoreDestinationIPCIDRMatch m \<and> cidr_destination (IPCIDRMatchSource m) r"

definition group_present :: "'a abstractDefaultRule \<Rightarrow> inbound_context \<Rightarrow> match_group \<Rightarrow> bool" where
  "group_present r m g \<longleftrightarrow>
     (if g = GDestinationAddress \<and> skips r m then destinationAddressItems r
      else group_items r (IPCIDRMatchSource m) g) \<noteq> []"

definition group_matched :: "rule_env \<Rightarrow> 'a abstractDefaultRule \<Rightarrow> inbound_context \<Rightarrow> match_group \<Rightarrow> bool" where
  "group_matched E r m g \<longleftrightarrow>
     matchAnyItem E (if g = GDestinationAddress \<and> skips r m then destinationAddressItems r
                     else group_items r (IPCIDRMatchSource m) g) m"

definition group_bits :: "(match_group \<Rightarrow> bool) \<Rightarrow> u8" where
  "group_bits f = bits4 (f GSourceAddress) (f GSourcePort) (f GDestinationAddress) (f GDestinationPort)"

lemma matchAnyItem_append [simp]: "matchAnyItem E (xs @ ys) m \<longleftrightarrow> matchAnyItem E xs m \<or> matchAnyItem E ys m"
  by (simp add: matchAnyItem_def)

lemma matchAnyItem_Nil [simp]: "\<not> matchAnyItem E [] m"
  by (simp add: matchAnyItem_def)

lemma matchAnyItem_nonempty: "matchAnyItem E xs m \<Longrightarrow> xs \<noteq> []"
  by auto

lemma bits4_eq: "bits4 a b c d = bits4 a' b' c' d' \<longleftrightarrow> a = a' \<and> b = b' \<and> c = c' \<and> d = d'"
  by (cases a; cases b; cases c; cases d; cases a'; cases b'; cases c'; cases d') (simp_all add: bits4_def)

lemma evaluateGroups_bits:
  "evaluateGroups E r m =
     (\<lparr>required = group_bits (group_present r m), satisfied = group_bits (group_matched E r m)\<rparr>,
      if skips r m \<and> destinationAddressItems r = []
      then m\<lparr>DeferredIPCIDRMatchGroups := DeferredIPCIDRMatchGroups m OR deferred True\<rparr> else m)"
proof -
  have z: "\<lparr>required = 0, satisfied = 0\<rparr> =
      \<lparr>required = bits4 False False False False, satisfied = bits4 False False False False\<rparr>"
    by (simp add: bits4_def)
  show ?thesis
    unfolding evaluateGroups_def z bits4_match_bits
    by (auto simp: require_group_bits Let_def bits4_has bits4_eq dest: matchAnyItem_nonempty simp: group_bits_def group_present_def group_matched_def
        skips_def cidr_destination_def destinationIPCIDRMatchesSource_def destinationIPCIDRMatchesDestination_def)
qed

lemma all_match_group:
  "(\<forall>g. P g) \<longleftrightarrow> P GSourceAddress \<and> P GSourcePort \<and> P GDestinationAddress \<and> P GDestinationPort"
  by (metis match_group.exhaust)

lemma group_done_bits:
  "group_done \<lparr>required = group_bits p, satisfied = group_bits q\<rparr> \<longleftrightarrow> (\<forall>g. p g \<longrightarrow> q g)"
  unfolding group_done_def group_bits_def all_match_group
  by (auto simp: bits4_simps)

lemma mergeWith_bits:
  "mergeWith \<lparr>required = group_bits p, satisfied = group_bits q\<rparr> \<lparr>required = group_bits p', satisfied = group_bits q'\<rparr> =
     \<lparr>required = group_bits (\<lambda>g. p g \<or> p' g), satisfied = group_bits (\<lambda>g. q g \<or> q' g)\<rparr>"
  by (simp add: mergeWith_def group_bits_def bits4_or)

lemma deferred_minus_bits: "deferred d AND NOT (group_bits q) = deferred (d \<and> \<not> q GDestinationAddress)"
  by (simp add: group_bits_def bits4_and_not)

lemma groups_hold_iff: "groups_hold E rs \<longleftrightarrow> (\<forall>g. group_holds E rs g)"
  unfolding groups_hold_def all_match_group by simp

section \<open>The contract of a match\<close>

lemma spec_items [simp]:
  "items_hold E r (ResetRuleMatchCache m) = items_hold E r m"
  by (simp add: items_hold_def)

lemma matchAnyItem_cache [simp]:
  "matchAnyItem E xs (ResetRuleMatchCache m) = matchAnyItem E xs m"
  "matchAnyItem E xs (m\<lparr>DeferredIPCIDRMatchGroups := d\<rparr>) = matchAnyItem E xs m"
  by (simp_all add: matchAnyItem_def)

definition free :: "bool \<Rightarrow> bool \<Rightarrow> 'a abstractDefaultRule \<Rightarrow> bool" where
  "free strict src r \<longleftrightarrow> (strict \<longrightarrow> items_free src r \<and> unmixed src r)"

text \<open>An answer with deferred groups: \<open>False\<close> and an answer with nothing deferred are
  definite.\<close>

definition decides :: "bool \<Rightarrow> bool \<Rightarrow> bool \<Rightarrow> u8 \<Rightarrow> bool \<Rightarrow> bool" where
  "decides strict mayDefer b g holds \<longleftrightarrow>
     (\<exists>d. g = deferred d \<and> (d \<longrightarrow> strict \<and> mayDefer) \<and> (b \<and> \<not> d \<longrightarrow> holds) \<and> (\<not> b \<longrightarrow> \<not> holds))"

definition sound ::
  "(inbound_context \<Rightarrow> inbound_context) \<Rightarrow> bool \<Rightarrow> bool \<Rightarrow> bool \<Rightarrow> matchFn \<Rightarrow> (inbound_context \<Rightarrow> bool) \<Rightarrow> bool" where
  "sound view strict src mayDefer f holds \<longleftrightarrow>
     (\<forall>m. IgnoreDestinationIPCIDRMatch m = strict \<longrightarrow> IPCIDRMatchSource m = src \<longrightarrow>
          DeferredIPCIDRMatchGroups m = 0 \<longrightarrow>
          decides strict mayDefer (fst (f m)) (DeferredIPCIDRMatchGroups (snd (f m))) (holds (view m)))"

definition stable :: "(inbound_context \<Rightarrow> bool) \<Rightarrow> bool" where
  "stable holds \<longleftrightarrow> (\<forall>m. holds (ResetRuleMatchCache m) = holds m)"

text \<open>One entry of the loop over rule sets: what it must satisfy for rule \<open>r\<close> at \<open>src\<close>, when
  the rule-set item sets \<open>src'\<close>.\<close>

definition set_sound ::
  "(inbound_context \<Rightarrow> inbound_context) \<Rightarrow> bool \<Rightarrow> bool \<Rightarrow> 'a abstractDefaultRule \<Rightarrow> bool \<Rightarrow> bool \<Rightarrow>
   'a abstractDefaultRule option \<times> matchFn \<Rightarrow>
   'a abstractDefaultRule option \<times> (inbound_context \<Rightarrow> bool) \<Rightarrow> bool" where
  "set_sound view strict src r src' mayDefer s t \<longleftrightarrow>
     (case (s, t) of ((mo, f), (mo', h)) \<Rightarrow>
        mo = mo' \<and> frame f \<and> stable h \<and>
        (case mo of
           None \<Rightarrow> sound view strict src' mayDefer f h
         | Some branch \<Rightarrow> free strict src' branch \<and> (cidr_destination src' branch \<longrightarrow> mayDefer) \<and>
             (strict \<longrightarrow> (destinationAddressItems r \<noteq> [] \<longrightarrow> \<not> cidr_destination src' branch) \<and>
                       (destinationAddressItems branch \<noteq> [] \<longrightarrow> \<not> cidr_destination src r))))"

lemma deferred_eq_0 [simp]: "deferred d = 0 \<longleftrightarrow> \<not> d"
  by (simp add: bits4_zero)

lemma deferred_or [simp]: "deferred a OR deferred b = deferred (a \<or> b)"
  by (simp add: bits4_or)

lemma deferred_0' [simp]: "deferred a OR 0 = deferred a" "0 OR deferred a = deferred a"
  by (simp_all add: deferred_0)

lemma decides_0: "decides strict md b 0 P \<longleftrightarrow> b = P"
  by (auto simp: decides_def deferred_0 bits4_eq)

lemma decides_deferred:
  "decides strict md b (deferred d) P \<longleftrightarrow> (d \<longrightarrow> strict \<and> md) \<and> (b \<and> \<not> d \<longrightarrow> P) \<and> (\<not> b \<longrightarrow> \<not> P)"
  by (auto simp: decides_def bits4_eq)

lemma decides_mono: "decides strict md b g P \<Longrightarrow> (md \<Longrightarrow> md') \<Longrightarrow> decides strict md' b g P"
  by (auto simp: decides_def)

lemma sound_mono:
  assumes "sound view strict src md f h" "md \<longrightarrow> md'"
  shows "sound view strict src md' f h"
  unfolding sound_def
proof (intro allI impI)
  fix m :: inbound_context
  assume "IgnoreDestinationIPCIDRMatch m = strict" "IPCIDRMatchSource m = src" "DeferredIPCIDRMatchGroups m = 0"
  then have "decides strict md (fst (f m)) (DeferredIPCIDRMatchGroups (snd (f m))) (h (view m))"
    using assms(1) by (simp add: sound_def)
  then show "decides strict md' (fst (f m)) (DeferredIPCIDRMatchGroups (snd (f m))) (h (view m))"
    by (rule decides_mono) (use assms(2) in blast)
qed

lemma decides_not:
  assumes "decides strict md b g P"
  shows "decides strict md (g \<noteq> 0 \<or> \<not> b) (if b then g else 0) (\<not> P)"
  using assms by (auto simp: decides_def decides_0 deferred_0 bits4_eq)

lemma decides_or: "decides strict md b g P \<Longrightarrow> (\<not> b \<Longrightarrow> \<not> Q) \<Longrightarrow> decides strict md b g (Q \<or> P)"
  by (auto simp: decides_def)

lemma stableD: "stable h \<Longrightarrow> same_ctx m m' \<Longrightarrow> h m = h m'"
  unfolding stable_def by metis

lemma set_holds_ctx:
  assumes "same_ctx m m'" "same_ctx n n'" "stable h"
  shows "set_holds E r m n (mo, h) = set_holds E r m' n' (mo, h)"
  using stableD[OF assms(3,2)]
  by (simp add: set_holds_def items_hold_def groups_hold_iff group_holds_def matchAnyItem_def
      same_ctx_fields[OF assms(1)] same_ctx_fields[OF assms(2)] split: option.split)

section \<open>The specification does not read the rule cache\<close>

lemma flags_ctx:
  "same_ctx m m' \<Longrightarrow> same_ctx (m\<lparr>IPCIDRMatchSource := s, IPCIDRAcceptEmpty := e\<rparr>)
                              (m'\<lparr>IPCIDRMatchSource := s, IPCIDRAcceptEmpty := e\<rparr>)"
  by (cases m; cases m') (simp add: ResetRuleMatchCache_def)

lemma response_ctx:
  "same_ctx m m' \<Longrightarrow> same_ctx (m\<lparr>DNSResponse := x, DestinationAddressMatchFromResponse := e\<rparr>)
                              (m'\<lparr>DNSResponse := x, DestinationAddressMatchFromResponse := e\<rparr>)"
  by (cases m; cases m') (simp add: ResetRuleMatchCache_def)

lemma stableI: "(\<And>m m'. same_ctx m m' \<Longrightarrow> h m = h m') \<Longrightarrow> stable h"
  unfolding stable_def by (metis Reset_same(1))

lemma groups_hold_ctx:
  assumes "same_ctx m m'"
  shows "groups_hold E [(r, m)] = groups_hold E [(r, m')]"
  by (simp add: groups_hold_iff group_holds_def matchAnyItem_def same_ctx_fields[OF assms])

lemma items_hold_ctx:
  assumes "same_ctx m m'"
  shows "items_hold E r m = items_hold E r m'"
  by (simp add: items_hold_def same_ctx_fields(3)[OF assms])

lemma default_formula_stable:
  assumes "\<And>h m m'. holder = Some h \<Longrightarrow> same_ctx m m' \<Longrightarrow> h r m = h r m'"
  shows "stable (default_formula E r holder)"
proof (rule stableI)
  fix m m' :: inbound_context assume c: "same_ctx m m'"
  show "default_formula E r holder m = default_formula E r holder m'"
    using assms[OF _ c]
    by (cases holder) (simp_all add: default_formula_def items_hold_ctx[OF c] groups_hold_ctx[OF c])
qed

lemma logical_formula_stable:
  assumes "\<And>h. h \<in> set hs \<Longrightarrow> stable h"
  shows "stable (logical_formula lm ivt hs)"
proof (rule stableI)
  fix m m' :: inbound_context assume c: "same_ctx m m'"
  have "h (m\<lparr>IPCIDRMatchSource := False, IPCIDRAcceptEmpty := False\<rparr>) =
      h (m'\<lparr>IPCIDRMatchSource := False, IPCIDRAcceptEmpty := False\<rparr>)" if "h \<in> set hs" for h
    using stableD[OF assms[OF that] flags_ctx[OF c]] .
  then have "list_all (\<lambda>h. h (m\<lparr>IPCIDRMatchSource := False, IPCIDRAcceptEmpty := False\<rparr>)) hs =
      list_all (\<lambda>h. h (m'\<lparr>IPCIDRMatchSource := False, IPCIDRAcceptEmpty := False\<rparr>)) hs"
    "list_ex (\<lambda>h. h (m\<lparr>IPCIDRMatchSource := False, IPCIDRAcceptEmpty := False\<rparr>)) hs =
      list_ex (\<lambda>h. h (m'\<lparr>IPCIDRMatchSource := False, IPCIDRAcceptEmpty := False\<rparr>)) hs"
    unfolding list_all_iff list_ex_iff by blast+
  then show "logical_formula lm ivt hs m = logical_formula lm ivt hs m'"
    by (simp add: logical_formula_def Let_def)
qed

lemma response_formula_stable:
  assumes "stable h"
  shows "stable (response_formula ivt mr t h)"
proof (rule stableI)
  fix m m' :: inbound_context assume c: "same_ctx m m'"
  have "NamedDNSResponses m = NamedDNSResponses m'" "DNSResponse m = DNSResponse m'"
    using arg_cong[OF c, of NamedDNSResponses] arg_cong[OF c, of DNSResponse] by (simp_all add: ResetRuleMatchCache_def)
  then show "response_formula ivt mr t h m = response_formula ivt mr t h m'"
    using stableD[OF assms c] stableD[OF assms response_ctx[OF c]]
    by (auto simp: response_formula_def split: option.split)
qed

lemma spec_stable:
  fixes r :: "'a abstractDefaultRule" and si :: "'a ruleSetItem" and s :: "'a ruleSet"
    and l :: "'a abstractLogicalRule" and h :: "'a headlessRule"
  shows "stable (default_spec r E)"
    and "same_ctx m m' \<Longrightarrow> setItem_spec si E r' m = setItem_spec si E r' m'"
    and "stable (set_spec s E)"
    and "stable (logical_spec l E)"
    and "stable (rule_spec h E)"
proof (induction r and si and s and l and h arbitrary: and r' m m')
  case (AbstractDefaultRule its srcA srcP dstA dstC dstP allI rsi ivt act)
  show ?case
    unfolding default_spec.simps
    by (rule default_formula_stable) (use AbstractDefaultRule in auto)
next
  case (RuleSetItem tags sets src ae)
  have "set_holds E r' m (m\<lparr>IPCIDRMatchSource := src, IPCIDRAcceptEmpty := ae\<rparr>) t =
      set_holds E r' m' (m'\<lparr>IPCIDRMatchSource := src, IPCIDRAcceptEmpty := ae\<rparr>) t"
    if t: "t \<in> set (zip (map (\<lambda>rs. mergeableRuleIn (rs_rules rs)) sets) (map (\<lambda>f. f E) (map set_spec sets)))" for t
  proof -
    obtain mo h where [simp]: "t = (mo, h)" by fastforce
    have "h \<in> set (map (\<lambda>f. f E) (map set_spec sets))" using set_zip_rightD t by fastforce
    then have "stable h" using RuleSetItem.IH by auto
    then show ?thesis using set_holds_ctx[OF RuleSetItem.prems flags_ctx[OF RuleSetItem.prems]] by simp
  qed
  then show ?case by (simp add: list_ex_iff)
next
  case (RuleSet t rs md)
  show ?case
  proof (rule stableI)
    fix m m' :: inbound_context assume c: "same_ctx m m'"
    have "\<forall>h \<in> set rs. rule_spec h E m = rule_spec h E m'"
      using stableD[OF RuleSet.IH c] by blast
    then show "set_spec (RuleSet t rs md) E m = set_spec (RuleSet t rs md) E m'"
      unfolding set_spec.simps list_ex_iff by (metis (no_types, lifting) imageE image_eqI list.set_map)
  qed
next
  case (AbstractLogicalRule rs md ivt act)
  then show ?case by (auto intro!: logical_formula_stable)
qed (simp_all add: response_formula_stable)

locale match_view =
  fixes E :: rule_env
    and view :: "inbound_context \<Rightarrow> inbound_context"
    and strict :: bool
  assumes view_reset: "view (ResetRuleMatchCache m) = ResetRuleMatchCache (view m)"
    and view_flags: "view (m\<lparr>IPCIDRMatchSource := s, IPCIDRAcceptEmpty := e\<rparr>) =
                       (view m)\<lparr>IPCIDRMatchSource := s, IPCIDRAcceptEmpty := e\<rparr>"
    and view_source: "IPCIDRMatchSource (view m) = IPCIDRMatchSource m"
    and view_plain: "\<not> strict \<Longrightarrow> view m = m"
    and view_item: "strict \<Longrightarrow> response_free (IPCIDRMatchSource m) it \<Longrightarrow>
                      item_Match E it (view m) = item_Match E it m"
begin

lemma soundD:
  assumes "sound view strict src md f holds" "f m = (b, m')" "IgnoreDestinationIPCIDRMatch m = strict"
    "IPCIDRMatchSource m = src" "DeferredIPCIDRMatchGroups m = 0"
  obtains d where "DeferredIPCIDRMatchGroups m' = deferred d" "d \<longrightarrow> strict \<and> md"
    "b \<and> \<not> d \<longrightarrow> holds (view m)" "\<not> b \<longrightarrow> \<not> holds (view m)"
  using assms unfolding sound_def decides_def by (metis fst_conv snd_conv)

lemma view_any:
  assumes "strict \<longrightarrow> list_all (response_free (IPCIDRMatchSource m)) xs"
  shows "matchAnyItem E xs (view m) = matchAnyItem E xs m"
  using assms view_item[of m] view_plain[of m]
  by (cases strict) (auto simp: matchAnyItem_def list_ex_iff list_all_iff)

lemma view_items:
  assumes "free strict (IPCIDRMatchSource m) r"
  shows "items_hold E r (view m) = list_all (\<lambda>it. item_Match E it m) (items r)"
  using assms view_item[of m] view_plain[of m]
  by (cases strict) (auto simp: items_hold_def list_all_iff free_def items_free_def)

lemma view_group:
  assumes "free strict (IPCIDRMatchSource m) r" "IgnoreDestinationIPCIDRMatch m = strict"
    "\<not> (g = GDestinationAddress \<and> skips r m)"
  shows "group_items r (IPCIDRMatchSource (view m)) g \<noteq> [] \<longleftrightarrow> group_present r m g"
    and "matchAnyItem E (group_items r (IPCIDRMatchSource (view m)) g) (view m) \<longleftrightarrow> group_matched E r m g"
proof -
  show "group_items r (IPCIDRMatchSource (view m)) g \<noteq> [] \<longleftrightarrow> group_present r m g"
    using assms(3) by (auto simp: view_source group_present_def)
  have "strict \<longrightarrow> list_all (response_free (IPCIDRMatchSource m)) (group_items r (IPCIDRMatchSource m) g)"
    using assms by (cases g) (auto simp: free_def items_free_def skips_def cidr_destination_def)
  then show "matchAnyItem E (group_items r (IPCIDRMatchSource (view m)) g) (view m) \<longleftrightarrow> group_matched E r m g"
    using assms(3) view_any by (auto simp: view_source group_matched_def)
qed

lemma skips_unmixed:
  assumes "free strict (IPCIDRMatchSource m) r" "IgnoreDestinationIPCIDRMatch m = strict" "skips r m"
  shows "strict" "destinationAddressItems r = []" "\<not> group_present r m GDestinationAddress"
    "\<not> group_matched E r m GDestinationAddress"
  using assms by (auto simp: skips_def free_def unmixed_def group_present_def group_matched_def)

lemma groups_single:
  assumes "free strict (IPCIDRMatchSource m) r" "IgnoreDestinationIPCIDRMatch m = strict"
  defines "finished \<equiv> \<forall>g. group_present r m g \<longrightarrow> group_matched E r m g"
  shows "finished \<Longrightarrow> \<not> skips r m \<Longrightarrow> groups_hold E [(r, view m)]"
    and "\<not> finished \<Longrightarrow> \<not> groups_hold E [(r, view m)]"
proof -
  have one: "group_holds E [(r, view m)] g \<longleftrightarrow> (group_present r m g \<longrightarrow> group_matched E r m g)"
    if "\<not> (g = GDestinationAddress \<and> skips r m)" for g
    using that view_group[OF assms(1,2), of g] by (simp add: group_holds_def)
  show "finished \<Longrightarrow> \<not> skips r m \<Longrightarrow> groups_hold E [(r, view m)]"
    unfolding finished_def groups_hold_iff using one by blast
  show "\<not> finished \<Longrightarrow> \<not> groups_hold E [(r, view m)]"
    unfolding finished_def groups_hold_iff using one skips_unmixed(3)[OF assms(1,2)] by metis
qed

lemma groups_finished:
  "group_done (fst (evaluateGroups E r m)) \<longleftrightarrow> (\<forall>g. group_present r m g \<longrightarrow> group_matched E r m g)"
  by (simp add: evaluateGroups_bits group_done_bits)

lemma groups_merged:
  assumes "free strict (IPCIDRMatchSource m) r" "IgnoreDestinationIPCIDRMatch m = strict"
    and "free strict (IPCIDRMatchSource mn) b" "IgnoreDestinationIPCIDRMatch mn = strict"
    and mix: "strict \<Longrightarrow> destinationAddressItems r \<noteq> [] \<Longrightarrow> \<not> cidr_destination (IPCIDRMatchSource mn) b"
    and mix': "strict \<Longrightarrow> destinationAddressItems b \<noteq> [] \<Longrightarrow> \<not> cidr_destination (IPCIDRMatchSource m) r"
  defines "finished \<equiv>
    \<forall>g. group_present r m g \<or> group_present b mn g \<longrightarrow> group_matched E r m g \<or> group_matched E b mn g"
  shows "finished \<Longrightarrow> \<not> skips r m \<Longrightarrow> \<not> skips b mn \<Longrightarrow> groups_hold E [(r, view m), (b, view mn)]"
    and "\<not> finished \<Longrightarrow> \<not> groups_hold E [(r, view m), (b, view mn)]"
    and "skips r m \<or> skips b mn \<Longrightarrow>
          \<not> (group_matched E r m GDestinationAddress \<or> group_matched E b mn GDestinationAddress)"
proof -
  note vr = view_group[OF assms(1,2)] and vb = view_group[OF assms(3,4)]
  note ur = skips_unmixed[OF assms(1,2)] and ub = skips_unmixed[OF assms(3,4)]
  have one: "group_holds E [(r, view m), (b, view mn)] g \<longleftrightarrow>
      (group_present r m g \<or> group_present b mn g \<longrightarrow> group_matched E r m g \<or> group_matched E b mn g)"
    if "\<not> (g = GDestinationAddress \<and> (skips r m \<or> skips b mn))" for g
    using that vr[of g] vb[of g] by (simp add: group_holds_def)
  show "finished \<Longrightarrow> \<not> skips r m \<Longrightarrow> \<not> skips b mn \<Longrightarrow> groups_hold E [(r, view m), (b, view mn)]"
    unfolding finished_def groups_hold_iff using one by blast
  have no: "\<not> group_present r m GDestinationAddress \<and> \<not> group_present b mn GDestinationAddress \<and>
      \<not> group_matched E r m GDestinationAddress \<and> \<not> group_matched E b mn GDestinationAddress"
    if "skips r m \<or> skips b mn"
  proof -
    have st: "strict" using that ur(1) ub(1) by blast
    have "destinationAddressItems r = []" "destinationAddressItems b = []"
      using that ur(2) ub(2) mix[OF st] mix'[OF st] by (auto simp: skips_def)
    moreover have "skips r m \<longleftrightarrow> cidr_destination (IPCIDRMatchSource m) r"
      "skips b mn \<longleftrightarrow> cidr_destination (IPCIDRMatchSource mn) b"
      using st assms(2,4) by (simp_all add: skips_def)
    ultimately show ?thesis
      by (simp add: group_present_def group_matched_def) (simp add: cidr_destination_def)
  qed
  then show "skips r m \<or> skips b mn \<Longrightarrow>
      \<not> (group_matched E r m GDestinationAddress \<or> group_matched E b mn GDestinationAddress)"
    by blast
  show "\<not> finished \<Longrightarrow> \<not> groups_hold E [(r, view m), (b, view mn)]"
    unfolding finished_def groups_hold_iff using one no by metis
qed

section \<open>Loops\<close>

text \<open>A \<open>Match\<close> method with its formula.\<close>

lemma headless_loop_sound:
  assumes "list_all2 (\<lambda>f h. frame f \<and> stable h \<and> sound view strict src md f h) fs hs"
    and "same_ctx m m0" "IgnoreDestinationIPCIDRMatch m0 = strict" "IPCIDRMatchSource m0 = src"
    and "DeferredIPCIDRMatchGroups m0 = 0" "k \<longrightarrow> strict \<and> md"
    and "headless_loop (snapshotRuleMatch m0) fs m k (deferred k) = (b, m')"
  shows "decides strict md b (DeferredIPCIDRMatchGroups m') (list_ex (\<lambda>h. h (view m0)) hs) \<and> (k \<longrightarrow> b)"
  using assms
proof (induction fs hs arbitrary: m k rule: list_all2_induct)
  case Nil
  then show ?case by (auto simp: leave_loop_def Let_def decides_0 decides_deferred)
next
  case (Cons f fs h hs)
  let ?m1 = "ResetRuleMatchCache m0"
  have m: "ResetRuleMatchCache m = ?m1" using Cons.prems by simp
  obtain c m2 where f: "f ?m1 = (c, m2)" by fastforce
  have fr: "frame f" "stable h" "sound view strict src md f h" using Cons.hyps by auto
  have "IgnoreDestinationIPCIDRMatch ?m1 = strict" "IPCIDRMatchSource ?m1 = src" "DeferredIPCIDRMatchGroups ?m1 = 0"
    using Cons.prems by (simp_all add: ResetRuleMatchCache_def)
  from soundD[OF fr(3) f this] obtain d where d: "DeferredIPCIDRMatchGroups m2 = deferred d"
    "d \<longrightarrow> strict \<and> md" "c \<and> \<not> d \<longrightarrow> h (view ?m1)" "\<not> c \<longrightarrow> \<not> h (view ?m1)" by blast
  have h: "h (view ?m1) = h (view m0)" using fr(2) by (simp add: view_reset stable_def)
  have m2: "same_ctx m2 m0" using frameD[OF fr(1) f] by simp
  note IH = Cons.IH[OF m2 Cons.prems(2-4)]
  show ?case
  proof (cases "c \<and> \<not> d")
    case True
    with Cons.prems f m d h show ?thesis by (auto simp: decides_0)
  next
    case False
    with Cons.prems f m d
    have "headless_loop (snapshotRuleMatch m0) fs m2 (k \<or> c) (deferred (k \<or> c)) = (b, m')"
      by (auto split: if_splits)
    with IH[of "k \<or> c"] Cons.prems d False h show ?thesis
      by (auto simp: decides_def)
  qed
qed

text \<open>Both loops of a logical rule call every \<open>Match\<close> on \<open>ResetRuleCache m0\<close>.\<close>

lemma logical_call:
  assumes "frame f" "stable h" "sound view strict False md f h"
    and "IgnoreDestinationIPCIDRMatch m0 = strict" "f (ResetRuleCache m0) = (c, m2)"
  obtains d where "DeferredIPCIDRMatchGroups m2 = deferred d" "d \<longrightarrow> strict \<and> md"
    "c \<and> \<not> d \<longrightarrow> h (view (ResetRuleCache m0))" "\<not> c \<longrightarrow> \<not> h (view (ResetRuleCache m0))" "same_base m2 m0"
proof -
  have "IgnoreDestinationIPCIDRMatch (ResetRuleCache m0) = strict" "\<not> IPCIDRMatchSource (ResetRuleCache m0)"
    "DeferredIPCIDRMatchGroups (ResetRuleCache m0) = 0"
    using assms(4) by (simp_all add: ResetRuleCache_def ResetRuleMatchCache_def)
  with soundD[OF assms(3,5)] obtain d where "DeferredIPCIDRMatchGroups m2 = deferred d" "d \<longrightarrow> strict \<and> md"
    "c \<and> \<not> d \<longrightarrow> h (view (ResetRuleCache m0))" "\<not> c \<longrightarrow> \<not> h (view (ResetRuleCache m0))" by blast
  moreover have "same_base m2 m0" using same_ctx_base[OF frameD[OF assms(1,5)]] by simp
  ultimately show ?thesis using that by blast
qed

lemma and_loop_sound:
  assumes "list_all2 (\<lambda>f h. frame f \<and> stable h \<and> sound view strict False md f h) fs hs"
    and "same_base m m0" "IgnoreDestinationIPCIDRMatch m0 = strict" "k \<longrightarrow> strict \<and> md"
    and "and_loop fs m (deferred k) = ((b, g), m')"
  shows "decides strict md b g (list_all (\<lambda>h. h (view (ResetRuleCache m0))) hs) \<and> (b \<and> k \<longrightarrow> g = deferred True)"
  using assms
proof (induction fs hs arbitrary: m k rule: list_all2_induct)
  case Nil
  then show ?case by (auto simp: decides_deferred)
next
  case (Cons f fs h hs)
  obtain c m2 where f: "f (ResetRuleCache m0) = (c, m2)" by fastforce
  have fr: "frame f" "stable h" "sound view strict False md f h" using Cons.hyps by auto
  from logical_call[OF fr Cons.prems(2) f] obtain d where d: "DeferredIPCIDRMatchGroups m2 = deferred d"
    "d \<longrightarrow> strict \<and> md" "c \<and> \<not> d \<longrightarrow> h (view (ResetRuleCache m0))" "\<not> c \<longrightarrow> \<not> h (view (ResetRuleCache m0))"
    "same_base m2 m0" by blast
  show ?case
  proof (cases c)
    case False
    with Cons.prems f d show ?thesis by (auto simp: decides_0)
  next
    case True
    with Cons.prems f d have "and_loop fs m2 (deferred (k \<or> d)) = ((b, g), m')" by simp
    with Cons.IH[OF d(5) Cons.prems(2), of "k \<or> d"] Cons.prems d True show ?thesis
      by (auto simp: decides_def bits4_eq)
  qed
qed

lemma or_loop_sound:
  assumes "list_all2 (\<lambda>f h. frame f \<and> stable h \<and> sound view strict False md f h) fs hs"
    and "same_base m m0" "IgnoreDestinationIPCIDRMatch m0 = strict" "k \<longrightarrow> strict \<and> md"
    and "or_loop fs m k (deferred k) = ((b, g), m')"
  shows "decides strict md b g (list_ex (\<lambda>h. h (view (ResetRuleCache m0))) hs) \<and> (k \<longrightarrow> b)"
  using assms
proof (induction fs hs arbitrary: m k rule: list_all2_induct)
  case Nil
  then show ?case by (auto simp: decides_deferred)
next
  case (Cons f fs h hs)
  obtain c m2 where f: "f (ResetRuleCache m0) = (c, m2)" by fastforce
  have fr: "frame f" "stable h" "sound view strict False md f h" using Cons.hyps by auto
  from logical_call[OF fr Cons.prems(2) f] obtain d where d: "DeferredIPCIDRMatchGroups m2 = deferred d"
    "d \<longrightarrow> strict \<and> md" "c \<and> \<not> d \<longrightarrow> h (view (ResetRuleCache m0))" "\<not> c \<longrightarrow> \<not> h (view (ResetRuleCache m0))"
    "same_base m2 m0" by blast
  show ?case
  proof (cases "c \<and> \<not> d")
    case True
    with Cons.prems f d show ?thesis by (auto simp: decides_0)
  next
    case False
    with Cons.prems f d have "or_loop fs m2 (k \<or> c) (deferred (k \<or> c)) = ((b, g), m')"
      by (auto split: if_splits)
    with Cons.IH[OF d(5) Cons.prems(2), of "k \<or> c"] Cons.prems d False show ?thesis
      by (auto simp: decides_def)
  qed
qed

lemma leave_logical_decides:
  assumes "decides strict md b g P" "DeferredIPCIDRMatchGroups m = 0"
  shows "decides strict md (fst (leave_logical ivt (snapshotRuleMatch m) b g m'))
           (DeferredIPCIDRMatchGroups (snd (leave_logical ivt (snapshotRuleMatch m) b g m'))) (ivt \<noteq> P)"
proof (cases ivt)
  case True
  with decides_not[OF assms(1)] assms(2) show ?thesis
    by (auto simp: leave_logical_def leave_loop_def Let_def split: if_splits)
next
  case False
  with assms show ?thesis
    by (auto simp: leave_logical_def leave_loop_def Let_def decides_0 decides_def)
qed

lemma logical_body_sound:
  assumes "list_all2 (\<lambda>f h. frame f \<and> stable h \<and> sound view strict False md f h) fs hs"
  shows "sound view strict src md (logical_body lm ivt fs) (logical_formula lm ivt hs)"
  unfolding sound_def
proof (intro allI impI)
  fix m :: inbound_context assume m: "IgnoreDestinationIPCIDRMatch m = strict" "DeferredIPCIDRMatchGroups m = 0"
  let ?v = "view (ResetRuleCache m)"
  have st: "h ?v = h ((view m)\<lparr>IPCIDRMatchSource := False, IPCIDRAcceptEmpty := False\<rparr>)" if "h \<in> set hs" for h
  proof -
    from that assms have "stable h"
      by (auto simp: list_all2_conv_all_nth in_set_conv_nth)
    then show ?thesis by (simp add: ResetRuleCache_def view_reset view_flags stable_def)
  qed
  then have P: "logical_formula lm ivt hs (view m) =
      (ivt \<noteq> (if lm = ''and'' then list_all (\<lambda>h. h ?v) hs else list_ex (\<lambda>h. h ?v) hs))"
    by (auto simp: logical_formula_def list_all_iff list_ex_iff)
  obtain b g m' where l: "(if lm = ''and'' then and_loop fs m 0 else or_loop fs m False 0) = ((b, g), m')"
    by (metis surj_pair)
  have "decides strict md b g (if lm = ''and'' then list_all (\<lambda>h. h ?v) hs else list_ex (\<lambda>h. h ?v) hs)"
    using and_loop_sound[OF assms refl m(1), of False b g m'] or_loop_sound[OF assms refl m(1), of False b g m'] l
    by (auto simp: deferred_0 split: if_splits)
  from leave_logical_decides[OF this m(2), of ivt m'] l
  show "decides strict md (fst (logical_body lm ivt fs m))
      (DeferredIPCIDRMatchGroups (snd (logical_body lm ivt fs m))) (logical_formula lm ivt hs (view m))"
    by (simp add: logical_body_def P)
qed

section \<open>Rule sets and default rules\<close>

lemma evaluateForMerge_sound:
  assumes "free strict src r" "IgnoreDestinationIPCIDRMatch m0 = strict" "IPCIDRMatchSource m0 = src"
    and "free strict src' branch" "IgnoreDestinationIPCIDRMatch m1 = strict" "IPCIDRMatchSource m1 = src'"
    and "DeferredIPCIDRMatchGroups m1 = 0"
    and mix: "strict \<longrightarrow> (destinationAddressItems r \<noteq> [] \<longrightarrow> \<not> cidr_destination src' branch) \<and>
                       (destinationAddressItems branch \<noteq> [] \<longrightarrow> \<not> cidr_destination src r)"
    and "evaluateForMerge E branch m1 = ((bg, bm), m2)"
  defines "merged \<equiv> mergeWith (fst (evaluateGroups E r m0)) bg"
    and "holds \<equiv> items_hold E branch (view m1) \<and> groups_hold E [(r, view m0), (branch, view m1)]"
  shows "\<exists>d. DeferredIPCIDRMatchGroups m2 = deferred d \<and> (d \<longrightarrow> strict \<and> cidr_destination src' branch) \<and>
           (bm \<and> group_done merged \<longrightarrow>
              (d \<or> skips r m0 \<longrightarrow> deferred True AND NOT (satisfied merged) = deferred True) \<and>
              (\<not> d \<and> \<not> skips r m0 \<longrightarrow> holds)) \<and>
           (\<not> (bm \<and> group_done merged) \<longrightarrow> \<not> holds)"
proof -
  let ?d = "skips branch m1"
  note gm = groups_merged[of m0 r m1 branch, unfolded assms(2,3,5,6), OF assms(1) refl assms(4) refl]
  have un: "?d \<longrightarrow> strict \<and> destinationAddressItems branch = []"
    using skips_unmixed[of m1 branch] assms(4-6) by auto
  have d: "DeferredIPCIDRMatchGroups m2 = deferred ?d" and it: "bm \<longleftrightarrow> items_hold E branch (view m1)"
    and bg: "bm \<longrightarrow> bg = \<lparr>required = group_bits (group_present branch m1), satisfied = group_bits (group_matched E branch m1)\<rparr>"
    using assms(9) un assms(7) view_items[of m1 branch] assms(4,6)
    by (auto simp: evaluateForMerge_def evaluateGroups_bits split: if_splits)
  have dm: "?d \<longrightarrow> strict \<and> cidr_destination src' branch"
    using un assms(6) by (auto simp: skips_def)
  have me: "bm \<longrightarrow> merged = \<lparr>required = group_bits (\<lambda>g. group_present r m0 g \<or> group_present branch m1 g),
      satisfied = group_bits (\<lambda>g. group_matched E r m0 g \<or> group_matched E branch m1 g)\<rparr>"
    using bg by (simp add: merged_def evaluateGroups_bits mergeWith_bits)
  show ?thesis
    using d it dm me gm mix
    by (intro exI[of _ ?d]) (auto simp: holds_def group_done_bits deferred_minus_bits)
qed

lemma prepareNestedMatch_view:
  "same_ctx (view (prepareNestedMatch src' ae m0)) ((view m0)\<lparr>IPCIDRMatchSource := src', IPCIDRAcceptEmpty := ae\<rparr>)"
  unfolding prepareNestedMatch_def view_flags view_reset
  by (cases "view m0") (simp add: ResetRuleMatchCache_def)

lemma groups_ctx:
  assumes "same_ctx m m'"
  shows "fst (evaluateGroups E r m) = fst (evaluateGroups E r m')" "skips r m = skips r m'"
  by (simp_all add: evaluateGroups_bits group_present_def[abs_def] group_matched_def[abs_def] skips_def matchAnyItem_def
      same_ctx_fields[OF assms])

lemma view_ctx: "same_ctx m m' \<Longrightarrow> same_ctx (view m) (view m')"
  by (metis view_reset)

text \<open>One round of the loop over rule sets, with the accumulators it always has.\<close>

lemma outer_loop_plain:
  assumes "f (prepare m) = (c, m2)" "DeferredIPCIDRMatchGroups m2 = deferred d"
  shows "outer_loop E prepare g sn ((None, f) # sets) m k (deferred k) =
    (if \<not> group_done g then outer_loop E prepare g sn sets (prepare m) k (deferred k)
     else if c \<and> \<not> d then (True, restore sn m2)
     else outer_loop E prepare g sn sets m2 (k \<or> c) (deferred (k \<or> c)))"
  using assms by (cases c; cases d) simp_all

lemma outer_loop_branch:
  assumes "evaluateForMerge E branch (prepare m) = ((bg, bm), m2)" "DeferredIPCIDRMatchGroups m2 = deferred d"
    and "hit = (bm \<and> group_done (mergeWith g bg))"
    and "hit \<and> d \<longrightarrow> deferred True AND NOT (satisfied (mergeWith g bg)) = deferred True"
  shows "outer_loop E prepare g sn ((Some branch, f) # sets) m k (deferred k) =
    (if hit \<and> \<not> d then
       (True, (restore sn m2)\<lparr>DeferredIPCIDRMatchGroups := DeferredIPCIDRMatchGroups (restore sn m2) AND
                               NOT (satisfied (mergeWith g bg))\<rparr>)
     else outer_loop E prepare g sn sets m2 (k \<or> hit) (deferred (k \<or> hit)))"
proof -
  have z: "deferred False AND x = 0" for x by (simp add: deferred_0[symmetric])
  show ?thesis
    using assms z by (cases bm; cases "group_done (mergeWith g bg)"; cases d) (simp_all add: Let_def)
qed

lemma outer_loop_sound:
  assumes "list_all2 (set_sound view strict src r src' md) sets hs"
    and "free strict src r" "IgnoreDestinationIPCIDRMatch m0 = strict" "IPCIDRMatchSource m0 = src"
    and "DeferredIPCIDRMatchGroups m0 = deferred (skips r m0)"
    and "same_base m m0" "k \<longrightarrow> strict \<and> (md \<or> cidr_destination src r)"
    and "outer_loop E (prepareNestedMatch src' ae) (fst (evaluateGroups E r m0)) (snapshotRuleMatch m0)
           sets m k (deferred k) = (b, m')"
  defines "mn \<equiv> view (prepareNestedMatch src' ae m0)"
  shows "decides strict (md \<or> cidr_destination src r) b (DeferredIPCIDRMatchGroups m')
           (list_ex (set_holds E r (view m0) mn) hs) \<and> (k \<longrightarrow> b) \<and>
         (b \<and> skips r m0 \<longrightarrow> DeferredIPCIDRMatchGroups m' = deferred True)"
  using assms(1,6-8)
proof (induction sets hs arbitrary: m k rule: list_all2_induct)
  case Nil
  have "skips r m0 \<longrightarrow> strict \<and> cidr_destination src r"
    using assms(3,4) by (auto simp: skips_def)
  with Nil assms(5) show ?case by (auto simp: leave_loop_def Let_def decides_deferred split: if_splits)
next
  case (Cons s sets t hs)
  let ?G = "fst (evaluateGroups E r m0)" and ?m1 = "prepareNestedMatch src' ae m0"
  obtain mo f h where s: "s = (mo, f)" "t = (mo, h)" "frame f" "stable h"
    using Cons.hyps(1) by (auto simp: set_sound_def split: prod.splits)
  have m1: "prepareNestedMatch src' ae m = ?m1" using prepareNestedMatch_cong[OF Cons.prems(1)] .
  have ctx: "IgnoreDestinationIPCIDRMatch ?m1 = strict" "IPCIDRMatchSource ?m1 = src'"
    "DeferredIPCIDRMatchGroups ?m1 = 0"
    using assms(3) by (simp_all add: prepareNestedMatch_def ResetRuleMatchCache_def)
  have sk: "skips r m0 \<longrightarrow> strict \<and> cidr_destination src r"
    using assms(3,4) by (auto simp: skips_def)
  let ?loop = "\<lambda>m2 k. outer_loop E (prepareNestedMatch src' ae) ?G (snapshotRuleMatch m0)
           sets m2 k (deferred k) = (b, m')"
  have step: ?case if "?loop m2 (k \<or> c)" "same_base m2 m0" "c \<longrightarrow> strict \<and> (md \<or> cidr_destination src r)"
      "\<not> c \<longrightarrow> \<not> set_holds E r (view m0) mn t" for m2 c
  proof -
    from Cons.IH[OF that(2) _ that(1)] that(3) Cons.prems(2)
    have *: "decides strict (md \<or> cidr_destination src r) b (DeferredIPCIDRMatchGroups m')
        (list_ex (set_holds E r (view m0) mn) hs)" "k \<or> c \<longrightarrow> b"
      "b \<and> skips r m0 \<longrightarrow> DeferredIPCIDRMatchGroups m' = deferred True" by blast+
    have "\<not> b \<Longrightarrow> \<not> set_holds E r (view m0) mn t" using that(4) *(2) by blast
    from decides_or[OF *(1) this] *(2,3) show ?thesis by simp
  qed
  have fin: ?case if "b" "DeferredIPCIDRMatchGroups m' = deferred (skips r m0)"
      "\<not> skips r m0 \<longrightarrow> set_holds E r (view m0) mn t"
    using that sk by (auto simp: decides_deferred)
  show ?case
  proof (cases mo)
    case None
    have so: "sound view strict src' md f h"
      using Cons.hyps(1) None s by (simp add: set_sound_def)
    obtain c m2 where f: "f ?m1 = (c, m2)" by fastforce
    from soundD[OF so f ctx] obtain d where d: "DeferredIPCIDRMatchGroups m2 = deferred d"
      "d \<longrightarrow> strict \<and> md" "c \<and> \<not> d \<longrightarrow> h mn" "\<not> c \<longrightarrow> \<not> h mn"
      unfolding mn_def by blast
    have m2: "same_base m2 m0" using same_ctx_base[OF frameD[OF s(3) f]] by simp
    note gs = groups_single[of m0 r, unfolded assms(3,4), OF assms(2) refl, folded groups_finished]
    have t: "set_holds E r (view m0) mn t \<longleftrightarrow> groups_hold E [(r, view m0)] \<and> h mn"
      by (simp add: set_holds_def s None)
    note round = Cons.prems(3)[unfolded s None outer_loop_plain[of f "prepareNestedMatch src' ae", OF f[folded m1] d(1)]]
    consider (no) "\<not> group_done ?G" | (hit) "group_done ?G" "c" "\<not> d"
      | (miss) "group_done ?G" "\<not> (c \<and> \<not> d)" by blast
    then show ?thesis
    proof cases
      case no
      then have "?loop ?m1 (k \<or> False)" using round by (simp add: m1)
      from step[OF this] show ?thesis using t gs(2)[OF no] by simp
    next
      case hit
      then have "b" "DeferredIPCIDRMatchGroups m' = deferred (skips r m0)" using round assms(5) by auto
      from fin[OF this] show ?thesis using t gs(1)[OF hit(1)] d(3) hit by blast
    next
      case miss
      then have "?loop m2 (k \<or> c)" using round by (cases c) simp_all
      from step[OF this m2] show ?thesis using t d miss by blast
    qed
  next
    case (Some branch)
    obtain bg bm m2 where e: "evaluateForMerge E branch ?m1 = ((bg, bm), m2)" by (metis surj_pair)
    have fb: "free strict src' branch" and cm: "cidr_destination src' branch \<longrightarrow> md"
      and mix: "strict \<longrightarrow>
        (destinationAddressItems r \<noteq> [] \<longrightarrow> \<not> cidr_destination src' branch) \<and>
        (destinationAddressItems branch \<noteq> [] \<longrightarrow> \<not> cidr_destination src r)"
      using Cons.hyps(1) Some s by (auto simp: set_sound_def)
    have m2: "same_base m2 m0"
      using same_ctx_base[OF evaluateForMerge_frame[of E branch ?m1]] e by simp
    define hit where "hit = (bm \<and> group_done (mergeWith ?G bg))"
    from evaluateForMerge_sound[OF assms(2-4) fb ctx mix e]
    obtain d where d: "DeferredIPCIDRMatchGroups m2 = deferred d" "d \<longrightarrow> strict \<and> md"
      "hit \<and> (d \<or> skips r m0) \<longrightarrow> deferred True AND NOT (satisfied (mergeWith ?G bg)) = deferred True"
      "hit \<and> \<not> d \<and> \<not> skips r m0 \<longrightarrow> set_holds E r (view m0) mn t" "\<not> hit \<longrightarrow> \<not> set_holds E r (view m0) mn t"
      unfolding mn_def hit_def using cm by (auto simp: set_holds_def s Some)
    have "hit \<and> d \<longrightarrow> deferred True AND NOT (satisfied (mergeWith ?G bg)) = deferred True" using d(3) by blast
    note round = Cons.prems(3)[unfolded s Some outer_loop_branch[of branch "prepareNestedMatch src' ae", OF e[folded m1] d(1) hit_def this]]
    have z: "deferred False AND x = deferred False" for x by (simp add: deferred_0[symmetric])
    show ?thesis
    proof (cases "hit \<and> \<not> d")
      case True
      with round assms(5) have b: "b" and m': "DeferredIPCIDRMatchGroups m' =
          deferred (skips r m0) AND NOT (satisfied (mergeWith ?G bg))" by auto
      have "deferred (skips r m0) AND NOT (satisfied (mergeWith ?G bg)) = deferred (skips r m0)"
        using d(3) True by (cases "skips r m0") (simp_all only: z, simp_all)
      with b m' have "b" "DeferredIPCIDRMatchGroups m' = deferred (skips r m0)" by simp_all
      from fin[OF this] show ?thesis using d(4) True by blast
    next
      case False
      with round have "?loop m2 (k \<or> hit)" by simp
      from step[OF this m2] show ?thesis using d(2,5) False by blast
    qed
  qed
qed


lemma set_holds_all:
  assumes "list_all2 (set_sound view strict src r src' md) sets hs" "same_ctx m1 m"
  shows "list_ex (set_holds E r (view m1) (view (prepareNestedMatch src' ae m1))) hs =
         list_ex (set_holds E r (view m) ((view m)\<lparr>IPCIDRMatchSource := src', IPCIDRAcceptEmpty := ae\<rparr>)) hs"
proof -
  have p: "prepareNestedMatch src' ae m1 = prepareNestedMatch src' ae m"
    using prepareNestedMatch_cong[OF same_ctx_base[OF assms(2)]] .
  have "set_holds E r (view m1) (view (prepareNestedMatch src' ae m1)) t =
      set_holds E r (view m) ((view m)\<lparr>IPCIDRMatchSource := src', IPCIDRAcceptEmpty := ae\<rparr>) t" if "t \<in> set hs" for t
  proof -
    from that assms(1) obtain s where "set_sound view strict src r src' md s t"
      unfolding list_all2_conv_all_nth in_set_conv_nth by metis
    then have "stable (snd t)" by (simp add: set_sound_def split: prod.splits)
    then show ?thesis
      using set_holds_ctx[OF view_ctx[OF assms(2)] prepareNestedMatch_view[of src' ae m], of "snd t" E r "fst t"]
      by (simp add: p)
  qed
  then show ?thesis by (simp add: list_ex_iff)
qed

lemma matchInner_sound:
  assumes "free strict src r" "IgnoreDestinationIPCIDRMatch m = strict" "IPCIDRMatchSource m = src"
    and "DeferredIPCIDRMatchGroups m = 0"
    and "case outer of None \<Rightarrow> holder = None
         | Some f \<Rightarrow> \<exists>src' ae sets hs. f = outer_match E src' ae sets \<and>
             list_all2 (set_sound view strict src r src' md) sets hs \<and>
             holder = Some (\<lambda>r m. list_ex (set_holds E r m (m\<lparr>IPCIDRMatchSource := src', IPCIDRAcceptEmpty := ae\<rparr>)) hs)"
    and "strict \<and> md \<longrightarrow> destinationAddressItems r = []"
    and "matchInner E r outer m = (b, m')"
  shows "decides strict (md \<or> cidr_destination src r) b (DeferredIPCIDRMatchGroups m')
           (items_hold E r (view m) \<and> (case holder of None \<Rightarrow> groups_hold E [(r, view m)] | Some holds \<Rightarrow> holds r (view m)))"
proof -
  obtain groups m1 where e: "evaluateGroups E r m = (groups, m1)" by fastforce
  have m1: "same_ctx m1 m" using evaluateGroups_frame[of E r m] e by simp
  have sk: "skips r m \<longrightarrow> strict \<and> cidr_destination src r \<and> destinationAddressItems r = []"
    using skips_unmixed[of m r] assms(1-3) by (auto simp: skips_def)
  have d1: "DeferredIPCIDRMatchGroups m1 = deferred (skips r m)"
    and g: "satisfied groups = group_bits (group_matched E r m)"
    using e sk assms(4) by (auto simp: evaluateGroups_bits deferred_0 split: if_splits)
  have nm: "\<not> group_matched E r m GDestinationAddress" if "strict" "md \<or> cidr_destination src r"
    using that assms(1-3,6) by (auto simp: group_matched_def free_def unmixed_def skips_def cidr_destination_def)
  have it: "list_all (\<lambda>it. item_Match E it m1) (items r) = items_hold E r (view m)"
    using view_items[of m r] assms(1,3) same_ctx_fields(3)[OF m1] by simp
  note inner = assms(7)[unfolded matchInner_def e, simplified, unfolded it]
  show ?thesis
  proof (cases "items_hold E r (view m)")
    case False
    with inner d1 sk show ?thesis by (auto simp: decides_deferred)
  next
    case True
    obtain c m2 where c: "(case outer of None \<Rightarrow> (group_done groups, m1) | Some f \<Rightarrow> f m1 groups) = (c, m2)" by fastforce
    have "decides strict (md \<or> cidr_destination src r) c (DeferredIPCIDRMatchGroups m2)
        (case holder of None \<Rightarrow> groups_hold E [(r, view m)] | Some holds \<Rightarrow> holds r (view m))"
    proof (cases outer)
      case None
      then show ?thesis
        using c assms(5) d1 sk groups_single[of m r] assms(1-3) groups_finished[of r m] e
        by (auto simp: decides_deferred)
    next
      case (Some f)
      then obtain src' ae sets hs where f: "f = outer_match E src' ae sets"
        "list_all2 (set_sound view strict src r src' md) sets hs"
        "holder = Some (\<lambda>r m. list_ex (set_holds E r m (m\<lparr>IPCIDRMatchSource := src', IPCIDRAcceptEmpty := ae\<rparr>)) hs)"
        using assms(5) by auto
      from c Some f(1) groups_ctx(1)[OF m1, of r] e
      have loop: "outer_loop E (prepareNestedMatch src' ae) (fst (evaluateGroups E r m1)) (snapshotRuleMatch m1)
          sets m1 False (deferred False) = (c, m2)"
        by (simp add: outer_match_def deferred_0)
      have "list_ex (set_holds E r (view m1) (view (prepareNestedMatch src' ae m1))) hs =
          list_ex (set_holds E r (view m) ((view m)\<lparr>IPCIDRMatchSource := src', IPCIDRAcceptEmpty := ae\<rparr>)) hs"
        using set_holds_all[OF f(2) m1] .
      with outer_loop_sound[OF f(2) assms(1) _ _ _ refl _ loop] same_ctx_fields(1,2)[OF m1] assms(2,3) d1
        groups_ctx(2)[OF m1, of r] f(3)
      show ?thesis by simp
    qed
    then obtain d where d: "DeferredIPCIDRMatchGroups m2 = deferred d" "d \<longrightarrow> strict \<and> (md \<or> cidr_destination src r)"
      "c \<and> \<not> d \<longrightarrow> (case holder of None \<Rightarrow> groups_hold E [(r, view m)] | Some holds \<Rightarrow> holds r (view m))"
      "\<not> c \<longrightarrow> \<not> (case holder of None \<Rightarrow> groups_hold E [(r, view m)] | Some holds \<Rightarrow> holds r (view m))"
      unfolding decides_def by blast
    have "b = c" "DeferredIPCIDRMatchGroups m' = deferred d"
      using True inner c g nm d(1,2) by (auto simp: deferred_minus_bits split: if_splits)
    with d(2-4) True show ?thesis by (simp only: decides_deferred) blast
  qed
qed

lemma default_body_sound:
  assumes "free strict src r"
    and "case outer of None \<Rightarrow> holder = None
         | Some f \<Rightarrow> \<exists>src' ae sets hs. f = outer_match E src' ae sets \<and>
             list_all2 (set_sound view strict src r src' md) sets hs \<and>
             holder = Some (\<lambda>r m. list_ex (set_holds E r m (m\<lparr>IPCIDRMatchSource := src', IPCIDRAcceptEmpty := ae\<rparr>)) hs)"
    and "strict \<and> md \<longrightarrow> destinationAddressItems r = []"
  shows "sound view strict src (md \<or> cidr_destination src r) (default_body E r outer) (default_formula E r holder)"
  unfolding sound_def
proof (intro allI impI)
  fix m :: inbound_context
  assume m: "IgnoreDestinationIPCIDRMatch m = strict" "IPCIDRMatchSource m = src" "DeferredIPCIDRMatchGroups m = 0"
  obtain b m' where i: "matchInner E r outer m = (b, m')" by fastforce
  note d = matchInner_sound[OF assms(1) m assms(2,3) i]
  show "decides strict (md \<or> cidr_destination src r) (fst (default_body E r outer m))
      (DeferredIPCIDRMatchGroups (snd (default_body E r outer m))) (default_formula E r holder (view m))"
  proof (cases "allItems r = []")
    case True
    with m show ?thesis by (simp add: default_body_def default_formula_def decides_0)
  next
    case False
    with i d decides_not[OF d] show ?thesis
      by (auto simp: default_body_def default_formula_def invert_default_def)
  qed
qed

lemma mergeableRuleIn_Some:
  "mergeableRuleIn rs = Some branch \<Longrightarrow> rs = [DefaultHeadlessRule branch] \<and> \<not> invert branch \<and> ruleSetItem branch = None"
  by (auto simp: mergeableRuleIn_def split: list.splits headlessRule.splits if_splits)

lemma default_ok_free: "(strict \<longrightarrow> default_ok r src) \<Longrightarrow> free strict src r"
  by (cases r) (auto simp: free_def Let_def)

lemma default_mayDefer_cidr: "cidr_destination src r \<Longrightarrow> default_mayDefer r src"
  by (cases r) auto

text \<open>One rule set of a rule-set item.\<close>

lemma set_sound_item:
  assumes "sound view strict src' (set_mayDefer s src') (ruleSet_Match s E) (set_spec s E)"
    and "strict \<longrightarrow> set_ok s src' \<and> set_unmixed src r src' s" "set_mayDefer s src' \<longrightarrow> md"
  shows "set_sound view strict src r src' md
           (mergeableRuleIn (rs_rules s), ruleSet_Match s E) (mergeableRuleIn (rs_rules s), set_spec s E)"
proof (cases "mergeableRuleIn (rs_rules s)")
  case None
  have "sound view strict src' md (ruleSet_Match s E) (set_spec s E)"
    using sound_mono[OF assms(1,3)] .
  with None show ?thesis by (simp add: set_sound_def Match_frame(3) spec_stable(3))
next
  case (Some branch)
  obtain t md' where s: "s = RuleSet t [DefaultHeadlessRule branch] md'"
    using mergeableRuleIn_Some[OF Some] by (cases s) auto
  have "free strict src' branch" using assms(2) by (intro default_ok_free) (simp add: s)
  moreover have "cidr_destination src' branch \<longrightarrow> set_mayDefer s src'"
    using default_mayDefer_cidr[of src' branch] by (simp add: s)
  ultimately show ?thesis
    using Some assms(2,3) Match_frame(3)[of s E] spec_stable(3)[of s E]
    by (auto simp: set_sound_def set_unmixed_def)
qed

lemma setItem_sound:
  assumes "\<And>s. s \<in> set sets \<Longrightarrow> strict \<longrightarrow> set_ok s src' \<Longrightarrow>
             sound view strict src' (set_mayDefer s src') (ruleSet_Match s E) (set_spec s E)"
    and "strict \<longrightarrow> (\<forall>s \<in> set sets. set_ok s src' \<and> set_unmixed src r src' s)"
  shows "list_all2 (set_sound view strict src r src' (list_ex (\<lambda>s. set_mayDefer s src') sets))
           (zip (map (\<lambda>s. mergeableRuleIn (rs_rules s)) sets) (map (\<lambda>s. ruleSet_Match s E) sets))
           (zip (map (\<lambda>s. mergeableRuleIn (rs_rules s)) sets) (map (\<lambda>s. set_spec s E) sets))"
proof -
  have "set_sound view strict src r src' (list_ex (\<lambda>s. set_mayDefer s src') sets)
      (mergeableRuleIn (rs_rules s), ruleSet_Match s E) (mergeableRuleIn (rs_rules s), set_spec s E)"
    if "s \<in> set sets" for s
    using assms that by (intro set_sound_item) (auto simp: list_ex_iff)
  then show ?thesis by (simp add: list_all2_conv_all_nth)
qed

lemma default_sound:
  assumes "\<And>si. rsi = Some si \<Longrightarrow>
             (\<forall>s \<in> set (setList si). (strict \<longrightarrow> set_ok s (ipCidrMatchSource si)) \<longrightarrow>
                sound view strict (ipCidrMatchSource si) (set_mayDefer s (ipCidrMatchSource si)) (ruleSet_Match s E) (set_spec s E))"
    and r: "r = AbstractDefaultRule its srcA srcP dstA dstC dstP allI rsi ivt act"
    and ok: "strict \<longrightarrow> default_ok r src"
  shows "sound view strict src (default_mayDefer r src) (default_Match r E) (default_spec r E)"
proof (cases rsi)
  case None
  have "default_mayDefer r src = (False \<or> cidr_destination src r)" by (simp add: r None)
  then show ?thesis
    using default_body_sound[OF default_ok_free[OF ok], where outer = None and holder = None and md = False] by (simp add: r None)
next
  case (Some si)
  obtain tags sets src' ae where si: "si = RuleSetItem tags sets src' ae" by (cases si)
  let ?md = "list_ex (\<lambda>s. set_mayDefer s src') sets"
  have sok: "strict \<longrightarrow> (\<forall>s \<in> set sets. set_ok s src' \<and> set_unmixed src r src' s)"
    using ok by (auto simp: r Some si Let_def list_all_iff)
  have md: "strict \<and> ?md \<longrightarrow> destinationAddressItems r = []"
    using sok by (auto simp: set_unmixed_def list_ex_iff)
  have l2: "list_all2 (set_sound view strict src r src' ?md)
      (zip (map (\<lambda>s. mergeableRuleIn (rs_rules s)) sets) (map (\<lambda>s. ruleSet_Match s E) sets))
      (zip (map (\<lambda>s. mergeableRuleIn (rs_rules s)) sets) (map (\<lambda>s. set_spec s E) sets))"
    using assms(1)[OF Some] sok by (intro setItem_sound) (auto simp: si)
  have d: "default_mayDefer r src = (?md \<or> cidr_destination src r)"
    by (auto simp: r Some si list_ex_iff)
  have m: "default_Match r E = default_body E r (Some (outer_match E src' ae
      (zip (map (\<lambda>s. mergeableRuleIn (rs_rules s)) sets) (map (\<lambda>s. ruleSet_Match s E) sets))))"
    by (simp add: r Some si comp_def)
  have p: "default_spec r E = default_formula E r (Some (\<lambda>r m. list_ex (set_holds E r m
      (m\<lparr>IPCIDRMatchSource := src', IPCIDRAcceptEmpty := ae\<rparr>))
      (zip (map (\<lambda>s. mergeableRuleIn (rs_rules s)) sets) (map (\<lambda>s. set_spec s E) sets))))"
    by (simp add: r Some si comp_def)
  show ?thesis
    unfolding d m p
    by (rule default_body_sound[OF default_ok_free[OF ok] _ md]) (use l2 in auto)
qed

lemma matchForMatch_sound:
  assumes "sound view strict src md f h" "strict \<longrightarrow> \<not> matchResponse"
  shows "sound view strict src md (matchForMatch ivt matchResponse tag f) (response_formula ivt matchResponse tag h)"
proof (cases matchResponse)
  case False
  then show ?thesis using assms by (simp add: sound_def matchForMatch_def response_formula_def)
next
  case True
  then have st: "\<not> strict" using assms(2) by blast
  have one: "fst (f (m\<lparr>DNSResponse := x, DestinationAddressMatchFromResponse := True\<rparr>)) =
      h (m\<lparr>DNSResponse := x, DestinationAddressMatchFromResponse := True\<rparr>)"
    if "\<not> IgnoreDestinationIPCIDRMatch m" "IPCIDRMatchSource m = src" "DeferredIPCIDRMatchGroups m = 0" for m x
    using assms(1)[unfolded sound_def, rule_format, of "m\<lparr>DNSResponse := x, DestinationAddressMatchFromResponse := True\<rparr>"]
      that st by (auto simp: decides_def view_plain)
  show ?thesis
    unfolding sound_def
  proof (intro allI impI)
    fix m :: inbound_context
    assume m: "IgnoreDestinationIPCIDRMatch m = strict" "IPCIDRMatchSource m = src" "DeferredIPCIDRMatchGroups m = 0"
    have v: "view m = m" using view_plain[OF st] .
    show "decides strict md (fst (matchForMatch ivt matchResponse tag f m))
        (DeferredIPCIDRMatchGroups (snd (matchForMatch ivt matchResponse tag f m)))
        (response_formula ivt matchResponse tag h (view m))"
      using m st True one[of m]
      by (cases "if tag \<noteq> [] then NamedDNSResponses m tag else DNSResponse m")
        (simp_all only: v matchForMatch_def response_formula_def if_True option.case fst_conv snd_conv decides_0 not_False_eq_True refl)
  qed
qed

lemma list_sound:
  assumes "\<And>r. r \<in> set rs \<Longrightarrow> sound view strict src (rule_mayDefer r src) (rule_Match r E) (rule_spec r E)"
  shows "list_all2 (\<lambda>f h. frame f \<and> stable h \<and> sound view strict src (list_ex (\<lambda>r. rule_mayDefer r src) rs) f h)
           (map (\<lambda>r. rule_Match r E) rs) (map (\<lambda>r. rule_spec r E) rs)"
proof -
  have "sound view strict src (list_ex (\<lambda>r. rule_mayDefer r src) rs) (rule_Match r E) (rule_spec r E)"
    if "r \<in> set rs" for r
    by (rule sound_mono[OF assms[OF that]]) (use that in \<open>auto simp: list_ex_iff\<close>)
  then show ?thesis by (simp add: list_all2_conv_all_nth Match_frame(5) spec_stable(5))
qed

lemma ruleSet_sound:
  assumes "\<And>r. r \<in> set rs \<Longrightarrow> sound view strict src (rule_mayDefer r src) (rule_Match r E) (rule_spec r E)"
  shows "sound view strict src (set_mayDefer (RuleSet t rs md) src) (ruleSet_Match (RuleSet t rs md) E) (set_spec (RuleSet t rs md) E)"
  unfolding sound_def
proof (intro allI impI)
  fix m :: inbound_context
  assume m: "IgnoreDestinationIPCIDRMatch m = strict" "IPCIDRMatchSource m = src" "DeferredIPCIDRMatchGroups m = 0"
  let ?fs = "map (\<lambda>r. rule_Match r E) rs"
  obtain b m' where l: "headless_loop (snapshotRuleMatch m) ?fs m False (deferred False) = (b, m')" by fastforce
  have "ruleSet_Match (RuleSet t rs md) E m = (b, m')"
    using l by (simp add: matchAnyHeadlessRule_def comp_def deferred_0)
  moreover have "set_spec (RuleSet t rs md) E (view m) = list_ex (\<lambda>h. h (view m)) (map (\<lambda>r. rule_spec r E) rs)"
    by (simp add: list_ex_iff)
  moreover have "set_mayDefer (RuleSet t rs md) src = list_ex (\<lambda>r. rule_mayDefer r src) rs"
    by (simp add: list_ex_iff)
  ultimately show "decides strict (set_mayDefer (RuleSet t rs md) src) (fst (ruleSet_Match (RuleSet t rs md) E m))
      (DeferredIPCIDRMatchGroups (snd (ruleSet_Match (RuleSet t rs md) E m))) (set_spec (RuleSet t rs md) E (view m))"
    using headless_loop_sound[OF list_sound[OF assms] refl m _ l] by simp
qed

lemma Match_sound:
  fixes r :: "'a abstractDefaultRule" and si :: "'a ruleSetItem" and s :: "'a ruleSet"
    and l :: "'a abstractLogicalRule" and h :: "'a headlessRule"
  shows "\<And>src. strict \<longrightarrow> default_ok r src \<Longrightarrow>
           sound view strict src (default_mayDefer r src) (default_Match r E) (default_spec r E)"
    and "\<forall>s \<in> set (setList si). (strict \<longrightarrow> set_ok s (ipCidrMatchSource si)) \<longrightarrow>
           sound view strict (ipCidrMatchSource si) (set_mayDefer s (ipCidrMatchSource si)) (ruleSet_Match s E) (set_spec s E)"
    and "\<And>src. strict \<longrightarrow> set_ok s src \<Longrightarrow>
           sound view strict src (set_mayDefer s src) (ruleSet_Match s E) (set_spec s E)"
    and "\<And>src. strict \<longrightarrow> logical_ok l \<Longrightarrow>
           sound view strict src (logical_mayDefer l) (logical_Match l E) (logical_spec l E)"
    and "\<And>src. strict \<longrightarrow> rule_ok h src \<Longrightarrow>
           sound view strict src (rule_mayDefer h src) (rule_Match h E) (rule_spec h E)"
proof (induction r and si and s and l and h)
  case (AbstractDefaultRule its srcA srcP dstA dstC dstP allI rsi ivt act)
  show ?case
    by (rule default_sound[OF _ refl AbstractDefaultRule.prems]) (use AbstractDefaultRule.IH in simp)
next
  case (RuleSet t rs md)
  show ?case
    using RuleSet by (intro ruleSet_sound) (auto simp: list_all_iff)
next
  case (AbstractLogicalRule rs md ivt act)
  have all: "sound view strict False (rule_mayDefer r False) (rule_Match r E) (rule_spec r E)" if "r \<in> set rs" for r
    using AbstractLogicalRule that by (auto simp: list_all_iff)
  have "sound view strict src (list_ex (\<lambda>r. rule_mayDefer r False) rs)
      (logical_body md ivt (map (\<lambda>r. rule_Match r E) rs)) (logical_formula md ivt (map (\<lambda>r. rule_spec r E) rs))"
    by (rule logical_body_sound, rule list_sound, rule all)
  then show ?case by (simp add: comp_def list_ex_iff)
qed (simp_all add: matchForMatch_sound)

end

section \<open>The two ways to match\<close>

interpretation exact: match_view E "\<lambda>m. m" False for E
  by unfold_locales simp_all

text \<open>What the metadata is when the response is known.\<close>

definition response_view :: "dns_msg option \<Rightarrow> inbound_context \<Rightarrow> inbound_context" where
  "response_view response m =
     m\<lparr>IgnoreDestinationIPCIDRMatch := False, DNSResponse := response, DestinationAddressMatchFromResponse := True\<rparr>"

lemma response_view_item:
  "response_free (IPCIDRMatchSource m) it \<Longrightarrow> item_Match E it (response_view response m) = item_Match E it m"
  by (cases it; simp add: response_view_def item_Match_defs)

interpretation pre: match_view E "response_view response" True for E response
proof unfold_locales
  show "response_view response (ResetRuleMatchCache m) = ResetRuleMatchCache (response_view response m)" for m
    by (cases m) (simp add: response_view_def ResetRuleMatchCache_def)
  show "response_view response (m\<lparr>IPCIDRMatchSource := s, IPCIDRAcceptEmpty := e\<rparr>) =
      (response_view response m)\<lparr>IPCIDRMatchSource := s, IPCIDRAcceptEmpty := e\<rparr>" for m s e
    by (cases m) (simp add: response_view_def)
qed (simp_all add: response_view_item, simp add: response_view_def)

end
