(* ===== verification/Rule_Theorems.thy ===== *)
theory Rule_Theorems
  imports Rule_Sound
begin

text \<open>
  The properties of rule matching, over \<open>rule_Match\<close> (the \<open>Match\<close> method of every kind of
  rule), \<open>LegacyPreMatch\<close> and \<open>MatchAddressLimit\<close>. They rest on the two interpretations
  of \<open>match_view\<close> in \<open>Rule_Sound\<close>.
\<close>

section \<open>Example rules\<close>

definition example_groups ::
  "rule_item list \<Rightarrow> rule_item list \<Rightarrow> 'a ruleSetItem option \<Rightarrow> bool \<Rightarrow> 'a abstractDefaultRule" where
  "example_groups names addresses rsi ivt =
     AbstractDefaultRule [] [] [] names addresses [] (map ItemRef (names @ addresses)) rsi ivt None"

definition example_domain :: rule_item where
  "example_domain = NewRawDomainItem (\<lambda>host. True)"

definition example_cidr :: rule_item where
  "example_cidr = NewRawIPCIDRItem False (\<lambda>a. a = Addr4 1)"

definition example_set :: "'a headlessRule list \<Rightarrow> 'a ruleSetItem" where
  "example_set rs =
     RuleSetItem [''geoip''] [RuleSet ''geoip'' rs
       \<lparr>ContainsProcessRule = False, ContainsWIFIRule = False, ContainsIPCIDRRule = True,
        ContainsDNSQueryTypeRule = False, ContainsNonIPCIDRRule = False\<rparr>] False False"

definition example_context :: inbound_context where
  "example_context = zero_context\<lparr>DomainName := ''example.org''\<rparr>"


lemmas example_defs = example_groups_def example_domain_def example_cidr_def example_set_def example_context_def
  NewRawDomainItem_def NewRawIPCIDRItem_def

lemmas example_eval = example_defs zero_context_def default_formula_def items_hold_def groups_hold_iff group_holds_def
  matchAnyItem_def all_match_group set_holds_def mergeableRuleIn_def address_limit_metadata_def ResetRuleCache_def
  ResetRuleMatchCache_def IPCIDRItem_Match_def DomainItem_Match_def domain_host_def
  DNSResponseAddressesForMatch_def DNSResponseAddresses_def


lemma example_context_fields [simp]:
  "\<not> IgnoreDestinationIPCIDRMatch example_context" "DeferredIPCIDRMatchGroups example_context = 0"
  by (simp_all add: example_context_def zero_context_def)

section \<open>Matching\<close>

text \<open>C1. Every rule matches exactly when its formula holds: on metadata with a clean rule cache
  and with destination addresses in force, \<open>Match\<close> answers \<open>rule_spec\<close> and leaves no deferred
  group, for default, logical and DNS rules with any nesting of logical rules and rule sets.\<close>

theorem rule_Match_spec:
  assumes "\<not> IgnoreDestinationIPCIDRMatch m" "DeferredIPCIDRMatchGroups m = 0"
  shows "fst (rule_Match r E m) = rule_spec r E m \<and> DeferredIPCIDRMatchGroups (snd (rule_Match r E m)) = 0"
  using exact.Match_sound(5)[of r "IPCIDRMatchSource m" E] assms
  by (auto simp: sound_def decides_def deferred_0)

text \<open>Witness of C1: an inverted rule on a domain that names a rule set of one address rule.\<close>

theorem rule_Match_spec_witness:
  "\<forall>E. \<not> fst (rule_Match (DefaultRule (example_groups [example_domain] []
          (Some (example_set [DefaultHeadlessRule (example_groups [] [example_cidr] None False)])) True) :: unit headlessRule) E example_context)"
proof
  fix E
  let ?r = "DefaultRule (example_groups [example_domain] []
          (Some (example_set [DefaultHeadlessRule (example_groups [] [example_cidr] None False)])) True) :: unit headlessRule"
  have "\<not> rule_spec ?r E example_context" by (simp add: example_eval)
  then show "\<not> fst (rule_Match ?r E example_context)"
    using rule_Match_spec[OF example_context_fields, of ?r E] by blast
qed

text \<open>C2. A match changes nothing of the metadata but the rule cache: the two flags a rule-set item
  sets, and every other field, are as they were, on every path through nested rules.\<close>

theorem rule_Match_keeps_metadata:
  "ResetRuleMatchCache (snd (rule_Match r E m)) = ResetRuleMatchCache m"
  using Match_frame(5)[of r E] by (simp add: frame_def)

section \<open>The DNS pre-match\<close>

lemma address_limit_view:
  assumes "\<not> IgnoreDestinationIPCIDRMatch m"
  shows "response_view response ((ResetRuleCache m)\<lparr>IgnoreDestinationIPCIDRMatch := True\<rparr>) =
         address_limit_metadata m response"
  using assms
  by (cases m) (simp add: response_view_def address_limit_metadata_def ResetRuleCache_def ResetRuleMatchCache_def)

lemma address_limit_exact:
  assumes "\<not> IgnoreDestinationIPCIDRMatch m"
  shows "default_MatchAddressLimit r E m response = default_spec r E (address_limit_metadata m response)"
    and "logical_MatchAddressLimit l E m response = logical_spec l E (address_limit_metadata m response)"
proof -
  let ?m = "address_limit_metadata m response"
  have m: "\<not> IgnoreDestinationIPCIDRMatch ?m" "\<not> IPCIDRMatchSource ?m" "DeferredIPCIDRMatchGroups ?m = 0"
    using assms by (simp_all add: address_limit_metadata_def ResetRuleCache_def ResetRuleMatchCache_def)
  show "default_MatchAddressLimit r E m response = default_spec r E ?m"
    using exact.Match_sound(1)[of r False E] m
    by (auto simp: default_MatchAddressLimit_def sound_def decides_def)
  show "logical_MatchAddressLimit l E m response = logical_spec l E ?m"
    using exact.Match_sound(4)[of l False E] m
    by (auto simp: logical_MatchAddressLimit_def sound_def decides_def)
qed

text \<open>The pre-match decides the formula on the metadata the response will give.\<close>

lemma LegacyPreMatch_decides:
  assumes "rule_ok r False" "isDNSRule r" "\<not> IgnoreDestinationIPCIDRMatch m"
  shows "decides True (rule_mayDefer r False) (fst (LegacyPreMatch r E (ResetRuleCache m)))
           (DeferredIPCIDRMatchGroups (snd (LegacyPreMatch r E (ResetRuleCache m))))
           (MatchAddressLimit r E m response)"
proof -
  let ?m = "(ResetRuleCache m)\<lparr>IgnoreDestinationIPCIDRMatch := True\<rparr>"
  have m: "IgnoreDestinationIPCIDRMatch ?m" "\<not> IPCIDRMatchSource ?m" "DeferredIPCIDRMatchGroups ?m = 0"
    by (simp_all add: ResetRuleCache_def ResetRuleMatchCache_def)
  note v = address_limit_view[OF assms(3), of response] and a = address_limit_exact[OF assms(3)]
  show ?thesis
  proof (cases r)
    case (DefaultDNSRule r' mr t rc)
    with assms(1) pre.Match_sound(1)[of r' False response E, unfolded sound_def, rule_format, of ?m] m show ?thesis
      by (simp add: v a default_LegacyPreMatch_def case_prod_beta)
  next
    case (LogicalDNSRule r' ts an rc)
    with assms(1) pre.Match_sound(4)[of r' response False E, unfolded sound_def, rule_format, of ?m] m show ?thesis
      by (simp add: v a logical_LegacyPreMatch_def case_prod_beta)
  qed (use assms(2) in simp_all)
qed

text \<open>C3. The pre-match never skips a rule the response would accept: if \<open>MatchAddressLimit\<close> accepts
  some response, \<open>LegacyPreMatch\<close>, which runs before there is one, is true. This holds for
  every DNS rule, inverted and nested ones included, with no item that reads the response
  outside the destination addresses and no group that mixes names and addresses.\<close>

theorem LegacyPreMatch_never_skips:
  assumes "rule_ok r False" "isDNSRule r" "\<not> IgnoreDestinationIPCIDRMatch m"
    and "MatchAddressLimit r E m response"
  shows "fst (LegacyPreMatch r E (ResetRuleCache m))"
  using LegacyPreMatch_decides[OF assms(1-3), of E response] assms(4) by (auto simp: decides_def)

text \<open>Witness of C3: an inverted rule on an address, accepted for a response without addresses.\<close>

theorem LegacyPreMatch_never_skips_witness:
  "\<forall>E. fst (LegacyPreMatch (DefaultDNSRule (example_groups [] [example_cidr] None True) False [] False :: unit headlessRule) E
         (ResetRuleCache example_context))"
proof
  fix E
  let ?r = "DefaultDNSRule (example_groups [] [example_cidr] None True) False [] False :: unit headlessRule"
  have "rule_ok ?r False"
    by (simp add: example_defs Let_def items_free_def unmixed_def)
  moreover have "MatchAddressLimit ?r E example_context None"
    by (simp add: address_limit_exact(1)) (simp add: example_eval)
  ultimately show "fst (LegacyPreMatch ?r E (ResetRuleCache example_context))"
    using LegacyPreMatch_never_skips[of ?r example_context E None] by simp
qed




end
