(* ===== verification/Lifecycle.thy ===== *)
theory Lifecycle
  imports Go_Prelude
begin

text \<open>
  The life cycle shared by inbounds, outbounds, endpoints, services and DNS transports
  (\<open>adapter/lifecycle.go\<close>, \<open>adapter/lifecycle_legacy.go\<close>) and the three managers that differ in
  their names only (\<open>adapter/inbound\<close>, \<open>adapter/endpoint\<close>, \<open>adapter/service\<close>).

  A component is an object of the program: its pointer, which is what Go compares, and what its
  methods \<open>Type\<close>, \<open>Tag\<close> and \<open>Dependencies\<close> return. What its \<open>Start\<close> and \<open>Close\<close> methods return is
  an argument (\<open>comp_env\<close>); the calls themselves are recorded, in order, in the trace of the
  manager. A panic is an outcome of its own.
\<close>

section \<open>Components\<close>

datatype startStage = StartStateInitialize | StartStateStart | StartStatePostStart | StartStateStarted

fun stage_number :: "startStage \<Rightarrow> nat" where
  "stage_number StartStateInitialize = 0"
| "stage_number StartStateStart = 1"
| "stage_number StartStatePostStart = 2"
| "stage_number StartStateStarted = 3"

definition ListStartStages :: "startStage list" where
  "ListStartStages = [StartStateInitialize, StartStateStart, StartStatePostStart, StartStateStarted]"

fun StartStage_String :: "startStage \<Rightarrow> string" where
  "StartStage_String StartStateInitialize = ''initialize''"
| "StartStage_String StartStateStart = ''start''"
| "StartStage_String StartStatePostStart = ''post-start''"
| "StartStage_String StartStateStarted = ''finish-start''"

record component =
  comp_ptr :: nat
  comp_Type :: string
  comp_Tag :: string
  comp_Dependencies :: "string list"

text \<open>\<open>lifecycle\<close> tells whether the object implements \<open>adapter.Lifecycle\<close>, whose \<open>Start\<close> takes the stage;
  the legacy methods are \<open>None\<close> where the object does not have them.\<close>

record comp_env =
  isLifecycle :: "nat \<Rightarrow> bool"
  Lifecycle_Start :: "nat \<Rightarrow> startStage \<Rightarrow> error option"
  legacy_PreStart :: "nat \<Rightarrow> error option option"
  legacy_Start :: "nat \<Rightarrow> error option option"
  legacy_PostStart :: "nat \<Rightarrow> error option option"
  isCloser :: "nat \<Rightarrow> bool"
  comp_Close :: "nat \<Rightarrow> error option"

datatype event = EvStart nat startStage | EvClose nat

datatype outcome = Returned "error option" | Panicked string

section \<open>Starting and closing a component\<close>

definition call_legacy :: "error option option \<Rightarrow> event \<Rightarrow> error option \<times> event list" where
  "call_legacy method ev = (case method of None \<Rightarrow> (None, []) | Some r \<Rightarrow> (r, [ev]))"

definition LegacyStart :: "comp_env \<Rightarrow> component \<Rightarrow> startStage \<Rightarrow> error option \<times> event list" where
  "LegacyStart E starter stage =
     (let p = comp_ptr starter; ev = EvStart p stage
      in if isLifecycle E p then (Lifecycle_Start E p stage, [ev])
         else case stage of
                StartStateInitialize \<Rightarrow> call_legacy (legacy_PreStart E p) ev
              | StartStateStart \<Rightarrow> call_legacy (legacy_Start E p) ev
              | StartStateStarted \<Rightarrow> call_legacy (legacy_PostStart E p) ev
              | StartStatePostStart \<Rightarrow> (None, []))"

definition call_Close :: "comp_env \<Rightarrow> component \<Rightarrow> error option \<times> event list" where
  "call_Close E c = (comp_Close E (comp_ptr c), [EvClose (comp_ptr c)])"

text \<open>\<open>common.Close\<close>, and the type test \<open>.(io.Closer)\<close> of the managers.\<close>

definition close_component :: "comp_env \<Rightarrow> component \<Rightarrow> error option \<times> event list" where
  "close_component E c =
     (if isCloser E (comp_ptr c) then call_Close E c else (None, []))"

definition comp_name :: "string \<Rightarrow> component \<Rightarrow> string" where
  "comp_name kind c = kind @ ''/'' @ comp_Type c @ ''['' @ comp_Tag c @ '']''"

text \<open>The loop over the components of a manager in one stage, which stops at the first error.\<close>

fun start_components :: "comp_env \<Rightarrow> string \<Rightarrow> startStage \<Rightarrow> component list \<Rightarrow> error option \<times> event list" where
  "start_components E kind stage [] = (None, [])"
| "start_components E kind stage (c # cs) =
     (case LegacyStart E c stage of
        (Some e, evs) \<Rightarrow> (Some (ErrCause e (StartStage_String stage @ '' '' @ comp_name kind c)), evs)
      | (None, evs) \<Rightarrow> (let (r, evs') = start_components E kind stage cs in (r, evs @ evs')))"

text \<open>The loop over the stages for one component that is created while the manager runs.\<close>

fun start_stages :: "comp_env \<Rightarrow> string \<Rightarrow> component \<Rightarrow> startStage list \<Rightarrow> error option \<times> event list" where
  "start_stages E kind c [] = (None, [])"
| "start_stages E kind c (stage # stages) =
     (case LegacyStart E c stage of
        (Some e, evs) \<Rightarrow> (Some (ErrCause e (StartStage_String stage @ '' '' @ comp_name kind c)), evs)
      | (None, evs) \<Rightarrow> (let (r, evs') = start_stages E kind c stages in (r, evs @ evs')))"

text \<open>The loop of every \<open>Close\<close>: the errors are collected and dropped.\<close>

definition close_all :: "(component \<Rightarrow> error option \<times> event list) \<Rightarrow> component list \<Rightarrow> event list" where
  "close_all close cs = concat (map (\<lambda>c. snd (close c)) cs)"

text \<open>\<open>common.Index\<close> on the pointer, and the removal of that index.\<close>

fun index_of :: "component \<Rightarrow> component list \<Rightarrow> nat option" where
  "index_of c [] = None"
| "index_of c (x # xs) = (if comp_ptr x = comp_ptr c then Some 0 else map_option Suc (index_of c xs))"

definition remove_index :: "nat \<Rightarrow> 'a list \<Rightarrow> 'a list" where
  "remove_index i xs = take i xs @ drop (Suc i) xs"

section \<open>The managers of inbounds, endpoints and services\<close>

record manager =
  m_started :: bool
  m_stage :: startStage
  m_items :: "component list"
  m_byTag :: "string \<rightharpoonup> component"
  m_events :: "event list"

definition manager_New :: manager where
  "manager_New = \<lparr>m_started = False, m_stage = StartStateInitialize, m_items = [], m_byTag = Map.empty, m_events = []\<rparr>"

definition log_events :: "event list \<Rightarrow> manager \<Rightarrow> manager" where
  "log_events evs m = m\<lparr>m_events := m_events m @ evs\<rparr>"

text \<open>\<open>skip\<close> is the stage a manager leaves to another one: the endpoint manager's \<open>StartStateStart\<close>,
  which the outbound manager runs.\<close>

definition manager_Start ::
  "comp_env \<Rightarrow> string \<Rightarrow> startStage option \<Rightarrow> startStage \<Rightarrow> manager \<Rightarrow> outcome \<times> manager" where
  "manager_Start E kind skip stage m =
     (if m_started m \<and> stage_number (m_stage m) \<ge> stage_number stage then (Panicked ''already started'', m)
      else let m1 = m\<lparr>m_started := True, m_stage := stage\<rparr>
           in if skip = Some stage then (Returned None, m1)
              else let (r, evs) = start_components E kind stage (m_items m1)
                   in (Returned r, log_events evs m1))"

definition manager_Close :: "comp_env \<Rightarrow> manager \<Rightarrow> outcome \<times> manager" where
  "manager_Close E m =
     (if \<not> m_started m then (Returned None, m)
      else (Returned None, log_events (close_all (call_Close E) (m_items m)) (m\<lparr>m_started := False, m_items := []\<rparr>)))"

definition manager_Remove :: "comp_env \<Rightarrow> string \<Rightarrow> string \<Rightarrow> manager \<Rightarrow> outcome \<times> manager" where
  "manager_Remove E kind tag m =
     (case m_byTag m tag of
        None \<Rightarrow> (Returned (Some os_ErrInvalid), m)
      | Some c \<Rightarrow>
          let m1 = m\<lparr>m_byTag := (m_byTag m)(tag := None)\<rparr>
          in case index_of c (m_items m1) of
               None \<Rightarrow> (Panicked (''invalid '' @ kind @ '' index''), m1)
             | Some i \<Rightarrow>
                 let m2 = m1\<lparr>m_items := remove_index i (m_items m1)\<rparr>
                 in if m_started m2 then let (r, evs) = call_Close E c in (Returned r, log_events evs m2)
                    else (Returned None, m2))"

text \<open>\<open>created\<close> is what the registry returned.\<close>

definition manager_insert :: "comp_env \<Rightarrow> string \<Rightarrow> string \<Rightarrow> component \<Rightarrow> manager \<Rightarrow> outcome \<times> manager" where
  "manager_insert E kind tag c m =
     (let add = (\<lambda>m. m\<lparr>m_items := m_items m @ [c], m_byTag := (m_byTag m)(tag \<mapsto> c)\<rparr>)
      in case m_byTag m tag of
           None \<Rightarrow> (Returned None, add m)
         | Some old \<Rightarrow>
             let (r, evs) = (if m_started m then call_Close E old else (None, []));
                 m1 = log_events evs m
             in case r of
                  Some e \<Rightarrow> (Returned (Some (ErrCause e (''close '' @ comp_name kind old))), m1)
                | None \<Rightarrow>
                    case index_of old (m_items m1) of
                      None \<Rightarrow> (Panicked (''invalid '' @ kind @ '' index''), m1)
                    | Some i \<Rightarrow> (Returned None, add (m1\<lparr>m_items := remove_index i (m_items m1)\<rparr>)))"

definition manager_Create ::
  "comp_env \<Rightarrow> string \<Rightarrow> string \<Rightarrow> component result \<Rightarrow> manager \<Rightarrow> outcome \<times> manager" where
  "manager_Create E kind tag created m =
     (case created of
        Inl e \<Rightarrow> (Returned (Some e), m)
      | Inr c \<Rightarrow>
          let (r, evs) = (if m_started m then start_stages E kind c ListStartStages else (None, []));
              m1 = log_events evs m
          in case r of
               Some e \<Rightarrow> (Returned (Some e), m1)
             | None \<Rightarrow> manager_insert E kind tag c m1)"

text \<open>The three managers.\<close>

definition Inbound_Start :: "comp_env \<Rightarrow> startStage \<Rightarrow> manager \<Rightarrow> outcome \<times> manager" where
  "Inbound_Start E = manager_Start E ''inbound'' None"

definition Inbound_Close :: "comp_env \<Rightarrow> manager \<Rightarrow> outcome \<times> manager" where
  "Inbound_Close E = manager_Close E"

definition Inbound_Remove :: "comp_env \<Rightarrow> string \<Rightarrow> manager \<Rightarrow> outcome \<times> manager" where
  "Inbound_Remove E = manager_Remove E ''inbound''"

definition Inbound_Create :: "comp_env \<Rightarrow> string \<Rightarrow> component result \<Rightarrow> manager \<Rightarrow> outcome \<times> manager" where
  "Inbound_Create E = manager_Create E ''inbound''"

definition Endpoint_Start :: "comp_env \<Rightarrow> startStage \<Rightarrow> manager \<Rightarrow> outcome \<times> manager" where
  "Endpoint_Start E = manager_Start E ''endpoint'' (Some StartStateStart)"

definition Endpoint_Close :: "comp_env \<Rightarrow> manager \<Rightarrow> outcome \<times> manager" where
  "Endpoint_Close E = manager_Close E"

definition Endpoint_Get :: "manager \<Rightarrow> string \<Rightarrow> component option" where
  "Endpoint_Get m tag = m_byTag m tag"

definition Endpoint_Remove :: "comp_env \<Rightarrow> string \<Rightarrow> manager \<Rightarrow> outcome \<times> manager" where
  "Endpoint_Remove E = manager_Remove E ''endpoint''"

definition Endpoint_Create :: "comp_env \<Rightarrow> string \<Rightarrow> component result \<Rightarrow> manager \<Rightarrow> outcome \<times> manager" where
  "Endpoint_Create E = manager_Create E ''endpoint''"

definition Service_Start :: "comp_env \<Rightarrow> startStage \<Rightarrow> manager \<Rightarrow> outcome \<times> manager" where
  "Service_Start E = manager_Start E ''service'' None"

definition Service_Close :: "comp_env \<Rightarrow> manager \<Rightarrow> outcome \<times> manager" where
  "Service_Close E = manager_Close E"

definition Service_Get :: "manager \<Rightarrow> string \<Rightarrow> component option" where
  "Service_Get m tag = m_byTag m tag"

definition Service_Remove :: "comp_env \<Rightarrow> string \<Rightarrow> manager \<Rightarrow> outcome \<times> manager" where
  "Service_Remove E = manager_Remove E ''service''"

definition Service_Create :: "comp_env \<Rightarrow> string \<Rightarrow> component result \<Rightarrow> manager \<Rightarrow> outcome \<times> manager" where
  "Service_Create E = manager_Create E ''service''"

text \<open>The inbound manager looks a tag up in the endpoint manager when it has no inbound of it.\<close>

definition Inbound_Get :: "manager \<Rightarrow> manager \<Rightarrow> string \<Rightarrow> component option" where
  "Inbound_Get m endpoint tag =
     (case m_byTag m tag of Some c \<Rightarrow> Some c | None \<Rightarrow> Endpoint_Get endpoint tag)"

section \<open>The list and the map of a manager agree\<close>

definition tagged :: "component list \<Rightarrow> (string \<rightharpoonup> component) \<Rightarrow> bool" where
  "tagged cs byTag \<longleftrightarrow> distinct (map comp_ptr cs) \<and>
     (\<forall>tag c. byTag tag = Some c \<longleftrightarrow> c \<in> set cs \<and> comp_Tag c = tag)"

definition drop_ptr :: "component \<Rightarrow> component list \<Rightarrow> component list" where
  "drop_ptr c cs = filter (\<lambda>x. comp_ptr x \<noteq> comp_ptr c) cs"

lemma tagged_empty [simp]: "tagged [] Map.empty"
  by (simp add: tagged_def)

lemma index_of_Some:
  assumes "c \<in> set cs" "distinct (map comp_ptr cs)"
  shows "\<exists>i. index_of c cs = Some i \<and> remove_index i cs = drop_ptr c cs"
  using assms
proof (induction cs)
  case (Cons x xs)
  show ?case
  proof (cases "comp_ptr x = comp_ptr c")
    case True
    then have "drop_ptr c xs = xs" using Cons.prems(2) by (auto simp: drop_ptr_def filter_id_conv image_iff)
    then show ?thesis using True by (simp add: remove_index_def drop_ptr_def)
  next
    case False
    then obtain i where "index_of c xs = Some i" "remove_index i xs = drop_ptr c xs" using Cons by auto
    then show ?thesis using False by (intro exI[of _ "Suc i"]) (simp add: remove_index_def drop_ptr_def)
  qed
qed simp

lemma index_of_empty [simp]: "index_of c [] = None"
  by simp

lemma tagged_lookup:
  assumes "tagged cs byTag" "byTag tag = Some c"
  obtains i where "index_of c cs = Some i" "remove_index i cs = drop_ptr c cs"
  using assms index_of_Some[of c cs] by (auto simp: tagged_def)

lemma ptr_inj: "distinct (map comp_ptr cs) \<Longrightarrow> x \<in> set cs \<Longrightarrow> y \<in> set cs \<Longrightarrow> comp_ptr x = comp_ptr y \<Longrightarrow> x = y"
  by (metis distinct_map inj_onD)

lemma tagged_tag_inj: "tagged cs byTag \<Longrightarrow> x \<in> set cs \<Longrightarrow> byTag (comp_Tag x) = Some x"
  by (simp add: tagged_def)

lemma tagged_remove:
  assumes "tagged cs byTag" "byTag tag = Some c"
  shows "tagged (drop_ptr c cs) (byTag(tag := None))"
proof -
  have d: "distinct (map comp_ptr cs)" and c: "c \<in> set cs" "comp_Tag c = tag" using assms by (auto simp: tagged_def)
  have "(byTag(tag := None)) t = Some x \<longleftrightarrow> x \<in> set (drop_ptr c cs) \<and> comp_Tag x = t" for t x
  proof (cases "t = tag")
    case True
    have "x = c" if "x \<in> set cs" "comp_Tag x = tag" for x
      using tagged_tag_inj[OF assms(1) that(1)] that(2) assms(2) by simp
    then show ?thesis using True by (auto simp: drop_ptr_def)
  next
    case False
    then show ?thesis using assms(1) ptr_inj[OF d _ c(1)] c(2) by (auto simp: tagged_def drop_ptr_def)
  qed
  then show ?thesis using d by (simp add: tagged_def drop_ptr_def distinct_map_filter)
qed

lemma tagged_insert:
  assumes "tagged cs byTag" "byTag tag = None" "comp_Tag c = tag" "comp_ptr c \<notin> comp_ptr ` set cs"
  shows "tagged (cs @ [c]) (byTag(tag \<mapsto> c))"
proof -
  have "(byTag(tag \<mapsto> c)) t = Some x \<longleftrightarrow> x \<in> set (cs @ [c]) \<and> comp_Tag x = t" for t x
    using assms by (auto simp: tagged_def) (metis option.distinct(1))+
  then show ?thesis using assms(1,4) by (simp add: tagged_def)
qed

lemma tagged_replace:
  assumes "tagged cs byTag" "byTag tag = Some old" "comp_Tag c = tag" "comp_ptr c \<notin> comp_ptr ` set cs"
  shows "tagged (drop_ptr old cs @ [c]) (byTag(tag \<mapsto> c))"
  using tagged_insert[OF tagged_remove[OF assms(1,2)], of tag c] assms(3,4) by (auto simp: drop_ptr_def)

section \<open>Properties of the managers\<close>

definition manager_ok :: "manager \<Rightarrow> bool" where
  "manager_ok m \<longleftrightarrow> tagged (m_items m) (m_byTag m)"

lemma log_events_simps [simp]:
  "m_items (log_events evs m) = m_items m" "m_byTag (log_events evs m) = m_byTag m"
  "m_started (log_events evs m) = m_started m" "m_events (log_events evs m) = m_events m @ evs"
  "manager_ok (log_events evs m) = manager_ok m"
  by (simp_all add: log_events_def manager_ok_def)

lemma manager_Start_keeps:
  "manager_ok m \<Longrightarrow> manager_ok (snd (manager_Start E kind skip stage m))"
  by (auto simp: manager_Start_def manager_ok_def Let_def split: prod.splits)

text \<open>\<open>Remove\<close> and \<open>Create\<close> on a manager whose list and map agree.\<close>

lemma manager_Remove_ok:
  assumes "manager_ok m" "m_byTag m tag = Some c"
  shows "manager_Remove E kind tag m =
    (let m' = m\<lparr>m_byTag := (m_byTag m)(tag := None), m_items := drop_ptr c (m_items m)\<rparr>
     in if m_started m then (Returned (comp_Close E (comp_ptr c)), log_events [EvClose (comp_ptr c)] m')
        else (Returned None, m'))"
  using assms by (auto simp: manager_Remove_def manager_ok_def call_Close_def Let_def elim!: tagged_lookup)

lemma manager_Remove_keeps:
  assumes "manager_ok m"
  shows "manager_ok (snd (manager_Remove E kind tag m)) \<and> (\<forall>msg. fst (manager_Remove E kind tag m) \<noteq> Panicked msg)"
proof (cases "m_byTag m tag")
  case None
  then show ?thesis using assms by (simp add: manager_Remove_def)
next
  case (Some c)
  then show ?thesis using manager_Remove_ok[OF assms Some, of E kind] tagged_remove[of "m_items m" "m_byTag m" tag c] assms
    by (auto simp: manager_ok_def Let_def)
qed

lemma manager_insert_keeps:
  assumes ok: "manager_ok m" and c: "comp_Tag c = tag" "comp_ptr c \<notin> comp_ptr ` set (m_items m)"
  shows "manager_ok (snd (manager_insert E kind tag c m)) \<and> (\<forall>msg. fst (manager_insert E kind tag c m) \<noteq> Panicked msg)"
proof (cases "m_byTag m tag")
  case None
  then show ?thesis using ok c tagged_insert[of "m_items m" "m_byTag m" tag c]
    by (simp add: manager_insert_def manager_ok_def)
next
  case (Some old)
  have tg: "tagged (m_items m) (m_byTag m)" using ok by (simp add: manager_ok_def)
  obtain i where i: "index_of old (m_items m) = Some i" "remove_index i (m_items m) = drop_ptr old (m_items m)"
    using tagged_lookup[OF tg Some] by blast
  then show ?thesis using Some ok tagged_replace[OF tg Some c]
    by (auto simp: manager_insert_def manager_ok_def call_Close_def Let_def split: option.splits)
qed

lemma manager_Create_keeps:
  assumes "manager_ok m" and "\<And>c. created = Inr c \<Longrightarrow> comp_Tag c = tag \<and> comp_ptr c \<notin> comp_ptr ` set (m_items m)"
  shows "manager_ok (snd (manager_Create E kind tag created m)) \<and>
    (\<forall>msg. fst (manager_Create E kind tag created m) \<noteq> Panicked msg)"
proof (cases created)
  case (Inr c)
  then show ?thesis using assms manager_insert_keeps[of "log_events _ m" c tag E kind]
    by (auto simp: manager_Create_def Let_def split: option.splits prod.splits)
qed (use assms(1) in \<open>simp add: manager_Create_def\<close>)

text \<open>Sequences of calls. The registry makes a new object on every call, with the tag it is given.\<close>

datatype manager_op =
    MStart startStage
  | MCreate string "component result"
  | MRemove string

fun run_manager_op ::
  "comp_env \<Rightarrow> string \<Rightarrow> startStage option \<Rightarrow> manager_op \<Rightarrow> manager \<Rightarrow> outcome \<times> manager" where
  "run_manager_op E kind skip (MStart stage) m = manager_Start E kind skip stage m"
| "run_manager_op E kind skip (MCreate tag created) m = manager_Create E kind tag created m"
| "run_manager_op E kind skip (MRemove tag) m = manager_Remove E kind tag m"

fun run_manager ::
  "comp_env \<Rightarrow> string \<Rightarrow> startStage option \<Rightarrow> manager_op list \<Rightarrow> manager \<Rightarrow> outcome list \<times> manager" where
  "run_manager E kind skip [] m = ([], m)"
| "run_manager E kind skip (x # ops) m =
     (let (r, m1) = run_manager_op E kind skip x m; (rs, m2) = run_manager E kind skip ops m1 in (r # rs, m2))"

fun created_ptrs :: "manager_op list \<Rightarrow> nat list" where
  "created_ptrs [] = []"
| "created_ptrs (MCreate tag (Inr c) # ops) = comp_ptr c # created_ptrs ops"
| "created_ptrs (_ # ops) = created_ptrs ops"

fun tags_agree :: "manager_op list \<Rightarrow> bool" where
  "tags_agree [] \<longleftrightarrow> True"
| "tags_agree (MCreate tag (Inr c) # ops) \<longleftrightarrow> comp_Tag c = tag \<and> tags_agree ops"
| "tags_agree (_ # ops) \<longleftrightarrow> tags_agree ops"

lemma in_remove_index: "x \<in> set (remove_index i xs) \<Longrightarrow> x \<in> set xs"
  by (auto simp: remove_index_def dest: in_set_takeD in_set_dropD)

lemma manager_items_ptrs:
  "comp_ptr ` set (m_items (snd (run_manager_op E kind skip x m))) \<subseteq> comp_ptr ` set (m_items m) \<union> set (created_ptrs [x])"
proof (cases x)
  case (MStart stage)
  then show ?thesis by (auto simp: manager_Start_def Let_def split: prod.splits)
next
  case (MCreate tag created)
  show ?thesis
  proof (cases created)
    case (Inr c)
    have "comp_ptr ` set (m_items (snd (manager_insert E kind tag c n))) \<subseteq> insert (comp_ptr c) (comp_ptr ` set (m_items n))" for n
      by (auto simp: manager_insert_def Let_def dest: in_remove_index split: option.splits prod.splits)
    from this[of "log_events _ m"] show ?thesis using MCreate Inr
      by (auto simp: manager_Create_def Let_def split: option.splits prod.splits if_splits)
  qed (simp add: MCreate manager_Create_def)
next
  case (MRemove tag)
  then show ?thesis
    by (auto simp: manager_Remove_def Let_def dest: in_remove_index split: option.splits prod.splits)
qed

lemma run_manager_op_ok:
  assumes ok: "manager_ok m" and "tags_agree [x]" "set (created_ptrs [x]) \<inter> comp_ptr ` set (m_items m) = {}"
  shows "manager_ok (snd (run_manager_op E kind skip x m))"
    "fst (run_manager_op E kind skip x m) \<noteq> Panicked (''invalid '' @ kind @ '' index'')"
proof -
  have "manager_ok (snd (run_manager_op E kind skip x m)) \<and>
    fst (run_manager_op E kind skip x m) \<noteq> Panicked (''invalid '' @ kind @ '' index'')"
  proof (cases x)
    case (MStart stage)
    then show ?thesis using manager_Start_keeps[OF ok]
      by (auto simp: manager_Start_def Let_def split: prod.splits)
  next
    case (MCreate tag created)
    have "comp_Tag c = tag \<and> comp_ptr c \<notin> comp_ptr ` set (m_items m)" if "created = Inr c" for c
      using assms(2,3) MCreate that by auto
    then show ?thesis using manager_Create_keeps[OF ok, of created tag E kind] MCreate by auto
  next
    case (MRemove tag)
    then show ?thesis using manager_Remove_keeps[OF ok, of E kind tag] by auto
  qed
  then show "manager_ok (snd (run_manager_op E kind skip x m))"
    "fst (run_manager_op E kind skip x m) \<noteq> Panicked (''invalid '' @ kind @ '' index'')" by auto
qed

lemma created_ptrs_Cons: "created_ptrs (x # ops) = created_ptrs [x] @ created_ptrs ops"
  by (cases x) (auto split: sum.splits, metis append_Cons append_Nil created_ptrs.simps(1,2,4) sum.exhaust)

lemma tags_agree_Cons: "tags_agree (x # ops) \<longleftrightarrow> tags_agree [x] \<and> tags_agree ops"
  by (cases x) (auto, (metis tags_agree.simps sum.exhaust)+)

lemma run_manager_ok:
  assumes "manager_ok m" "tags_agree ops" "distinct (created_ptrs ops)"
    "set (created_ptrs ops) \<inter> comp_ptr ` set (m_items m) = {}"
  shows "manager_ok (snd (run_manager E kind skip ops m)) \<and>
    Panicked (''invalid '' @ kind @ '' index'') \<notin> set (fst (run_manager E kind skip ops m))"
  using assms
proof (induction ops arbitrary: m)
  case (Cons x ops)
  let ?r = "run_manager_op E kind skip x m"
  have "tags_agree [x]" "tags_agree ops" "distinct (created_ptrs ops)"
    "set (created_ptrs [x]) \<inter> comp_ptr ` set (m_items m) = {}"
    using Cons.prems by (auto simp: tags_agree_Cons[of x ops] created_ptrs_Cons[of x ops] simp del: tags_agree.simps created_ptrs.simps)
  moreover have "set (created_ptrs [x]) \<inter> set (created_ptrs ops) = {}"
      "set (created_ptrs ops) \<inter> comp_ptr ` set (m_items m) = {}"
    using Cons.prems(3,4) by (auto simp: created_ptrs_Cons[of x ops] simp del: created_ptrs.simps)
  then have "set (created_ptrs ops) \<inter> comp_ptr ` set (m_items (snd ?r)) = {}"
    using manager_items_ptrs[of E kind skip x m] by blast
  ultimately have "manager_ok (snd ?r)" "fst ?r \<noteq> Panicked (''invalid '' @ kind @ '' index'')"
    "manager_ok (snd (run_manager E kind skip ops (snd ?r)))"
    "Panicked (''invalid '' @ kind @ '' index'') \<notin> set (fst (run_manager E kind skip ops (snd ?r)))"
    using run_manager_op_ok[OF Cons.prems(1)] Cons.IH by auto
  then show ?case by (auto simp: split_beta Let_def)
qed simp

section \<open>Properties\<close>

definition example_component :: "nat \<Rightarrow> string \<Rightarrow> component" where
  "example_component p tag = \<lparr>comp_ptr = p, comp_Type = ''mixed'', comp_Tag = tag, comp_Dependencies = []\<rparr>"

definition example_env :: comp_env where
  "example_env = \<lparr>isLifecycle = (\<lambda>_. True), Lifecycle_Start = (\<lambda>_ _. None), legacy_PreStart = (\<lambda>_. None),
     legacy_Start = (\<lambda>_. None), legacy_PostStart = (\<lambda>_. None), isCloser = (\<lambda>_. True), comp_Close = (\<lambda>_. None)\<rparr>"

definition example_ops :: "manager_op list" where
  "example_ops = [MCreate ''a'' (Inr (example_component 1 ''a'')), MStart StartStateInitialize,
     MCreate ''a'' (Inr (example_component 2 ''a'')), MRemove ''a'', MRemove ''a'']"

text \<open>C11. As long as a manager of inbounds, endpoints or services is not closed, no sequence of starts,
  creations, replacements and removals, failed ones included, reaches the panic on an invalid index, and
  the tags it answers are exactly those of the components it holds, one each.\<close>

theorem manager_never_loses_index:
  assumes "tags_agree ops" "distinct (created_ptrs ops)"
    and "(rs, m) = run_manager E kind skip ops manager_New"
  shows "Panicked (''invalid '' @ kind @ '' index'') \<notin> set rs \<and> distinct (map comp_ptr (m_items m)) \<and>
    (m_byTag m tag = Some c \<longleftrightarrow> c \<in> set (m_items m) \<and> comp_Tag c = tag)"
proof -
  have "manager_ok manager_New" "m_items manager_New = []" by (simp_all add: manager_ok_def manager_New_def)
  then have "manager_ok m \<and> Panicked (''invalid '' @ kind @ '' index'') \<notin> set rs"
    using run_manager_ok[where m = manager_New and ops = ops and kind = kind and E = E and skip = skip]
      assms(1,2) assms(3)[symmetric] by simp
  then show ?thesis by (simp add: manager_ok_def tagged_def)
qed

theorem manager_never_loses_index_witness:
  "Panicked ''invalid inbound index'' \<notin> set (fst (run_manager example_env ''inbound'' None example_ops manager_New)) \<and>
   m_byTag (snd (run_manager example_env ''inbound'' None example_ops manager_New)) ''a'' \<noteq> Some (example_component 2 ''a'')"
proof -
  have "tags_agree example_ops" "distinct (created_ptrs example_ops)" by code_simp+
  from manager_never_loses_index[OF this prod.collapse, where kind = "''inbound''"]
  have "Panicked ''invalid inbound index'' \<notin> set (fst (run_manager example_env ''inbound'' None example_ops manager_New))" by simp
  moreover have "m_byTag (snd (run_manager example_env ''inbound'' None example_ops manager_New)) ''a'' = None" by code_simp
  ultimately show ?thesis by simp
qed

text \<open>C12. After \<open>Close\<close> the manager still answers the tags of the components it no longer holds, and both
  removing such a tag and creating a component under it panic.\<close>

theorem manager_panics_after_Close:
  assumes "m_byTag m tag = Some old" "m_started m"
    and "m' = snd (Inbound_Close E m)"
  shows "Inbound_Get m' endpoint tag = Some old \<and> m_items m' = [] \<and>
    fst (Inbound_Remove E tag m') = Panicked ''invalid inbound index'' \<and>
    fst (Inbound_Create E tag (Inr c) m') = Panicked ''invalid inbound index''"
  using assms(1,2)
  by (simp add: assms(3) Inbound_Close_def Inbound_Get_def Inbound_Remove_def Inbound_Create_def manager_Close_def
      manager_Remove_def manager_Create_def manager_insert_def log_events_def)

theorem manager_panics_after_Close_witness:
  "fst (Inbound_Remove example_env ''a'' (snd (Inbound_Close example_env
     (snd (run_manager example_env ''inbound'' None (take 2 example_ops) manager_New))))) = Panicked ''invalid inbound index''"
proof -
  have "m_byTag (snd (run_manager example_env ''inbound'' None (take 2 example_ops) manager_New)) ''a''
      = Some (example_component 1 ''a'')"
    "m_started (snd (run_manager example_env ''inbound'' None (take 2 example_ops) manager_New))" by code_simp+
  then show ?thesis using manager_panics_after_Close by blast
qed

end
