(* ===== verification/Start_Order.thy ===== *)
theory Start_Order
  imports Lifecycle
begin

text \<open>
  The order in which outbounds and DNS transports are started (\<open>startOutbounds\<close> of
  \<open>adapter/outbound/manager.go\<close>, \<open>startTransports\<close> of \<open>dns/transport_manager.go\<close>): passes over the
  list that start what has all its dependencies started, until a pass starts nothing. The map
  \<open>started\<close> only ever gets keys that it does not have, so it is the list of its keys in the order
  they were added; its length is the length of the list.

  The two functions are the same but for the way a component is started and for their messages,
  which are arguments: \<open>start\<close> and \<open>kind\<close> below.
\<close>

section \<open>The passes\<close>

type_synonym starter = "component \<Rightarrow> error option \<times> event list"

record pass_state =
  ps_started :: "string list"
  ps_continue :: bool
  ps_events :: "event list"

fun start_pass :: "starter \<Rightarrow> component list \<Rightarrow> pass_state \<Rightarrow> error option \<times> pass_state" where
  "start_pass start [] s = (None, s)"
| "start_pass start (c # cs) s =
     (if comp_Tag c \<in> set (ps_started s) then start_pass start cs s
      else if \<exists>d \<in> set (comp_Dependencies c). d \<notin> set (ps_started s) then start_pass start cs s
      else let (r, evs) = start c;
               s1 = s\<lparr>ps_started := ps_started s @ [comp_Tag c], ps_continue := True, ps_events := ps_events s @ evs\<rparr>
           in case r of
                Some e \<Rightarrow> (Some e, s1)
              | None \<Rightarrow> start_pass start cs s1)"

text \<open>\<open>lintOutbound\<close>: follows the first dependency that is not started until a tag repeats or is
  unknown. \<open>common.Find\<close> gives the empty string when every dependency is started.\<close>

definition find_tag :: "(string \<Rightarrow> bool) \<Rightarrow> string list \<Rightarrow> string" where
  "find_tag P ts = (case List.find P ts of Some t \<Rightarrow> t | None \<Rightarrow> [])"

record lint_env =
  lint_kind :: string
  lint_item :: string
  lint_started :: "string list"
  lint_byTag :: "string \<rightharpoonup> component"

partial_function (option) lint :: "lint_env \<Rightarrow> string list \<Rightarrow> component \<Rightarrow> error option" where
  "lint L oTree oCurrent =
     (let problem = find_tag (\<lambda>t. t \<notin> set (lint_started L)) (comp_Dependencies oCurrent)
      in if problem \<in> set oTree
         then Some (ErrNew (''circular '' @ lint_kind L @ '' dependency: '' @ strings_Join oTree '' -> '' @ '' -> '' @ problem))
         else case lint_byTag L problem of
                None \<Rightarrow> Some (ErrNew (''dependency['' @ problem @ ''] not found for '' @ lint_item L @ ''['' @ comp_Tag oCurrent @ '']''))
              | Some c \<Rightarrow> lint L (oTree @ [problem]) c)"

text \<open>The loop around the passes. \<open>None\<close> is a run that does not end; the panic is the use of the nil
  component when every tag is started but the list is longer.\<close>

record order_result =
  or_outcome :: outcome
  or_started :: "string list"
  or_events :: "event list"

partial_function (option) start_loop ::
  "starter \<Rightarrow> string \<Rightarrow> string \<Rightarrow> (string \<rightharpoonup> component) \<Rightarrow> component list \<Rightarrow> string list \<Rightarrow> event list \<Rightarrow> order_result option" where
  "start_loop start kind it byTag cs started evs =
     (let (r, s) = start_pass start cs \<lparr>ps_started = started, ps_continue = False, ps_events = evs\<rparr>
      in case r of
           Some e \<Rightarrow> Some \<lparr>or_outcome = Returned (Some e), or_started = ps_started s, or_events = ps_events s\<rparr>
         | None \<Rightarrow>
             if length (ps_started s) = length cs
             then Some \<lparr>or_outcome = Returned None, or_started = ps_started s, or_events = ps_events s\<rparr>
             else if ps_continue s then start_loop start kind it byTag cs (ps_started s) (ps_events s)
             else case List.find (\<lambda>c. comp_Tag c \<notin> set (ps_started s)) cs of
                    None \<Rightarrow> Some \<lparr>or_outcome = Panicked ''invalid memory address or nil pointer dereference'',
                                  or_started = ps_started s, or_events = ps_events s\<rparr>
                  | Some c \<Rightarrow>
                      (case lint \<lparr>lint_kind = kind, lint_item = it, lint_started = ps_started s, lint_byTag = byTag\<rparr>
                          [comp_Tag c] c of
                         None \<Rightarrow> None
                       | Some e \<Rightarrow> Some \<lparr>or_outcome = Returned (Some e), or_started = ps_started s, or_events = ps_events s\<rparr>))"

definition start_in_order ::
  "starter \<Rightarrow> string \<Rightarrow> string \<Rightarrow> (string \<rightharpoonup> component) \<Rightarrow> component list \<Rightarrow> order_result option" where
  "start_in_order start kind it byTag cs = start_loop start kind it byTag cs [] []"

text \<open>How an outbound is started: \<open>Lifecycle\<close> first, then the legacy \<open>Start\<close>.\<close>

definition start_outbound :: "comp_env \<Rightarrow> starter" where
  "start_outbound E c =
     (let p = comp_ptr c; name = comp_name ''outbound'' c;
          (r, evs) = (if isLifecycle E p then (Lifecycle_Start E p StartStateStart, [EvStart p StartStateStart])
                      else call_legacy (legacy_Start E p) (EvStart p StartStateStart))
      in (case r of None \<Rightarrow> None | Some e \<Rightarrow> Some (ErrCause e (''start '' @ name)), evs))"

definition startOutbounds :: "comp_env \<Rightarrow> (string \<rightharpoonup> component) \<Rightarrow> component list \<Rightarrow> order_result option" where
  "startOutbounds E = start_in_order (start_outbound E) ''outbound'' ''outbound''"

text \<open>A DNS transport always implements \<open>Lifecycle\<close>, which its interface includes.\<close>

definition start_transport :: "comp_env \<Rightarrow> starter" where
  "start_transport E c =
     (case Lifecycle_Start E (comp_ptr c) StartStateStart of
        None \<Rightarrow> (None, [EvStart (comp_ptr c) StartStateStart])
      | Some e \<Rightarrow> (Some (ErrCause e (''start '' @ comp_name ''dns'' c)), [EvStart (comp_ptr c) StartStateStart]))"

definition startTransports :: "comp_env \<Rightarrow> (string \<rightharpoonup> component) \<Rightarrow> component list \<Rightarrow> order_result option" where
  "startTransports E = start_in_order (start_transport E) ''server'' ''server''"

section \<open>What a run starts\<close>

text \<open>\<open>run_order cs comps\<close>: the components \<open>comps\<close> of \<open>cs\<close> started one after the other, each one once and
  after everything it depends on.\<close>

definition run_order :: "component list \<Rightarrow> component list \<Rightarrow> bool" where
  "run_order cs comps \<longleftrightarrow> distinct (map comp_Tag comps) \<and> set comps \<subseteq> set cs \<and>
     (\<forall>i < length comps. set (comp_Dependencies (comps ! i)) \<subseteq> set (map comp_Tag (take i comps)))"

definition tracks :: "starter \<Rightarrow> component list \<Rightarrow> component list \<Rightarrow> string list \<Rightarrow> event list \<Rightarrow> bool" where
  "tracks start cs comps started evs \<longleftrightarrow>
     run_order cs comps \<and> started = map comp_Tag comps \<and> evs = concat (map (\<lambda>c. snd (start c)) comps)"

lemma run_order_Nil [simp]: "run_order cs []"
  by (simp add: run_order_def)

lemma tracks_Nil [simp]: "tracks start cs [] [] []"
  by (simp add: tracks_def)

lemma run_order_snoc:
  assumes "run_order cs comps" "c \<in> set cs" "comp_Tag c \<notin> set (map comp_Tag comps)"
    "set (comp_Dependencies c) \<subseteq> set (map comp_Tag comps)"
  shows "run_order cs (comps @ [c])"
  using assms by (auto simp: run_order_def nth_append less_Suc_eq)

lemma tracks_snoc:
  assumes "tracks start cs comps started evs" "c \<in> set cs" "comp_Tag c \<notin> set started"
    "\<forall>d \<in> set (comp_Dependencies c). d \<in> set started" "start c = (r, ev)"
  shows "tracks start cs (comps @ [c]) (started @ [comp_Tag c]) (evs @ ev)"
  using assms run_order_snoc[of cs comps c] by (auto simp: tracks_def)

lemma run_order_length:
  assumes "run_order cs comps"
  shows "length comps \<le> card (set (map comp_Tag cs))" "length comps \<le> length cs"
proof -
  have "length comps = card (set (map comp_Tag comps))" using assms by (metis distinct_card length_map run_order_def)
  also have "\<dots> \<le> card (set (map comp_Tag cs))" using assms by (intro card_mono) (auto simp: run_order_def)
  finally show "length comps \<le> card (set (map comp_Tag cs))" .
  then show "length comps \<le> length cs" using card_length[of "map comp_Tag cs"] by simp
qed

definition waiting :: "string list \<Rightarrow> component \<Rightarrow> bool" where
  "waiting started c \<longleftrightarrow> (\<exists>d \<in> set (comp_Dependencies c). d \<notin> set started)"

definition add_started :: "component \<Rightarrow> event list \<Rightarrow> pass_state \<Rightarrow> pass_state" where
  "add_started c ev s =
     s\<lparr>ps_started := ps_started s @ [comp_Tag c], ps_continue := True, ps_events := ps_events s @ ev\<rparr>"

lemma add_started_simps [simp]:
  "ps_started (add_started c ev s) = ps_started s @ [comp_Tag c]"
  "ps_continue (add_started c ev s)"
  "ps_events (add_started c ev s) = ps_events s @ ev"
  by (simp_all add: add_started_def)

lemma start_pass_Cons:
  "start_pass start (c # cs) s =
     (if comp_Tag c \<in> set (ps_started s) \<or> waiting (ps_started s) c then start_pass start cs s
      else case fst (start c) of
             Some e \<Rightarrow> (Some e, add_started c (snd (start c)) s)
           | None \<Rightarrow> start_pass start cs (add_started c (snd (start c)) s))"
  by (cases "start c") (auto simp: waiting_def add_started_def Let_def split: option.splits)

declare start_pass.simps(2) [simp del]

lemma start_pass_tracks:
  assumes "tracks start cs comps (ps_started s) (ps_events s)" "set xs \<subseteq> set cs" "start_pass start xs s = (r, s')"
  shows "\<exists>more. tracks start cs (comps @ more) (ps_started s') (ps_events s') \<and>
    (r = None \<longrightarrow> (\<forall>c \<in> set more. fst (start c) = None)) \<and>
    (\<forall>e. r = Some e \<longrightarrow> more \<noteq> [] \<and> fst (start (last more)) = Some e)"
  using assms
proof (induction xs arbitrary: s comps)
  case (Cons c xs)
  show ?case
  proof (cases "comp_Tag c \<in> set (ps_started s) \<or> waiting (ps_started s) c")
    case True
    then show ?thesis using Cons.IH[OF Cons.prems(1)] Cons.prems(2,3) by (simp add: start_pass_Cons)
  next
    case False
    let ?s1 = "add_started c (snd (start c)) s"
    have tr: "tracks start cs (comps @ [c]) (ps_started ?s1) (ps_events ?s1)"
      using tracks_snoc[OF Cons.prems(1), of c "fst (start c)" "snd (start c)"] False Cons.prems(2)
      by (auto simp: waiting_def)
    show ?thesis
    proof (cases "fst (start c)")
      case None
      then have "start_pass start xs ?s1 = (r, s')" using Cons.prems(3) False by (simp add: start_pass_Cons)
      then obtain more where "tracks start cs ((comps @ [c]) @ more) (ps_started s') (ps_events s')"
        "r = None \<longrightarrow> (\<forall>c \<in> set more. fst (start c) = None)"
        "\<forall>e. r = Some e \<longrightarrow> more \<noteq> [] \<and> fst (start (last more)) = Some e"
        using Cons.IH[OF tr] Cons.prems(2) by auto
      then show ?thesis using None by (intro exI[of _ "c # more"]) auto
    next
      case (Some e)
      then have "r = Some e" "s' = ?s1" using Cons.prems(3) False by (auto simp: start_pass_Cons)
      then show ?thesis using tr Some by (intro exI[of _ "[c]"]) simp
    qed
  qed
qed (auto intro!: exI[of _ "[]"])

lemma start_pass_grows:
  "start_pass start xs s = (r, s') \<Longrightarrow>
   (\<exists>more. ps_started s' = ps_started s @ more \<and> (ps_continue s' \<longleftrightarrow> ps_continue s \<or> more \<noteq> []))"
proof (induction xs arbitrary: s)
  case (Cons c xs)
  then show ?case
    by (fastforce simp: start_pass_Cons split: if_splits option.splits)
qed simp

text \<open>A pass that starts nothing leaves only components with a dependency that is not started.\<close>

lemma start_pass_stuck:
  assumes "start_pass start xs s = (r, s')" "ps_started s' = ps_started s" "c \<in> set xs"
  shows "comp_Tag c \<in> set (ps_started s) \<or> waiting (ps_started s) c"
  using assms
proof (induction xs)
  case (Cons x xs)
  show ?case
  proof (cases "comp_Tag x \<in> set (ps_started s) \<or> waiting (ps_started s) x")
    case True
    then show ?thesis using Cons by (auto simp: start_pass_Cons)
  next
    case False
    have "\<exists>more. ps_started s' = (ps_started s @ [comp_Tag x]) @ more"
      using Cons.prems(1) False start_pass_grows[of start xs "add_started x (snd (start x)) s" r s']
      by (cases "fst (start x)") (auto simp: start_pass_Cons)
    then show ?thesis using Cons.prems(2) by auto
  qed
qed simp

section \<open>The search for the problem ends\<close>

lemma lint_returns:
  assumes "finite (dom (lint_byTag L))"
  shows "\<exists>e. lint L oTree c = Some e"
proof (induction "card (dom (lint_byTag L) - set oTree)" arbitrary: oTree c rule: less_induct)
  case less
  define p where "p = find_tag (\<lambda>t. t \<notin> set (lint_started L)) (comp_Dependencies c)"
  show ?case
  proof (cases "p \<in> set oTree")
    case True
    then show ?thesis by (subst lint.simps) (simp add: p_def Let_def)
  next
    case False
    show ?thesis
    proof (cases "lint_byTag L p")
      case None
      then show ?thesis using False by (subst lint.simps) (simp add: p_def Let_def)
    next
      case (Some c')
      then have "card (dom (lint_byTag L) - set (oTree @ [p])) < card (dom (lint_byTag L) - set oTree)"
        using False assms by (intro psubset_card_mono) auto
      from less[OF this, of c'] show ?thesis
        using Some False by (subst lint.simps) (simp add: p_def Let_def)
    qed
  qed
qed

text \<open>What the message of the search names: a chain of dependencies that are not started, which
  either comes back to itself or leads to a tag that does not exist.\<close>

definition needs :: "lint_env \<Rightarrow> string \<Rightarrow> string \<Rightarrow> bool" where
  "needs L t u \<longleftrightarrow> (\<exists>c. lint_byTag L t = Some c \<and> u \<in> set (comp_Dependencies c) \<and> u \<notin> set (lint_started L))"

definition need_chain :: "lint_env \<Rightarrow> string list \<Rightarrow> bool" where
  "need_chain L ts \<longleftrightarrow> (\<forall>i. Suc i < length ts \<longrightarrow> needs L (ts ! i) (ts ! Suc i))"

definition lint_verdict :: "lint_env \<Rightarrow> error \<Rightarrow> bool" where
  "lint_verdict L e \<longleftrightarrow>
     (\<exists>ts p. ts \<noteq> [] \<and> need_chain L (ts @ [p]) \<and>
        (p \<in> set ts \<and> e = ErrNew (''circular '' @ lint_kind L @ '' dependency: '' @ strings_Join ts '' -> '' @ '' -> '' @ p) \<or>
         lint_byTag L p = None \<and> e = ErrNew (''dependency['' @ p @ ''] not found for '' @ lint_item L @ ''['' @ last ts @ '']'')))"

lemma need_chain_snoc:
  assumes "need_chain L ts" "ts \<noteq> []" "needs L (last ts) u"
  shows "need_chain L (ts @ [u])"
  using assms by (auto simp: need_chain_def nth_append last_conv_nth less_Suc_eq)
    (metis Suc_pred diff_Suc_1 length_greater_0_conv less_antisym)

lemma lint_verdict:
  assumes "finite (dom (lint_byTag L))"
    and waits: "\<And>t c. lint_byTag L t = Some c \<Longrightarrow> t \<notin> set (lint_started L) \<Longrightarrow> comp_Tag c = t \<and> waiting (lint_started L) c"
    and "lint L oTree c = Some e" "oTree \<noteq> []" "last oTree = comp_Tag c" "need_chain L oTree"
    and "lint_byTag L (comp_Tag c) = Some c" "comp_Tag c \<notin> set (lint_started L)"
  shows "lint_verdict L e"
  using assms(3-8)
proof (induction "card (dom (lint_byTag L) - set oTree)" arbitrary: oTree c rule: less_induct)
  case less
  define p where "p = find_tag (\<lambda>t. t \<notin> set (lint_started L)) (comp_Dependencies c)"
  have "waiting (lint_started L) c" using waits less.prems(5,6) by blast
  then obtain x where x: "List.find (\<lambda>t. t \<notin> set (lint_started L)) (comp_Dependencies c) = Some x"
    by (metis waiting_def find_None_iff not_None_eq)
  then have "p = x" by (simp add: p_def find_tag_def)
  then have p: "p \<in> set (comp_Dependencies c)" "p \<notin> set (lint_started L)"
    using x by (auto simp: find_Some_iff)
  then have "needs L (last oTree) p" using less.prems(3,5) by (auto simp: needs_def)
  then have chain: "need_chain L (oTree @ [p])" using need_chain_snoc less.prems(2,4) by blast
  show ?case
  proof (cases "p \<in> set oTree")
    case True
    then have "e = ErrNew (''circular '' @ lint_kind L @ '' dependency: '' @ strings_Join oTree '' -> '' @ '' -> '' @ p)"
      using less.prems(1) by (subst (asm) lint.simps) (simp add: p_def Let_def)
    then show ?thesis using chain True less.prems(2) unfolding lint_verdict_def by blast
  next
    case False
    show ?thesis
    proof (cases "lint_byTag L p")
      case None
      then have "e = ErrNew (''dependency['' @ p @ ''] not found for '' @ lint_item L @ ''['' @ last oTree @ '']'')"
        using less.prems(1,3) False by (subst (asm) lint.simps) (simp add: p_def Let_def)
      then show ?thesis using chain None less.prems(2) unfolding lint_verdict_def by blast
    next
      case (Some c')
      then have smaller: "card (dom (lint_byTag L) - set (oTree @ [p])) < card (dom (lint_byTag L) - set oTree)"
        using False assms(1) by (intro psubset_card_mono) auto
      have rec: "lint L (oTree @ [p]) c' = Some e"
        using less.prems(1) False Some by (subst (asm) lint.simps) (simp add: p_def Let_def)
      have "comp_Tag c' = p" using waits[OF Some p(2)] by simp
      then show ?thesis using less.hyps[OF smaller rec] chain Some p(2) by simp
    qed
  qed
qed

section \<open>How a run ends\<close>

definition loop_end :: "starter \<Rightarrow> string \<Rightarrow> string \<Rightarrow> (string \<rightharpoonup> component) \<Rightarrow> component list \<Rightarrow> component list \<Rightarrow> order_result \<Rightarrow> bool" where
  "loop_end start kind it byTag cs comps r \<longleftrightarrow>
     (\<exists>e c. or_outcome r = Returned (Some e) \<and> c \<in> set comps \<and> fst (start c) = Some e) \<or>
     (or_outcome r = Returned None \<and> length (or_started r) = length cs \<and> (\<forall>c \<in> set comps. fst (start c) = None)) \<or>
     (length (or_started r) \<noteq> length cs \<and> (\<forall>c \<in> set cs. comp_Tag c \<in> set (or_started r) \<or> waiting (or_started r) c) \<and>
      (case List.find (\<lambda>c. comp_Tag c \<notin> set (or_started r)) cs of
         None \<Rightarrow> or_outcome r = Panicked ''invalid memory address or nil pointer dereference''
       | Some c \<Rightarrow> \<exists>e. or_outcome r = Returned (Some e) \<and>
           lint \<lparr>lint_kind = kind, lint_item = it, lint_started = or_started r, lint_byTag = byTag\<rparr> [comp_Tag c] c = Some e))"

lemma start_loop_ends:
  assumes fin: "finite (dom byTag)"
    and "tracks start cs comps started evs" "\<forall>c \<in> set comps. fst (start c) = None"
  shows "\<exists>r comps'. start_loop start kind it byTag cs started evs = Some r \<and>
    tracks start cs comps' (or_started r) (or_events r) \<and> loop_end start kind it byTag cs comps' r"
  using assms(2,3)
proof (induction "length cs - length started" arbitrary: comps started evs rule: less_induct)
  case less
  let ?s = "\<lparr>ps_started = started, ps_continue = False, ps_events = evs\<rparr>"
  obtain r s' where pass: "start_pass start cs ?s = (r, s')" by (cases "start_pass start cs ?s")
  obtain more where tr: "tracks start cs (comps @ more) (ps_started s') (ps_events s')"
    and ok: "r = None \<longrightarrow> (\<forall>c \<in> set more. fst (start c) = None)"
    and bad: "\<forall>e. r = Some e \<longrightarrow> more \<noteq> [] \<and> fst (start (last more)) = Some e"
    using start_pass_tracks[OF _ _ pass, of cs comps] less.prems(1) by auto
  have len: "length (ps_started s') \<le> length cs" using tr run_order_length(2)[of cs "comps @ more"] by (simp add: tracks_def)
  obtain new where grow: "ps_started s' = started @ new" "ps_continue s' \<longleftrightarrow> new \<noteq> []"
    using start_pass_grows[OF pass] by auto
  note step = start_loop.simps[of start kind it byTag cs started evs]
  show ?case
  proof (cases r)
    case (Some e)
    then have "start_loop start kind it byTag cs started evs =
        Some \<lparr>or_outcome = Returned (Some e), or_started = ps_started s', or_events = ps_events s'\<rparr>"
      using step pass by simp
    moreover have "last more \<in> set (comps @ more)" "fst (start (last more)) = Some e" using bad Some by auto
    ultimately show ?thesis using tr unfolding loop_end_def by fastforce
  next
    case None
    have all_ok: "\<forall>c \<in> set (comps @ more). fst (start c) = None" using ok None less.prems(2) by auto
    consider (fin) "length (ps_started s') = length cs"
      | (go) "length (ps_started s') \<noteq> length cs" "new \<noteq> []"
      | (stuck) "length (ps_started s') \<noteq> length cs" "new = []" by blast
    then show ?thesis
    proof cases
      case fin
      then show ?thesis using step pass None tr all_ok unfolding loop_end_def by fastforce
    next
      case go
      then have "0 < length new" by simp
      then have "length cs - length (ps_started s') < length cs - length started" using len grow(1) by (simp del: length_greater_0_conv)
      from less.hyps[OF this tr all_ok] show ?thesis using step pass None go grow(2) by simp
    next
      case stuck
      then have st: "\<forall>c \<in> set cs. comp_Tag c \<in> set (ps_started s') \<or> waiting (ps_started s') c"
        using start_pass_stuck[OF pass] grow(1) by auto
      let ?L = "\<lparr>lint_kind = kind, lint_item = it, lint_started = ps_started s', lint_byTag = byTag\<rparr>"
      show ?thesis
      proof (cases "List.find (\<lambda>c. comp_Tag c \<notin> set (ps_started s')) cs")
        case None2: None
        then show ?thesis using step pass None stuck grow(2) tr st unfolding loop_end_def by fastforce
      next
        case (Some c)
        obtain e where e: "lint ?L [comp_Tag c] c = Some e" using lint_returns[of ?L] fin by auto
        let ?r = "\<lparr>or_outcome = Returned (Some e), or_started = ps_started s', or_events = ps_events s'\<rparr>"
        have "start_loop start kind it byTag cs started evs = Some ?r"
          using step pass None stuck grow(2) Some e by simp
        moreover have "loop_end start kind it byTag cs (comps @ more) ?r"
          using Some e stuck(1) st unfolding loop_end_def by simp
        ultimately show ?thesis using tr by auto
      qed
    qed
  qed
qed

text \<open>A list of components can be started when its dependencies stay within it and can be ranked.\<close>

definition startable :: "component list \<Rightarrow> bool" where
  "startable cs \<longleftrightarrow> (\<exists>rank :: string \<Rightarrow> nat. \<forall>c \<in> set cs. \<forall>d \<in> set (comp_Dependencies c).
     d \<in> set (map comp_Tag cs) \<and> rank d < rank (comp_Tag c))"

lemma run_order_startable:
  assumes ord: "run_order cs comps" and len: "length comps = length cs" and d: "distinct (map comp_Tag cs)"
  shows "startable cs"
proof -
  have "card (set comps) = length comps" using ord by (metis distinct_card distinct_map run_order_def)
  moreover have "card (set cs) = length cs" using d by (metis distinct_card distinct_map)
  ultimately have same: "set comps = set cs"
    using ord len by (metis card_subset_eq finite_set run_order_def)
  define rank where "rank t = (LEAST i. i < length comps \<and> comp_Tag (comps ! i) = t)" for t
  have inj: "i = j" if "i < length comps" "j < length comps" "comp_Tag (comps ! i) = comp_Tag (comps ! j)" for i j
    using that ord nth_eq_iff_index_eq[of "map comp_Tag comps" i j] by (simp add: run_order_def)
  have rank: "rank (comp_Tag (comps ! i)) = i" if "i < length comps" for i
    unfolding rank_def using that inj by (intro Least_equality) auto
  show ?thesis unfolding startable_def
  proof (intro exI[of _ rank] ballI conjI)
    fix c t assume c: "c \<in> set cs" and t: "t \<in> set (comp_Dependencies c)"
    obtain i where i: "i < length comps" "c = comps ! i" using c same by (metis in_set_conv_nth)
    then have "t \<in> set (map comp_Tag (take i comps))" using t ord by (auto simp: run_order_def)
    then obtain j where j: "j < i" "comp_Tag (comps ! j) = t" by (auto simp: in_set_conv_nth)
    show "t \<in> set (map comp_Tag cs)" using j i same by (metis image_set image_eqI nth_mem order_less_trans)
    show "rank t < rank (comp_Tag c)" using rank[of i] rank[of j] i j by auto
  qed
qed

lemma stuck_not_startable:
  assumes stuck: "\<forall>c \<in> set cs. comp_Tag c \<in> set started \<or> waiting started c"
    and c: "c \<in> set cs" "comp_Tag c \<notin> set started"
  shows "\<not> startable cs"
proof
  assume "startable cs"
  then obtain rank :: "string \<Rightarrow> nat" where rank: "\<And>c d. c \<in> set cs \<Longrightarrow> d \<in> set (comp_Dependencies c) \<Longrightarrow>
      d \<in> set (map comp_Tag cs) \<and> rank d < rank (comp_Tag c)" unfolding startable_def by blast
  have "c \<in> set cs \<Longrightarrow> comp_Tag c \<in> set started" for c
  proof (induction "rank (comp_Tag c)" arbitrary: c rule: less_induct)
    case less
    show ?case
    proof (rule ccontr)
      assume "comp_Tag c \<notin> set started"
      then have "waiting started c" using stuck less.prems by blast
      then obtain d where d: "d \<in> set (comp_Dependencies c)" "d \<notin> set started" by (auto simp: waiting_def)
      obtain c' where "c' \<in> set cs" "comp_Tag c' = d" "rank d < rank (comp_Tag c)"
        using rank[OF less.prems d(1)] by auto
      then show False using less.hyps[of c'] d(2) by simp
    qed
  qed
  then show False using c by blast
qed

lemma unstarted_exists:
  assumes "distinct (map comp_Tag cs)" "run_order cs comps" "length comps \<noteq> length cs"
  shows "\<exists>c \<in> set cs. comp_Tag c \<notin> set (map comp_Tag comps)"
proof (rule ccontr)
  assume "\<not> ?thesis"
  then have "set (map comp_Tag cs) \<subseteq> set (map comp_Tag comps)" by auto
  then have "card (set (map comp_Tag cs)) \<le> card (set (map comp_Tag comps))" by (intro card_mono) auto
  moreover have "card (set (map comp_Tag cs)) = length cs" "card (set (map comp_Tag comps)) = length comps"
    using assms(1,2) by (metis distinct_card length_map, metis distinct_card length_map run_order_def)
  ultimately show False using run_order_length(2)[OF assms(2)] assms(3) by simp
qed

lemma order_success_iff:
  assumes fin: "finite (dom byTag)" and d: "distinct (map comp_Tag cs)"
    and ok: "\<And>c. c \<in> set cs \<Longrightarrow> fst (start c) = None"
  shows "\<exists>r comps. start_in_order start kind it byTag cs = Some r \<and> tracks start cs comps (or_started r) (or_events r) \<and>
    (if startable cs then or_outcome r = Returned None \<and> set (or_started r) = set (map comp_Tag cs)
     else \<exists>c e. List.find (\<lambda>c. comp_Tag c \<notin> set (or_started r)) cs = Some c \<and> or_outcome r = Returned (Some e) \<and>
       (\<forall>c \<in> set cs. comp_Tag c \<in> set (or_started r) \<or> waiting (or_started r) c) \<and>
       lint \<lparr>lint_kind = kind, lint_item = it, lint_started = or_started r, lint_byTag = byTag\<rparr> [comp_Tag c] c = Some e)"
proof -
  obtain r comps where r: "start_in_order start kind it byTag cs = Some r"
    and tr: "tracks start cs comps (or_started r) (or_events r)" and le: "loop_end start kind it byTag cs comps r"
    using start_loop_ends[OF fin, of start cs "[]" "[]" "[]" kind it] by (auto simp: start_in_order_def)
  have ord: "run_order cs comps" and st: "or_started r = map comp_Tag comps" using tr by (auto simp: tracks_def)
  have noerr: "\<not> (\<exists>e c. or_outcome r = Returned (Some e) \<and> c \<in> set comps \<and> fst (start c) = Some e)"
    using ok ord by (auto simp: run_order_def)
  show ?thesis
  proof (cases "length (or_started r) = length cs")
    case True
    then have "startable cs" using run_order_startable[OF ord _ d] st by simp
    moreover have "set (or_started r) = set (map comp_Tag cs)"
      using ord d True st by (metis card_subset_eq distinct_card finite_set image_mono length_map run_order_def set_map)
    moreover have "or_outcome r = Returned None" using le noerr True by (auto simp: loop_end_def)
    ultimately show ?thesis using r tr by auto
  next
    case False
    then obtain c where "c \<in> set cs" "comp_Tag c \<notin> set (or_started r)"
      using unstarted_exists[OF d ord] st by auto
    then obtain c' where c': "List.find (\<lambda>c. comp_Tag c \<notin> set (or_started r)) cs = Some c'"
      by (metis (mono_tags, lifting) find_None_iff not_None_eq)
    have stuck: "\<forall>c \<in> set cs. comp_Tag c \<in> set (or_started r) \<or> waiting (or_started r) c"
      using le noerr False by (auto simp: loop_end_def)
    then have "\<not> startable cs" using stuck_not_startable \<open>c \<in> set cs\<close> \<open>comp_Tag c \<notin> _\<close> by blast
    moreover have "\<exists>e. or_outcome r = Returned (Some e) \<and>
        lint \<lparr>lint_kind = kind, lint_item = it, lint_started = or_started r, lint_byTag = byTag\<rparr> [comp_Tag c'] c' = Some e"
      using le noerr False c' unfolding loop_end_def by auto
    ultimately show ?thesis using r tr c' stuck by auto
  qed
qed

lemma tagged_finite:
  assumes "tagged cs byTag"
  shows "finite (dom byTag)" "distinct (map comp_Tag cs)"
proof -
  have "dom byTag \<subseteq> comp_Tag ` set cs" using assms by (auto simp: tagged_def)
  then show "finite (dom byTag)" by (rule finite_subset) simp
  have "distinct cs" using assms by (auto simp: tagged_def distinct_map)
  moreover have "inj_on comp_Tag (set cs)"
    using tagged_tag_inj[OF assms] by (intro inj_onI) (metis option.inject)
  ultimately show "distinct (map comp_Tag cs)" by (simp add: distinct_map)
qed

section \<open>Properties\<close>

definition example_chain :: "component list" where
  "example_chain = [\<lparr>comp_ptr = 1, comp_Type = ''urltest'', comp_Tag = ''auto'', comp_Dependencies = [''a'', ''b'']\<rparr>,
     \<lparr>comp_ptr = 2, comp_Type = ''vless'', comp_Tag = ''a'', comp_Dependencies = [''b'']\<rparr>,
     \<lparr>comp_ptr = 3, comp_Type = ''vless'', comp_Tag = ''b'', comp_Dependencies = []\<rparr>]"

definition example_cycle :: "component list" where
  "example_cycle = [\<lparr>comp_ptr = 1, comp_Type = ''tls'', comp_Tag = ''a'', comp_Dependencies = [''b'']\<rparr>,
     \<lparr>comp_ptr = 2, comp_Type = ''tls'', comp_Tag = ''b'', comp_Dependencies = [''a'']\<rparr>]"

definition byTag_of :: "component list \<Rightarrow> string \<rightharpoonup> component" where
  "byTag_of cs t = List.find (\<lambda>c. comp_Tag c = t) cs"

lemma finite_byTag_of: "finite (dom (byTag_of cs))"
  by (rule finite_subset[of _ "comp_Tag ` set cs"]) (auto simp: byTag_of_def find_Some_iff)

text \<open>C13. Starting the outbounds always comes to an end, whatever their dependencies, and in every
  run, failed ones included, an outbound is started at most once and only after all the outbounds it
  depends on.\<close>

theorem startOutbounds_ordered:
  assumes "finite (dom byTag)"
  shows "\<exists>r comps. startOutbounds E byTag cs = Some r \<and> run_order cs comps \<and> or_started r = map comp_Tag comps \<and>
    or_events r = concat (map (\<lambda>c. snd (start_outbound E c)) comps)"
  using start_loop_ends[OF assms, of "start_outbound E" cs "[]" "[]" "[]"]
  by (fastforce simp: startOutbounds_def start_in_order_def tracks_def)

theorem startOutbounds_ordered_witness:
  "\<exists>r comps. startOutbounds example_env (byTag_of example_cycle) example_cycle = Some r \<and> run_order example_cycle comps \<and>
    or_started r = map comp_Tag comps"
  using startOutbounds_ordered[OF finite_byTag_of, of example_env example_cycle example_cycle] by blast

text \<open>C14. When no outbound fails to start, starting them succeeds, with all of them started, exactly
  when every dependency is one of them and the dependencies have no cycle.\<close>

theorem startOutbounds_complete:
  assumes "finite (dom byTag)" "distinct (map comp_Tag cs)" "\<forall>c \<in> set cs. fst (start_outbound E c) = None"
  shows "(\<exists>r. startOutbounds E byTag cs = Some r \<and> or_outcome r = Returned None \<and>
      set (or_started r) = set (map comp_Tag cs)) \<longleftrightarrow> startable cs"
  using order_success_iff[OF assms(1,2), of "start_outbound E" "''outbound''" "''outbound''"] assms(3)
  by (auto simp: startOutbounds_def split: if_splits)

theorem startOutbounds_complete_witness:
  "\<exists>r. startOutbounds example_env (byTag_of example_chain) example_chain = Some r \<and> or_outcome r = Returned None \<and>
      set (or_started r) = set (map comp_Tag example_chain)"
proof -
  have "distinct (map comp_Tag example_chain)" "\<forall>c \<in> set example_chain. fst (start_outbound example_env c) = None"
    by code_simp+
  moreover have "startable example_chain"
    unfolding startable_def
    by (rule exI[of _ "\<lambda>t. if t = ''b'' then 0 else if t = ''a'' then 1 else 2"]) (simp add: example_chain_def)
  ultimately show ?thesis using startOutbounds_complete[OF finite_byTag_of] by blast
qed

text \<open>C15. When the DNS servers cannot all be started, and none of them failed by itself, the error that
  is returned is right: it names a chain of servers, each depending on the next one, that comes back
  to itself, or it names a dependency that does not exist and the server that has it.\<close>

theorem startTransports_names_problem:
  assumes "tagged cs byTag" "\<forall>c \<in> set cs. fst (start_transport E c) = None" "\<not> startable cs"
  shows "\<exists>r e. startTransports E byTag cs = Some r \<and> or_outcome r = Returned (Some e) \<and>
    lint_verdict \<lparr>lint_kind = ''server'', lint_item = ''server'', lint_started = or_started r, lint_byTag = byTag\<rparr> e"
proof -
  note fin = tagged_finite[OF assms(1)]
  obtain r comps c e where r: "startTransports E byTag cs = Some r" "or_outcome r = Returned (Some e)"
    and tr: "tracks (start_transport E) cs comps (or_started r) (or_events r)"
    and c: "List.find (\<lambda>c. comp_Tag c \<notin> set (or_started r)) cs = Some c"
    and stuck: "\<forall>c \<in> set cs. comp_Tag c \<in> set (or_started r) \<or> waiting (or_started r) c"
    and lint: "lint \<lparr>lint_kind = ''server'', lint_item = ''server'', lint_started = or_started r, lint_byTag = byTag\<rparr>
      [comp_Tag c] c = Some e"
    using order_success_iff[OF fin, of "start_transport E" "''server''" "''server''"] assms(2,3)
    by (auto simp: startTransports_def)
  have "c \<in> set cs" "comp_Tag c \<notin> set (or_started r)" using c by (auto simp: find_Some_iff)
  moreover have "comp_Tag c' = t \<and> waiting (or_started r) c'" if "byTag t = Some c'" "t \<notin> set (or_started r)" for t c'
    using that assms(1) stuck by (auto simp: tagged_def)
  ultimately show ?thesis
    using lint_verdict[OF _ _ lint] fin(1) r tagged_tag_inj[OF assms(1)] by (simp add: need_chain_def)
qed

theorem startTransports_names_problem_witness:
  "\<exists>r e. startTransports example_env (byTag_of example_cycle) example_cycle = Some r \<and> or_outcome r = Returned (Some e)"
proof -
  have "tagged example_cycle (byTag_of example_cycle)"
    by (auto simp: tagged_def example_cycle_def byTag_of_def split: if_splits)
  moreover have "\<forall>c \<in> set example_cycle. fst (start_transport example_env c) = None" by code_simp
  moreover have "\<not> startable example_cycle"
    unfolding startable_def example_cycle_def by (auto dest: less_trans)
  ultimately show ?thesis using startTransports_names_problem by blast
qed

end
