(* ===== verification/Outbound_Manager.thy ===== *)
theory Outbound_Manager
  imports Start_Order
begin

text \<open>
  The outbound manager (\<open>adapter/outbound/manager.go\<close>): the list and the map of outbounds, who
  depends on whom, and the default outbound. The state of the endpoint manager and what the
  registry and the fallback constructor return are arguments; a run of \<open>Start\<close> that would not
  return is \<open>None\<close>.
\<close>

section \<open>State and operations\<close>

record outbound_manager =
  om_defaultTag :: string
  om_started :: bool
  om_stage :: startStage
  outbounds :: "component list"
  outboundByTag :: "string \<rightharpoonup> component"
  dependByTag :: "string \<rightharpoonup> string list"
  defaultOutbound :: "component option"
  om_events :: "event list"

definition outbound_NewManager :: "string \<Rightarrow> outbound_manager" where
  "outbound_NewManager defaultTag =
     \<lparr>om_defaultTag = defaultTag, om_started = False, om_stage = StartStateInitialize, outbounds = [],
      outboundByTag = Map.empty, dependByTag = Map.empty, defaultOutbound = None, om_events = []\<rparr>"

definition om_log :: "event list \<Rightarrow> outbound_manager \<Rightarrow> outbound_manager" where
  "om_log evs m = m\<lparr>om_events := om_events m @ evs\<rparr>"

text \<open>Reading a Go map of slices: a missing key reads as nil.\<close>

definition slice_at :: "('k \<rightharpoonup> 'v list) \<Rightarrow> 'k \<Rightarrow> 'v list" where
  "slice_at m k = (case m k of None \<Rightarrow> [] | Some vs \<Rightarrow> vs)"

definition find_default :: "manager \<Rightarrow> component result \<Rightarrow> outbound_manager \<Rightarrow> error option \<times> outbound_manager" where
  "find_default endpoint fallback m =
     (case (if om_defaultTag m \<noteq> [] \<and> defaultOutbound m = None
            then (case Endpoint_Get endpoint (om_defaultTag m) of
                    None \<Rightarrow> Inl (ErrNew (''default outbound not found: '' @ om_defaultTag m))
                  | Some defaultEndpoint \<Rightarrow> Inr (m\<lparr>defaultOutbound := Some defaultEndpoint\<rparr>))
            else Inr m) of
        Inl e \<Rightarrow> (Some e, m)
      | Inr m1 \<Rightarrow>
          if defaultOutbound m1 = None
          then (case fallback of
                  Inl e \<Rightarrow> (Some (ErrCause e ''create direct outbound for fallback''), m1)
                | Inr directOutbound \<Rightarrow>
                    (None, m1\<lparr>outbounds := outbounds m1 @ [directOutbound],
                              outboundByTag := (outboundByTag m1)(comp_Tag directOutbound \<mapsto> directOutbound),
                              defaultOutbound := Some directOutbound\<rparr>))
          else (None, m1))"

definition Outbound_Start ::
  "comp_env \<Rightarrow> manager \<Rightarrow> component result \<Rightarrow> startStage \<Rightarrow> outbound_manager \<Rightarrow> (outcome \<times> outbound_manager) option" where
  "Outbound_Start E endpoint fallback stage m =
     (if om_started m \<and> stage_number (om_stage m) \<ge> stage_number stage then Some (Panicked ''already started'', m)
      else
        let m1 = m\<lparr>om_started := True, om_stage := stage\<rparr>;
            (r, m2) = (if stage = StartStateInitialize then find_default endpoint fallback m1 else (None, m1))
        in case r of
             Some e \<Rightarrow> Some (Returned (Some e), m2)
           | None \<Rightarrow>
               if stage = StartStateStart
               then map_option (\<lambda>res. (or_outcome res, om_log (or_events res) m2))
                      (startOutbounds E (outboundByTag m2) (outbounds m2 @ m_items endpoint))
               else let (r, evs) = start_components E ''outbound'' stage (outbounds m2)
                    in Some (Returned r, om_log evs m2))"

definition Outbound_Close :: "comp_env \<Rightarrow> outbound_manager \<Rightarrow> outcome \<times> outbound_manager" where
  "Outbound_Close E m =
     (if \<not> om_started m then (Returned None, m)
      else (Returned None, om_log (close_all (close_component E) (outbounds m)) (m\<lparr>om_started := False, outbounds := []\<rparr>)))"

definition Outbound_lookup :: "outbound_manager \<Rightarrow> manager \<Rightarrow> string \<Rightarrow> component option" where
  "Outbound_lookup m endpoint tag =
     (case outboundByTag m tag of Some c \<Rightarrow> Some c | None \<Rightarrow> Endpoint_Get endpoint tag)"

text \<open>The comparison \<open>m.defaultOutbound == outbound\<close> compares pointers.\<close>

definition same_object :: "component option \<Rightarrow> component \<Rightarrow> bool" where
  "same_object x c = (case x of None \<Rightarrow> False | Some y \<Rightarrow> comp_ptr y = comp_ptr c)"

fun drop_dependencies :: "string \<Rightarrow> string list \<Rightarrow> (string \<rightharpoonup> string list) \<Rightarrow> (string \<rightharpoonup> string list)" where
  "drop_dependencies tag [] dep = dep"
| "drop_dependencies tag (d # ds) dep =
     drop_dependencies tag ds
       (if length (slice_at dep d) = 1 then dep(d := None)
        else dep(d \<mapsto> filter (\<lambda>it. it \<noteq> tag) (slice_at dep d)))"

fun add_dependencies :: "string \<Rightarrow> string list \<Rightarrow> (string \<rightharpoonup> string list) \<Rightarrow> (string \<rightharpoonup> string list)" where
  "add_dependencies tag [] dep = dep"
| "add_dependencies tag (d # ds) dep = add_dependencies tag ds (dep(d \<mapsto> slice_at dep d @ [tag]))"

definition Outbound_Remove :: "comp_env \<Rightarrow> string \<Rightarrow> outbound_manager \<Rightarrow> outcome \<times> outbound_manager" where
  "Outbound_Remove E tag m =
     (case outboundByTag m tag of
        None \<Rightarrow> (Returned (Some os_ErrInvalid), m)
      | Some c \<Rightarrow>
          let m1 = m\<lparr>outboundByTag := (outboundByTag m)(tag := None)\<rparr>
          in case index_of c (outbounds m1) of
               None \<Rightarrow> (Panicked ''invalid inbound index'', m1)
             | Some i \<Rightarrow>
                 let m2 = m1\<lparr>outbounds := remove_index i (outbounds m1)\<rparr>;
                     m3 = (if same_object (defaultOutbound m2) c
                           then m2\<lparr>defaultOutbound := (case outbounds m2 of [] \<Rightarrow> None | x # _ \<Rightarrow> Some x)\<rparr>
                           else m2);
                     dependBy = slice_at (dependByTag m3) tag
                 in if dependBy \<noteq> []
                    then (Returned (Some (ErrNew (''outbound['' @ tag @ ''] is depended by '' @ strings_Join dependBy '', ''))), m3)
                    else
                      let m4 = m3\<lparr>dependByTag := drop_dependencies tag (comp_Dependencies c) (dependByTag m3)\<rparr>
                      in if om_started m4 then let (r, evs) = close_component E c in (Returned r, om_log evs m4)
                         else (Returned None, m4))"

definition Outbound_add :: "string \<Rightarrow> component \<Rightarrow> outbound_manager \<Rightarrow> outbound_manager" where
  "Outbound_add tag c m =
     (let m1 = m\<lparr>outbounds := outbounds m @ [c], outboundByTag := (outboundByTag m)(tag \<mapsto> c),
                 dependByTag := add_dependencies tag (comp_Dependencies c) (dependByTag m)\<rparr>
      in if tag = om_defaultTag m1 \<or> om_defaultTag m1 = [] \<and> defaultOutbound m1 = None
         then m1\<lparr>defaultOutbound := Some c\<rparr> else m1)"

definition Outbound_replace :: "comp_env \<Rightarrow> string \<Rightarrow> component \<Rightarrow> outbound_manager \<Rightarrow> outcome \<times> outbound_manager" where
  "Outbound_replace E tag c m =
     (case outboundByTag m tag of
        None \<Rightarrow> (Returned None, Outbound_add tag c m)
      | Some old \<Rightarrow>
          let (r, evs) = (if om_started m then close_component E old else (None, []));
              m1 = om_log evs m
          in case r of
               Some e \<Rightarrow> (Returned (Some (ErrCause e (''close '' @ comp_name ''outbound'' old))), m1)
             | None \<Rightarrow>
                 case index_of old (outbounds m1) of
                   None \<Rightarrow> (Panicked ''invalid inbound index'', m1)
                 | Some i \<Rightarrow> (Returned None, Outbound_add tag c (m1\<lparr>outbounds := remove_index i (outbounds m1)\<rparr>)))"

definition Outbound_Create :: "comp_env \<Rightarrow> string \<Rightarrow> component result \<Rightarrow> outbound_manager \<Rightarrow> outcome \<times> outbound_manager" where
  "Outbound_Create E tag created m =
     (if tag = [] then (Returned (Some os_ErrInvalid), m)
      else case created of
        Inl e \<Rightarrow> (Returned (Some e), m)
      | Inr c \<Rightarrow>
          let (r, evs) = (if om_started m then start_stages E ''outbound'' c ListStartStages else (None, []));
              m1 = om_log evs m
          in case r of
               Some e \<Rightarrow> (Returned (Some e), m1)
             | None \<Rightarrow> Outbound_replace E tag c m1)"

section \<open>Dependencies are recorded\<close>

text \<open>\<open>records cs dep\<close>: every dependency of a component of \<open>cs\<close> has the component among its dependents.\<close>

definition records :: "component list \<Rightarrow> (string \<rightharpoonup> string list) \<Rightarrow> bool" where
  "records cs dep \<longleftrightarrow> (\<forall>c \<in> set cs. \<forall>d \<in> set (comp_Dependencies c). comp_Tag c \<in> set (slice_at dep d))"

definition outbound_ok :: "outbound_manager \<Rightarrow> bool" where
  "outbound_ok m \<longleftrightarrow> tagged (outbounds m) (outboundByTag m) \<and> records (outbounds m) (dependByTag m) \<and>
     (\<forall>c \<in> set (outbounds m). distinct (comp_Dependencies c))"

lemma slice_at_upd [simp]:
  "slice_at (dep(k \<mapsto> vs)) j = (if j = k then vs else slice_at dep j)"
  "slice_at (dep(k := None)) j = (if j = k then [] else slice_at dep j)"
  by (simp_all add: slice_at_def)

lemma add_dependencies_set:
  "set (slice_at (add_dependencies tag ds dep) k) = set (slice_at dep k) \<union> (if k \<in> set ds then {tag} else {})"
  by (induction ds arbitrary: dep) auto

lemma drop_dependencies_other:
  assumes "distinct ds" "\<forall>d \<in> set ds. tag \<in> set (slice_at dep d)"
  shows "set (slice_at (drop_dependencies tag ds dep) k) - {tag} = set (slice_at dep k) - {tag}"
  using assms
proof (induction ds arbitrary: dep)
  case (Cons d ds)
  let ?dep = "if length (slice_at dep d) = 1 then dep(d := None)
    else dep(d \<mapsto> filter (\<lambda>it. it \<noteq> tag) (slice_at dep d))"
  have one: "set (slice_at dep d) = {tag}" if "length (slice_at dep d) = 1"
    using that Cons.prems(2) by (auto simp: length_Suc_conv)
  have "set (slice_at ?dep k) - {tag} = set (slice_at dep k) - {tag}" using one by auto
  moreover have "\<forall>d' \<in> set ds. tag \<in> set (slice_at ?dep d')" using Cons.prems by auto
  ultimately show ?case using Cons.IH[of ?dep] Cons.prems(1) by simp
qed simp

lemma records_add:
  assumes "records cs dep" "comp_Tag c = tag"
  shows "records (cs @ [c]) (add_dependencies tag (comp_Dependencies c) dep)"
  using assms by (auto simp: records_def add_dependencies_set)

lemma records_subset: "records cs dep \<Longrightarrow> set cs' \<subseteq> set cs \<Longrightarrow> records cs' dep"
  by (auto simp: records_def)

lemma records_drop:
  assumes "records cs dep" "c \<in> set cs" "distinct (comp_Dependencies c)"
    "\<forall>x \<in> set cs'. x \<in> set cs \<and> comp_Tag x \<noteq> comp_Tag c"
  shows "records cs' (drop_dependencies (comp_Tag c) (comp_Dependencies c) dep)"
proof -
  have "\<forall>d \<in> set (comp_Dependencies c). comp_Tag c \<in> set (slice_at dep d)" using assms(1,2) by (auto simp: records_def)
  note other = drop_dependencies_other[OF assms(3) this]
  show ?thesis unfolding records_def
  proof (intro ballI)
    fix x d assume "x \<in> set cs'" "d \<in> set (comp_Dependencies x)"
    then have "comp_Tag x \<in> set (slice_at dep d) - {comp_Tag c}" using assms(1,4) by (auto simp: records_def)
    then show "comp_Tag x \<in> set (slice_at (drop_dependencies (comp_Tag c) (comp_Dependencies c) dep) d)"
      using other[of d] by blast
  qed
qed

section \<open>What \<open>Remove\<close> and \<open>Create\<close> keep\<close>

lemma om_log_simps [simp]:
  "outbounds (om_log evs m) = outbounds m" "outboundByTag (om_log evs m) = outboundByTag m"
  "dependByTag (om_log evs m) = dependByTag m" "om_events (om_log evs m) = om_events m @ evs"
  "defaultOutbound (om_log evs m) = defaultOutbound m" "om_defaultTag (om_log evs m) = om_defaultTag m"
  "om_started (om_log evs m) = om_started m"
  "outbound_ok (om_log evs m) = outbound_ok m"
  by (simp_all add: om_log_def outbound_ok_def)

lemma Outbound_add_simps [simp]:
  "outbounds (Outbound_add tag c m) = outbounds m @ [c]"
  "outboundByTag (Outbound_add tag c m) = (outboundByTag m)(tag \<mapsto> c)"
  "dependByTag (Outbound_add tag c m) = add_dependencies tag (comp_Dependencies c) (dependByTag m)"
  by (simp_all add: Outbound_add_def Let_def)

lemma drop_ptr_set: "set (drop_ptr c cs) \<subseteq> set cs"
  by (auto simp: drop_ptr_def)

lemma drop_ptr_tags:
  assumes "tagged cs byTag" "byTag tag = Some c" "x \<in> set (drop_ptr c cs)"
  shows "x \<in> set cs \<and> comp_Tag x \<noteq> tag"
proof -
  have x: "x \<in> set cs" "comp_ptr x \<noteq> comp_ptr c" using assms(3) by (auto simp: drop_ptr_def)
  then show ?thesis using tagged_tag_inj[OF assms(1) x(1)] assms(2) by auto
qed

text \<open>How \<open>Remove\<close> ends, given the manager \<open>m3\<close> without the outbound.\<close>

definition end_of_Remove ::
  "comp_env \<Rightarrow> string \<Rightarrow> component \<Rightarrow> outbound_manager \<Rightarrow> outbound_manager \<Rightarrow> outcome \<times> outbound_manager" where
  "end_of_Remove E tag c m m3 =
     (if slice_at (dependByTag m) tag \<noteq> []
      then (Returned (Some (ErrNew (''outbound['' @ tag @ ''] is depended by '' @
              strings_Join (slice_at (dependByTag m) tag) '', ''))), m3)
      else let m4 = m3\<lparr>dependByTag := drop_dependencies tag (comp_Dependencies c) (dependByTag m)\<rparr>
           in if om_started m then (let (r, evs) = close_component E c in (Returned r, om_log evs m4))
              else (Returned None, m4))"

text \<open>\<open>Remove\<close> of a known outbound: the states it can end in.\<close>

lemma Outbound_Remove_known:
  assumes "outbound_ok m" "outboundByTag m tag = Some c"
  obtains m3 where "outbounds m3 = drop_ptr c (outbounds m)" "outboundByTag m3 = (outboundByTag m)(tag := None)"
    "dependByTag m3 = dependByTag m" "om_events m3 = om_events m" "om_started m3 = om_started m"
    "Outbound_Remove E tag m =
      end_of_Remove E tag c m m3"
proof -
  have tg: "tagged (outbounds m) (outboundByTag m)" using assms(1) by (simp add: outbound_ok_def)
  obtain i where i: "index_of c (outbounds m) = Some i" "remove_index i (outbounds m) = drop_ptr c (outbounds m)"
    using tagged_lookup[OF tg assms(2)] by blast
  define m2 where "m2 = m\<lparr>outboundByTag := (outboundByTag m)(tag := None), outbounds := drop_ptr c (outbounds m)\<rparr>"
  define m3 where "m3 = (if same_object (defaultOutbound m2) c
      then m2\<lparr>defaultOutbound := (case outbounds m2 of [] \<Rightarrow> None | x # _ \<Rightarrow> Some x)\<rparr> else m2)"
  show thesis
  proof (rule that[of m3])
    show "Outbound_Remove E tag m =
      end_of_Remove E tag c m m3"
      using assms(2) i by (simp add: Outbound_Remove_def end_of_Remove_def Let_def m3_def m2_def)
  qed (simp_all add: m3_def m2_def)
qed

lemma Outbound_Remove_keeps:
  assumes ok: "outbound_ok m"
  shows "outbound_ok (snd (Outbound_Remove E tag m))" "fst (Outbound_Remove E tag m) \<noteq> Panicked ''invalid inbound index''"
proof -
  have "outbound_ok (snd (Outbound_Remove E tag m)) \<and> fst (Outbound_Remove E tag m) \<noteq> Panicked ''invalid inbound index''"
  proof (cases "outboundByTag m tag")
    case None
    then show ?thesis using ok by (simp add: Outbound_Remove_def)
  next
    case (Some c)
    have tg: "tagged (outbounds m) (outboundByTag m)" and rec: "records (outbounds m) (dependByTag m)"
      and dd: "\<forall>c \<in> set (outbounds m). distinct (comp_Dependencies c)"
      using ok by (auto simp: outbound_ok_def)
    have c: "c \<in> set (outbounds m)" "comp_Tag c = tag" using tg Some by (auto simp: tagged_def)
    let ?cs = "drop_ptr c (outbounds m)"
    have t1: "tagged ?cs ((outboundByTag m)(tag := None))" by (rule tagged_remove[OF tg Some])
    have r1: "records ?cs (dependByTag m)" by (rule records_subset[OF rec drop_ptr_set])
    have r2: "records ?cs (drop_dependencies tag (comp_Dependencies c) (dependByTag m))"
      using records_drop[OF rec c(1), of ?cs] dd c drop_ptr_tags[OF tg Some] by auto
    have d1: "\<forall>c \<in> set ?cs. distinct (comp_Dependencies c)" using dd drop_ptr_set by blast
    obtain m3 where m3: "outbounds m3 = ?cs" "outboundByTag m3 = (outboundByTag m)(tag := None)"
        "dependByTag m3 = dependByTag m"
      and rm: "Outbound_Remove E tag m =
        end_of_Remove E tag c m m3"
      by (rule Outbound_Remove_known[OF ok Some])
    have "outbound_ok m3" "outbound_ok (m3\<lparr>dependByTag := drop_dependencies tag (comp_Dependencies c) (dependByTag m)\<rparr>)"
      using t1 r1 r2 d1 m3 by (simp_all add: outbound_ok_def)
    then show ?thesis unfolding rm by (auto simp: end_of_Remove_def Let_def split: prod.splits)
  qed
  then show "outbound_ok (snd (Outbound_Remove E tag m))" "fst (Outbound_Remove E tag m) \<noteq> Panicked ''invalid inbound index''"
    by auto
qed

lemma Outbound_add_ok:
  assumes "tagged (outbounds m @ [c]) ((outboundByTag m)(tag \<mapsto> c))" "records (outbounds m) (dependByTag m)"
    "\<forall>c \<in> set (outbounds m). distinct (comp_Dependencies c)" "comp_Tag c = tag" "distinct (comp_Dependencies c)"
  shows "outbound_ok (Outbound_add tag c m)"
  using assms records_add[of "outbounds m" "dependByTag m" c tag] by (auto simp: outbound_ok_def)

definition new_component :: "string \<Rightarrow> component \<Rightarrow> component list \<Rightarrow> bool" where
  "new_component tag c cs \<longleftrightarrow> comp_Tag c = tag \<and> comp_ptr c \<notin> comp_ptr ` set cs \<and> distinct (comp_Dependencies c)"

lemma Outbound_replace_keeps:
  assumes ok: "outbound_ok m" and c: "new_component tag c (outbounds m)"
  shows "outbound_ok (snd (Outbound_replace E tag c m)) \<and> fst (Outbound_replace E tag c m) \<noteq> Panicked ''invalid inbound index''"
proof -
  have tg: "tagged (outbounds m) (outboundByTag m)" and rec: "records (outbounds m) (dependByTag m)"
    and dd: "\<forall>c \<in> set (outbounds m). distinct (comp_Dependencies c)"
    using ok by (auto simp: outbound_ok_def)
  have new: "comp_Tag c = tag" "comp_ptr c \<notin> comp_ptr ` set (outbounds m)" "distinct (comp_Dependencies c)"
    using c by (auto simp: new_component_def)
  show ?thesis
  proof (cases "outboundByTag m tag")
    case None
    then have "outbound_ok (Outbound_add tag c m)"
      using Outbound_add_ok[of m c tag] tagged_insert[OF tg None new(1,2)] rec dd new by simp
    then show ?thesis using None by (simp add: Outbound_replace_def)
  next
    case (Some old)
    obtain i where i: "index_of old (outbounds m) = Some i" "remove_index i (outbounds m) = drop_ptr old (outbounds m)"
      using tagged_lookup[OF tg Some] by blast
    have "records (drop_ptr old (outbounds m)) (dependByTag m)" by (rule records_subset[OF rec drop_ptr_set])
    moreover have "\<forall>c \<in> set (drop_ptr old (outbounds m)). distinct (comp_Dependencies c)" using dd drop_ptr_set by blast
    ultimately have "outbound_ok (Outbound_add tag c ((om_log evs m)\<lparr>outbounds := drop_ptr old (outbounds m)\<rparr>))" for evs
      using Outbound_add_ok[of "(om_log evs m)\<lparr>outbounds := drop_ptr old (outbounds m)\<rparr>" c tag]
        tagged_replace[OF tg Some new(1,2)] new by simp
    then show ?thesis using Some i ok
      by (auto simp: Outbound_replace_def Let_def split: option.splits prod.splits)
  qed
qed

lemma Outbound_Create_keeps:
  assumes ok: "outbound_ok m" and c: "\<And>c. created = Inr c \<Longrightarrow> new_component tag c (outbounds m)"
  shows "outbound_ok (snd (Outbound_Create E tag created m))"
    "fst (Outbound_Create E tag created m) \<noteq> Panicked ''invalid inbound index''"
proof -
  have "outbound_ok (snd (Outbound_Create E tag created m)) \<and>
    fst (Outbound_Create E tag created m) \<noteq> Panicked ''invalid inbound index''"
  proof (cases created)
    case (Inr x)
    then show ?thesis using ok c Outbound_replace_keeps[of "om_log _ m" tag x E]
      by (auto simp: Outbound_Create_def Let_def split: option.splits prod.splits)
  qed (use ok in \<open>simp add: Outbound_Create_def\<close>)
  then show "outbound_ok (snd (Outbound_Create E tag created m))"
    "fst (Outbound_Create E tag created m) \<noteq> Panicked ''invalid inbound index''" by auto
qed

text \<open>The managers an application can reach by creating and removing outbounds. A registry makes new
  objects with the given tag; a dependency that is listed twice is excluded, since it
  breaks the records (last property below).\<close>

inductive outbound_reachable :: "comp_env \<Rightarrow> outbound_manager \<Rightarrow> bool" for E where
  new: "outbound_reachable E ((outbound_NewManager defaultTag)\<lparr>om_started := running\<rparr>)"
| create: "outbound_reachable E m \<Longrightarrow> (\<forall>c. created = Inr c \<longrightarrow> new_component tag c (outbounds m)) \<Longrightarrow>
    outbound_reachable E (snd (Outbound_Create E tag created m))"
| remove: "outbound_reachable E m \<Longrightarrow> outbound_reachable E (snd (Outbound_Remove E tag m))"

lemma outbound_reachable_ok: "outbound_reachable E m \<Longrightarrow> outbound_ok m"
proof (induction rule: outbound_reachable.induct)
  case (new defaultTag running)
  then show ?case by (simp add: outbound_ok_def outbound_NewManager_def records_def)
next
  case (create m created tag)
  then show ?case using Outbound_Create_keeps(1)[of m created tag E] by blast
next
  case (remove m tag)
  then show ?case using Outbound_Remove_keeps(1) by blast
qed

section \<open>Properties\<close>

definition example_outbound :: "nat \<Rightarrow> string \<Rightarrow> string list \<Rightarrow> component" where
  "example_outbound p tag deps = \<lparr>comp_ptr = p, comp_Type = ''vless'', comp_Tag = tag, comp_Dependencies = deps\<rparr>"

definition create_all :: "comp_env \<Rightarrow> component list \<Rightarrow> outbound_manager \<Rightarrow> outbound_manager" where
  "create_all E cs m = fold (\<lambda>c m. snd (Outbound_Create E (comp_Tag c) (Inr c) m)) cs m"

definition example_manager :: outbound_manager where
  "example_manager = create_all example_env [example_outbound 1 ''a'' [], example_outbound 2 ''b'' [''a'']]
     ((outbound_NewManager [])\<lparr>om_started := True\<rparr>)"

lemma example_manager_reachable: "outbound_reachable example_env example_manager"
proof -
  have "outbound_reachable example_env (create_all example_env [example_outbound 1 ''a'' []]
      ((outbound_NewManager [])\<lparr>om_started := True\<rparr>))" (is "outbound_reachable _ ?m")
    unfolding create_all_def
    by (simp, rule outbound_reachable.create[OF outbound_reachable.new])
      (simp add: new_component_def example_outbound_def outbound_NewManager_def)
  moreover have "new_component ''b'' (example_outbound 2 ''b'' [''a'']) (outbounds ?m)" by code_simp
  ultimately have "outbound_reachable example_env (snd (Outbound_Create example_env ''b'' (Inr (example_outbound 2 ''b'' [''a''])) ?m))"
    by (intro outbound_reachable.create) auto
  then show ?thesis by (simp add: example_manager_def create_all_def example_outbound_def)
qed



text \<open>C17. Removing an outbound that another one depends on is refused with an error, but the outbound is
  gone all the same: it is in neither the list nor the map, and it is never closed.\<close>

theorem Outbound_Remove_refused_but_removed:
  assumes "outbound_reachable E m" "outboundByTag m tag = Some c" "x \<in> set (outbounds m)" "tag \<in> set (comp_Dependencies x)"
  shows "\<exists>msg m'. Outbound_Remove E tag m = (Returned (Some (ErrNew msg)), m') \<and>
    outboundByTag m' tag = None \<and> c \<notin> set (outbounds m') \<and> om_events m' = om_events m"
proof -
  have ok: "outbound_ok m" by (rule outbound_reachable_ok[OF assms(1)])
  then have "comp_Tag x \<in> set (slice_at (dependByTag m) tag)" using assms(3,4) by (simp add: outbound_ok_def records_def)
  then have dep: "slice_at (dependByTag m) tag \<noteq> []" by auto
  show ?thesis
  proof (rule Outbound_Remove_known[OF ok assms(2), of E])
    fix m3 :: outbound_manager
    assume m3: "outbounds m3 = drop_ptr c (outbounds m)" "outboundByTag m3 = (outboundByTag m)(tag := None)"
      "om_events m3 = om_events m"
    assume "Outbound_Remove E tag m =
      end_of_Remove E tag c m m3"
    then show ?thesis using dep m3 by (simp add: end_of_Remove_def drop_ptr_def)
  qed
qed

theorem Outbound_Remove_refused_but_removed_witness:
  "\<exists>msg m'. Outbound_Remove example_env ''a'' example_manager = (Returned (Some (ErrNew msg)), m') \<and>
    outboundByTag m' ''a'' = None \<and> om_events m' = om_events example_manager"
proof -
  have "outboundByTag example_manager ''a'' = Some (example_outbound 1 ''a'' [])"
    "outbounds example_manager = [example_outbound 1 ''a'' [], example_outbound 2 ''b'' [''a'']]" by code_simp+
  then show ?thesis
    using Outbound_Remove_refused_but_removed[OF example_manager_reachable, of "''a''" _ "example_outbound 2 ''b'' [''a'']"]
    by (auto simp: example_outbound_def)
qed


end
