(* ===== verification/Transport_Manager.thy ===== *)
theory Transport_Manager
  imports Outbound_Manager
begin

text \<open>
  The manager of DNS transports (\<open>dns/transport_manager.go\<close>): like the outbound manager, with a
  default that must not be a fake-IP transport and at most one fake-IP transport.
\<close>

section \<open>State and operations\<close>

record transport_manager =
  tm_defaultTag :: string
  tm_started :: bool
  tm_stage :: startStage
  transports :: "component list"
  transportByTag :: "string \<rightharpoonup> component"
  tm_dependByTag :: "string \<rightharpoonup> string list"
  defaultTransport :: "component option"
  fakeIPTransport :: "component option"
  tm_events :: "event list"

definition DNSTypeFakeIP :: string where
  "DNSTypeFakeIP = ''fakeip''"


definition tm_log :: "event list \<Rightarrow> transport_manager \<Rightarrow> transport_manager" where
  "tm_log evs m = m\<lparr>tm_events := tm_events m @ evs\<rparr>"

definition find_default_transport :: "component result \<Rightarrow> transport_manager \<Rightarrow> error option \<times> transport_manager" where
  "find_default_transport fallback m =
     (if tm_defaultTag m \<noteq> [] \<and> defaultTransport m = None
      then (Some (ErrNew (''default DNS server not found: '' @ tm_defaultTag m)), m)
      else if defaultTransport m = None
      then (case fallback of
              Inl e \<Rightarrow> (Some (ErrCause e ''default DNS server fallback''), m)
            | Inr c \<Rightarrow> (None, m\<lparr>transports := transports m @ [c],
                                transportByTag := (transportByTag m)(comp_Tag c \<mapsto> c), defaultTransport := Some c\<rparr>))
      else (None, m))"

definition Transport_Start ::
  "comp_env \<Rightarrow> component result \<Rightarrow> startStage \<Rightarrow> transport_manager \<Rightarrow> (outcome \<times> transport_manager) option" where
  "Transport_Start E fallback stage m =
     (if tm_started m \<and> stage_number (tm_stage m) \<ge> stage_number stage then Some (Panicked ''already started'', m)
      else
        let m1 = m\<lparr>tm_started := True, tm_stage := stage\<rparr>;
            (r, m2) = (if stage = StartStateInitialize then find_default_transport fallback m1 else (None, m1))
        in case r of
             Some e \<Rightarrow> Some (Returned (Some e), m2)
           | None \<Rightarrow>
               if stage = StartStateStart
               then map_option (\<lambda>res. (or_outcome res, tm_log (or_events res) m2))
                      (startTransports E (transportByTag m2) (transports m2))
               else let (r, evs) = start_components E ''dns'' stage (transports m2)
                    in Some (Returned r, tm_log evs m2))"

definition Transport_Close :: "comp_env \<Rightarrow> transport_manager \<Rightarrow> outcome \<times> transport_manager" where
  "Transport_Close E m =
     (if \<not> tm_started m then (Returned None, m)
      else (Returned None, tm_log (close_all (close_component E) (transports m)) (m\<lparr>tm_started := False, transports := []\<rparr>)))"






section \<open>The default server\<close>


lemma tm_log_simps [simp]:
  "defaultTransport (tm_log evs m) = defaultTransport m" "transports (tm_log evs m) = transports m"
  "transportByTag (tm_log evs m) = transportByTag m" "tm_events (tm_log evs m) = tm_events m @ evs"
  by (simp_all add: tm_log_def)

definition default_not_fakeip :: "transport_manager \<Rightarrow> bool" where
  "default_not_fakeip m = (case defaultTransport m of None \<Rightarrow> True | Some c \<Rightarrow> comp_Type c \<noteq> DNSTypeFakeIP)"


lemma default_not_fakeip_upd [simp]:
  "default_not_fakeip (tm_log evs m) = default_not_fakeip m"
  "default_not_fakeip (m\<lparr>transports := cs\<rparr>) = default_not_fakeip m"
  by (simp_all add: default_not_fakeip_def)



section \<open>Properties\<close>




end
