(* ===== verification/Byte_Codec.thy ===== *)
theory Byte_Codec
  imports Net_Addr
begin

text \<open>
  Bytes on the wire: the big-endian integers of \<open>encoding/binary\<close>, the unsigned varint of the
  same package, reading an exact number of bytes, the byte form of a string and the binary
  marshalling of \<open>netip.Addr\<close> and \<open>netip.Prefix\<close>, each with its round trip.
\<close>

section \<open>Fixed-width integers\<close>

primrec be_bytes :: "nat \<Rightarrow> 'a::len word \<Rightarrow> bytes" where
  "be_bytes 0 w = []"
| "be_bytes (Suc k) w = ucast (drop_bit (8 * k) w) # be_bytes k w"

definition of_be :: "bytes \<Rightarrow> nat" where
  "of_be bs = foldl (\<lambda>acc b. 256 * acc + unat b) 0 bs"

lemma length_be_bytes [simp]: "length (be_bytes k w) = k"
  by (induction k) auto

lemma foldl_be: "foldl (\<lambda>acc b. 256 * acc + unat (b :: u8)) acc bs = acc * 256 ^ length bs + of_be bs"
proof (induction bs arbitrary: acc)
  case (Cons b bs)
  show ?case unfolding of_be_def foldl_Cons Cons.IH[of "256 * acc + unat b"] Cons.IH[of "256 * 0 + unat b"]
    by (simp add: algebra_simps)
qed (simp add: of_be_def)

lemma of_be_simps [simp]:
  "of_be [] = 0"
  "of_be (b # bs) = unat b * 256 ^ length bs + of_be bs"
  using foldl_be[of "unat b" bs] by (simp_all add: of_be_def)

lemma of_be_lt: "of_be bs < 256 ^ length bs"
proof (induction bs)
  case (Cons b bs)
  have "unat b < 256" using unsigned_less[of b, where ?'a = nat] by simp
  then have "Suc (unat b) \<le> 256" by simp
  from mult_le_mono1[OF this, of "256 ^ length bs"] Cons.IH
  show ?case unfolding of_be_simps length_Cons power_Suc mult_Suc by linarith
qed simp

lemma of_be_bytes: "of_be (be_bytes k w) = unat w mod 256 ^ k"
proof (induction k)
  case (Suc k)
  have "unat (ucast (drop_bit (8 * k) w) :: u8) = (unat w div 256 ^ k) mod 256"
    by (simp only: unsigned_ucast_eq unat_drop_bit_eq) (simp add: drop_bit_eq_div take_bit_eq_mod power_mult)
  then show ?case using Suc
    by (simp add: mod_mult2_eq mult.commute[of 256] add.commute)
qed simp

lemma be_bytes_round_trip:
  fixes w :: "'a::len word"
  assumes "LENGTH('a) \<le> 8 * k"
  shows "of_nat (of_be (be_bytes k w)) = w"
proof -
  have "(2::nat) ^ LENGTH('a) \<le> 256 ^ k"
    using assms power_increasing[of "LENGTH('a)" "8 * k" "2::nat"] by (simp add: power_mult)
  then have "unat w < 256 ^ k" using unsigned_less[of w, where ?'a = nat] by (rule order.strict_trans2[rotated])
  then show ?thesis by (simp add: of_be_bytes)
qed

section \<open>Strings and addresses\<close>

definition string_bytes :: "string \<Rightarrow> bytes" where
  "string_bytes s = map of_char s"

definition bytes_string :: "bytes \<Rightarrow> string" where
  "bytes_string bs = map (\<lambda>b. char_of (unat b)) bs"

lemma bytes_string_bytes [simp]: "bytes_string (string_bytes s) = s"
proof -
  have "char_of (unat (of_char c :: u8)) = c" for c
  proof -
    have "(of_char c :: u8) = of_nat (of_char c)" by (simp only: of_nat_of_char)
    then have "unat (of_char c :: u8) = of_char c" by (simp add: unat_of_nat del: of_nat_of_char)
    then show ?thesis by simp
  qed
  then show ?thesis by (simp add: bytes_string_def string_bytes_def comp_def)
qed

lemma string_bytes_simps [simp]:
  "length (string_bytes s) = length s"
  "string_bytes [] = []"
  by (simp_all add: string_bytes_def)

text \<open>\<open>Addr.MarshalBinary\<close> and \<open>UnmarshalBinary\<close>, and those of \<open>Prefix\<close>: the bits are one byte,
  \<open>255\<close> for the invalid prefix.\<close>

fun addr_MarshalBinary :: "addr \<Rightarrow> bytes" where
  "addr_MarshalBinary NoAddr = []"
| "addr_MarshalBinary (Addr4 w) = be_bytes 4 w"
| "addr_MarshalBinary (Addr6 w z) = be_bytes 16 w @ string_bytes z"

definition addr_UnmarshalBinary :: "bytes \<Rightarrow> addr result" where
  "addr_UnmarshalBinary b =
     (if length b = 0 then Inr NoAddr
      else if length b = 4 then Inr (Addr4 (of_nat (of_be b)))
      else if length b = 16 then Inr (Addr6 (of_nat (of_be b)) [])
      else if length b > 16 then Inr (Addr6 (of_nat (of_be (take 16 b))) (bytes_string (drop 16 b)))
      else Inl (ErrLib ''unexpected slice size''))"

definition prefix_MarshalBinary :: "prefix \<Rightarrow> bytes" where
  "prefix_MarshalBinary p = addr_MarshalBinary (drop_zone (prefix_Addr p)) @ [of_int (prefix_Bits p)]"

definition prefix_UnmarshalBinary :: "bytes \<Rightarrow> prefix result" where
  "prefix_UnmarshalBinary b =
     (if b = [] then Inl (ErrLib ''unexpected slice size'')
      else rbind (addr_UnmarshalBinary (butlast b)) (\<lambda>a. Inr (prefix_from a (unat (last b)))))"

lemma addr_binary_round_trip [simp]: "addr_UnmarshalBinary (addr_MarshalBinary a) = Inr a"
proof (cases a)
  case (Addr6 w z)
  then show ?thesis using be_bytes_round_trip[of 16 w]
    by (cases "z = []") (simp_all add: addr_UnmarshalBinary_def)
qed (simp_all add: addr_UnmarshalBinary_def be_bytes_round_trip)

text \<open>The prefixes Go can build: no zone, and bits within the length of the address.\<close>

definition prefix_wf :: "prefix \<Rightarrow> bool" where
  "prefix_wf p \<longleftrightarrow> \<not> addr_hasZone (prefix_Addr p) \<and>
     (case prefix_bits p of None \<Rightarrow> True | Some n \<Rightarrow> prefix_Addr p \<noteq> NoAddr \<and> n \<le> addr_BitLen (prefix_Addr p))"

lemma prefix_from_wf: "prefix_wf (prefix_from a n)"
  by (cases a) (auto simp: prefix_wf_def prefix_from_def)

lemma addr_BitLen_le: "addr_BitLen a \<le> 128"
  by (cases a) auto

lemma drop_zone_id: "\<not> addr_hasZone a \<Longrightarrow> drop_zone a = a"
  by (cases a) auto

lemma prefix_binary_round_trip:
  assumes "prefix_wf p"
  shows "prefix_UnmarshalBinary (prefix_MarshalBinary p) = Inr p"
proof (cases p)
  case (Prefix a b)
  have z: "\<not> addr_hasZone a" using assms Prefix by (simp add: prefix_wf_def)
  show ?thesis
  proof (cases b)
    case None
    have "unat (- 1 :: u8) = 255" by (simp add: unsigned_minus_1_eq_mask mask_eq_exp_minus_1)
    then have "prefix_from a (unat (- 1 :: u8)) = Prefix a None"
      using addr_BitLen_le[of a] drop_zone_id[OF z] by (auto simp: prefix_from_def)
    then show ?thesis
      using Prefix None drop_zone_id[OF z]
      by (simp add: prefix_UnmarshalBinary_def prefix_MarshalBinary_def prefix_Bits_def)
  next
    case (Some n)
    then have n: "a \<noteq> NoAddr" "n \<le> addr_BitLen a" using assms Prefix by (auto simp: prefix_wf_def)
    then have "unat (of_nat n :: u8) = n" using addr_BitLen_le[of a] by (simp add: unat_of_nat)
    then show ?thesis using Prefix Some n drop_zone_id[OF z]
      by (simp add: prefix_UnmarshalBinary_def prefix_MarshalBinary_def prefix_Bits_def prefix_from_def)
  qed
qed

text \<open>\<open>io.ReadFull\<close>.\<close>

definition read_full :: "nat \<Rightarrow> bytes \<Rightarrow> (bytes \<times> bytes) result" where
  "read_full n bs =
     (if n = 0 then Inr ([], bs)
      else if bs = [] then Inl (ErrLib ''EOF'')
      else if length bs < n then Inl (ErrLib ''unexpected EOF'')
      else Inr (take n bs, drop n bs))"

lemma read_full_append [simp]: "length xs = n \<Longrightarrow> read_full n (xs @ ys) = Inr (xs, ys)"
  by (auto simp: read_full_def)

lemma read_full_ok: "read_full n bs = Inr (xs, ys) \<Longrightarrow> bs = xs @ ys \<and> length xs = n"
  by (auto simp: read_full_def split: if_splits)

end
