(* ===== verification/Fake_IP.thy ===== *)
theory Fake_IP
  imports Byte_Codec
begin

text \<open>
  The fake-IP store of \<open>dns/transport/fakeip\<close>: the store that hands out addresses of a
  configured range (\<open>store.go\<close>) and its in-memory storage (\<open>memory.go\<close>). The store uses a
  storage through the interface \<open>adapter.FakeIPStorage\<close>, here a record of its methods; the
  locale \<open>fakeip_backend\<close> has the laws the store relies on and is interpreted for the memory
  storage. The persistent storage of the cache file is another value of the record. Every
  operation runs under the locks of the source, so it is one step of the model; the two
  checks of \<open>Create\<close>, before and after the lock is taken, are separate definitions.
\<close>

section \<open>Storages\<close>

record fakeIPMetadata =
  Inet4Range :: prefix
  Inet6Range :: prefix
  Inet4Current :: addr
  Inet6Current :: addr

record 's fakeIPStorage =
  FakeIPMetadata :: "'s \<Rightarrow> fakeIPMetadata option \<times> 's"
  FakeIPSaveMetadata :: "'s \<Rightarrow> fakeIPMetadata \<Rightarrow> error option \<times> 's"
  FakeIPSaveMetadataAsync :: "'s \<Rightarrow> fakeIPMetadata \<Rightarrow> 's"
  FakeIPStore :: "'s \<Rightarrow> addr \<Rightarrow> string \<Rightarrow> error option \<times> 's"
  FakeIPLoad :: "'s \<Rightarrow> addr \<Rightarrow> string option"
  FakeIPLoadDomain :: "'s \<Rightarrow> string \<Rightarrow> bool \<Rightarrow> addr option"
  FakeIPReset :: "'s \<Rightarrow> error option \<times> 's"

record memoryStorage =
  addressCache :: "addr \<rightharpoonup> string"
  domainCache4 :: "string \<rightharpoonup> addr"
  domainCache6 :: "string \<rightharpoonup> addr"

definition NewMemoryStorage :: memoryStorage where
  "NewMemoryStorage = \<lparr>addressCache = Map.empty, domainCache4 = Map.empty, domainCache6 = Map.empty\<rparr>"

definition memory_FakeIPMetadata :: "memoryStorage \<Rightarrow> fakeIPMetadata option \<times> memoryStorage" where
  "memory_FakeIPMetadata s = (None, s)"

definition memory_FakeIPSaveMetadata :: "memoryStorage \<Rightarrow> fakeIPMetadata \<Rightarrow> error option \<times> memoryStorage" where
  "memory_FakeIPSaveMetadata s metadata = (None, s)"

definition memory_FakeIPSaveMetadataAsync :: "memoryStorage \<Rightarrow> fakeIPMetadata \<Rightarrow> memoryStorage" where
  "memory_FakeIPSaveMetadataAsync s metadata = s"

definition memory_FakeIPStore :: "memoryStorage \<Rightarrow> addr \<Rightarrow> string \<Rightarrow> error option \<times> memoryStorage" where
  "memory_FakeIPStore s address domain =
     (let s1 = (case addressCache s address of
                  None \<Rightarrow> s
                | Some oldDomain \<Rightarrow>
                    if addr_Is4 address then s\<lparr>domainCache4 := (domainCache4 s)(oldDomain := None)\<rparr>
                    else s\<lparr>domainCache6 := (domainCache6 s)(oldDomain := None)\<rparr>);
          s2 = s1\<lparr>addressCache := (addressCache s1)(address \<mapsto> domain)\<rparr>
      in (None,
          if addr_Is4 address then s2\<lparr>domainCache4 := (domainCache4 s2)(domain \<mapsto> address)\<rparr>
          else s2\<lparr>domainCache6 := (domainCache6 s2)(domain \<mapsto> address)\<rparr>))"

definition memory_FakeIPStoreAsync :: "memoryStorage \<Rightarrow> addr \<Rightarrow> string \<Rightarrow> memoryStorage" where
  "memory_FakeIPStoreAsync s address domain = snd (memory_FakeIPStore s address domain)"

definition memory_FakeIPLoad :: "memoryStorage \<Rightarrow> addr \<Rightarrow> string option" where
  "memory_FakeIPLoad s address = addressCache s address"

definition memory_FakeIPLoadDomain :: "memoryStorage \<Rightarrow> string \<Rightarrow> bool \<Rightarrow> addr option" where
  "memory_FakeIPLoadDomain s domain isIPv6 =
     (if \<not> isIPv6 then domainCache4 s domain else domainCache6 s domain)"

definition memory_FakeIPReset :: "memoryStorage \<Rightarrow> error option \<times> memoryStorage" where
  "memory_FakeIPReset s = (None, NewMemoryStorage)"

definition memory :: "memoryStorage fakeIPStorage" where
  "memory = \<lparr>FakeIPMetadata = memory_FakeIPMetadata, FakeIPSaveMetadata = memory_FakeIPSaveMetadata,
     FakeIPSaveMetadataAsync = memory_FakeIPSaveMetadataAsync, FakeIPStore = memory_FakeIPStore,
     FakeIPLoad = memory_FakeIPLoad, FakeIPLoadDomain = memory_FakeIPLoadDomain,
     FakeIPReset = memory_FakeIPReset\<rparr>"

section \<open>The store\<close>

text \<open>\<open>storage\<close> is nil until \<open>Start\<close>; every method but \<open>Close\<close> and \<open>Contains\<close> is called after it,
  so the state of the started store has it.\<close>

record 's fakeip_store =
  inet4Range :: prefix
  inet6Range :: prefix
  inet4Last :: addr
  inet6Last :: addr
  inet4Current :: addr
  inet6Current :: addr
  storage :: 's

text \<open>\<open>broadcastAddress\<close> sets the host bits in the 16-byte form of the address; the array is the
  128-bit number it spells, bit \<open>i\<close> of the loop being bit \<open>127 - i\<close> of the number.\<close>

fun addr_As16 :: "addr \<Rightarrow> 128 word" where
  "addr_As16 NoAddr = 0"
| "addr_As16 (Addr4 w) = 0xffff00000000 OR ucast w"
| "addr_As16 (Addr6 w z) = w"

definition set_host_bits :: "nat \<Rightarrow> 128 word \<Rightarrow> 128 word" where
  "set_host_bits bits raw = fold (\<lambda>i w. w OR push_bit (127 - i) 1) [bits..<128] raw"

definition broadcastAddress :: "prefix \<Rightarrow> addr" where
  "broadcastAddress p =
     (let addr = prefix_Addr p;
          bits = nat (prefix_Bits p) + (if addr_Is4 addr then 96 else 0);
          raw = set_host_bits bits (addr_As16 addr)
      in if addr_Is4 addr then Addr4 (ucast raw) else Addr6 raw [])"

definition NewStore :: "prefix \<Rightarrow> prefix \<Rightarrow> 's \<Rightarrow> 's fakeip_store" where
  "NewStore range4 range6 st =
     \<lparr>inet4Range = range4, inet6Range = range6,
      inet4Last = (if prefix_IsValid range4 then broadcastAddress range4 else NoAddr),
      inet6Last = (if prefix_IsValid range6 then broadcastAddress range6 else NoAddr),
      inet4Current = NoAddr, inet6Current = NoAddr, storage = st\<rparr>"

text \<open>\<open>Start\<close>, given the methods of the storage it chose (in the field \<open>storage\<close>).\<close>

definition first_current :: "prefix \<Rightarrow> addr \<Rightarrow> addr" where
  "first_current rng current = (if prefix_IsValid rng then addr_Next (prefix_Addr rng) else current)"

definition Store_Start :: "'s fakeIPStorage \<Rightarrow> 's fakeip_store \<Rightarrow> 's fakeip_store" where
  "Store_Start S s =
     (let (metadata, st) = FakeIPMetadata S (storage s);
          fresh = s\<lparr>inet4Current := first_current (inet4Range s) (inet4Current s),
                     inet6Current := first_current (inet6Range s) (inet6Current s),
                     storage := snd (FakeIPReset S st)\<rparr>
      in case metadata of
           None \<Rightarrow> fresh
         | Some m \<Rightarrow>
             if Inet4Range m = inet4Range s \<and> Inet6Range m = inet6Range s
             then s\<lparr>inet4Current := Inet4Current m, inet6Current := Inet6Current m, storage := st\<rparr>
             else fresh)"


definition store_metadata :: "'s fakeip_store \<Rightarrow> fakeIPMetadata" where
  "store_metadata s = \<lparr>Inet4Range = inet4Range s, Inet6Range = inet6Range s,
     Inet4Current = inet4Current s, Inet6Current = inet6Current s\<rparr>"

definition Store_Close :: "'s fakeIPStorage \<Rightarrow> 's fakeip_store \<Rightarrow> error option \<times> 's fakeip_store" where
  "Store_Close S s =
     (let (err, st) = FakeIPSaveMetadata S (storage s) (store_metadata s) in (err, s\<lparr>storage := st\<rparr>))"

text \<open>The address after \<open>current\<close>; the source has the same lines for both families.\<close>

definition nextAddress :: "prefix \<Rightarrow> addr \<Rightarrow> addr \<Rightarrow> addr" where
  "nextAddress rng lastAddr current =
     (let n = addr_Next current
      in if n = lastAddr \<or> \<not> prefix_Contains rng n then addr_Next (addr_Next (prefix_Addr rng)) else n)"

text \<open>The end of \<open>Create\<close>: an error of the storage is logged and the address returned all the same.\<close>

definition store_address :: "'s fakeIPStorage \<Rightarrow> 's fakeip_store \<Rightarrow> addr \<Rightarrow> string \<Rightarrow> addr result \<times> 's fakeip_store" where
  "store_address S s address domain =
     (let st = snd (FakeIPStore S (storage s) address domain)
      in (Inr address, s\<lparr>storage := FakeIPSaveMetadataAsync S st (store_metadata s)\<rparr>))"

definition Create_locked ::
  "'s fakeIPStorage \<Rightarrow> 's fakeip_store \<Rightarrow> string \<Rightarrow> bool \<Rightarrow> addr result \<times> 's fakeip_store" where
  "Create_locked S s domain isIPv6 =
     (case FakeIPLoadDomain S (storage s) domain isIPv6 of
        Some address \<Rightarrow> (Inr address, s)
      | None \<Rightarrow>
          if \<not> isIPv6 then
            if \<not> addr_IsValid (inet4Current s) then (Inl (ErrNew ''missing IPv4 fakeip address range''), s)
            else let a = nextAddress (inet4Range s) (inet4Last s) (inet4Current s)
                 in store_address S (s\<lparr>inet4Current := a\<rparr>) a domain
          else
            if \<not> addr_IsValid (inet6Current s) then (Inl (ErrNew ''missing IPv6 fakeip address range''), s)
            else let a = nextAddress (inet6Range s) (inet6Last s) (inet6Current s)
                 in store_address S (s\<lparr>inet6Current := a\<rparr>) a domain)"

definition Store_Create ::
  "'s fakeIPStorage \<Rightarrow> 's fakeip_store \<Rightarrow> string \<Rightarrow> bool \<Rightarrow> addr result \<times> 's fakeip_store" where
  "Store_Create S s domain isIPv6 =
     (case FakeIPLoadDomain S (storage s) domain isIPv6 of
        Some address \<Rightarrow> (Inr address, s)
      | None \<Rightarrow> Create_locked S s domain isIPv6)"

definition Store_Lookup :: "'s fakeIPStorage \<Rightarrow> 's fakeip_store \<Rightarrow> addr \<Rightarrow> string option" where
  "Store_Lookup S s address = FakeIPLoad S (storage s) address"

definition Store_Reset :: "'s fakeIPStorage \<Rightarrow> 's fakeip_store \<Rightarrow> error option \<times> 's fakeip_store" where
  "Store_Reset S s = (let (err, st) = FakeIPReset S (storage s) in (err, s\<lparr>storage := st\<rparr>))"

section \<open>Addresses of a range\<close>

text \<open>Words: the addresses of a range with \<open>h\<close> host bits are its base plus an offset below \<open>2 ^ h\<close>.\<close>

lemma drop_bit_xor_zero_iff:
  fixes a b :: "'a::len word"
  shows "drop_bit h (a XOR b) = 0 \<longleftrightarrow> unat a div 2 ^ h = unat b div 2 ^ h"
proof -
  have "drop_bit h (a XOR b) = 0 \<longleftrightarrow> drop_bit h a = drop_bit h b"
    by (auto simp: drop_bit_xor bit_eq_iff bit_xor_iff)
  also have "\<dots> \<longleftrightarrow> unat (drop_bit h a) = unat (drop_bit h b)"
    by (simp add: word_unat_eq_iff)
  finally show ?thesis by (simp only: unat_drop_bit_eq) (simp add: drop_bit_eq_div)
qed

lemma masked_unat:
  fixes a :: "'a::len word"
  assumes "push_bit h (drop_bit h a) = a"
  shows "2 ^ h dvd unat a"
proof -
  have "take_bit h a = take_bit h (push_bit h (drop_bit h a))" using assms by simp
  also have "\<dots> = 0" by (simp add: take_bit_push_bit)
  finally have "take_bit h a = 0" .
  then have "unat (take_bit h a) = 0" by simp
  then show ?thesis 
    by (simp only: unsigned_take_bit_eq) (simp add: take_bit_eq_mod dvd_eq_mod_eq_0)
qed

lemma unat_base_add:
  fixes a :: "'a::len word"
  assumes "2 ^ h dvd unat a" "off < 2 ^ h" "h \<le> LENGTH('a)"
  shows "unat (a + of_nat off) = unat a + off"
proof -
  obtain q where q: "unat a = 2 ^ h * q" using assms(1) by auto
  have len: "2 ^ LENGTH('a) = (2::nat) ^ h * 2 ^ (LENGTH('a) - h)"
    using assms(3) by (simp flip: power_add)
  have "2 ^ h * q < 2 ^ h * 2 ^ (LENGTH('a) - h)"
    using q len unsigned_less[of a, where ?'a = nat] by metis
  then have "q < 2 ^ (LENGTH('a) - h)" by simp
  then have "2 ^ h * Suc q \<le> 2 ^ h * 2 ^ (LENGTH('a) - h)"
    using Suc_leI mult_le_mono2 by blast
  then have lt: "unat a + off < 2 ^ LENGTH('a)" using q len assms(2) by (simp add: algebra_simps)
  then have "off < 2 ^ LENGTH('a)" by simp
  then have "unat (of_nat off :: 'a word) = off" by (simp add: unat_of_nat)
  then show ?thesis using lt by (simp add: unat_word_ariths(1))
qed

lemma unat_base_add_div:
  fixes a :: "'a::len word"
  assumes "2 ^ h dvd unat a" "off < 2 ^ h" "h \<le> LENGTH('a)"
  shows "unat (a + of_nat off) div 2 ^ h = unat a div 2 ^ h"
  using unat_base_add[OF assms] assms(1,2) by auto

lemma base_add_inj:
  fixes a :: "'a::len word"
  assumes "2 ^ h dvd unat a" "i < 2 ^ h" "j < 2 ^ h" "h \<le> LENGTH('a)"
  shows "a + of_nat i = a + of_nat j \<longleftrightarrow> i = j"
  using unat_base_add[OF assms(1,2,4)] unat_base_add[OF assms(1,3,4)] by (metis add_left_cancel)

lemma base_or_mask:
  fixes a :: "'a::len word"
  assumes "push_bit h (drop_bit h a) = a" "h \<le> LENGTH('a)"
  shows "a OR mask h = a + of_nat (2 ^ h - 1)"
proof -
  have "a AND mask h = take_bit h a" by (simp add: take_bit_eq_mask)
  also have "\<dots> = take_bit h (push_bit h (drop_bit h a))" using assms by simp
  also have "\<dots> = 0" by (simp add: take_bit_push_bit)
  finally have "a OR mask h = a + mask h" by (simp add: disjunctive_add_eq_or)
  moreover have "(mask h :: 'a word) = of_nat (2 ^ h - 1)"
    by (simp add: mask_eq_exp_minus_1 of_nat_diff)
  ultimately show ?thesis by simp
qed

lemma base_add_Suc_top:
  fixes a :: "'a::len word"
  assumes "2 ^ h dvd unat a" "Suc off < 2 ^ h" "h \<le> LENGTH('a)"
  shows "a + of_nat off \<noteq> - 1"
proof
  assume "a + of_nat off = - 1"
  then have "(a + of_nat off) + 1 = 0" by simp
  then have "a + of_nat (Suc off) = 0" by (simp add: algebra_simps)
  then have "unat (a + of_nat (Suc off)) = 0" by simp
  then show False using unat_base_add[OF assms] by simp
qed

text \<open>The address \<open>n\<close> places after another, and the ranges with room for the network address, the
  first address, the broadcast address and at least one more.\<close>

fun addr_plus :: "addr \<Rightarrow> nat \<Rightarrow> addr" where
  "addr_plus NoAddr n = NoAddr"
| "addr_plus (Addr4 w) n = Addr4 (w + of_nat n)"
| "addr_plus (Addr6 w z) n = Addr6 (w + of_nat n) z"

definition host_bits :: "prefix \<Rightarrow> nat" where
  "host_bits p = addr_BitLen (prefix_Addr p) - nat (prefix_Bits p)"

definition wide_range :: "prefix \<Rightarrow> bool" where
  "wide_range p \<longleftrightarrow> prefix_IsValid p \<and> nat (prefix_Bits p) + 2 \<le> addr_BitLen (prefix_Addr p) \<and>
     \<not> addr_hasZone (prefix_Addr p) \<and> prefix_Masked p = p"

lemma addr_plus_kind [simp]:
  "addr_Is4 (addr_plus a n) = addr_Is4 a"
  "addr_Is6 (addr_plus a n) = addr_Is6 a"
  "addr_plus a n = NoAddr \<longleftrightarrow> a = NoAddr"
  "addr_IsValid (addr_plus a n) = addr_IsValid a"
  by (cases a; simp add: addr_IsValid_def)+

lemma wide_range_cases:
  assumes "wide_range p"
  obtains (v4) w n where "p = Prefix (Addr4 w) (Some n)" "n + 2 \<le> 32" "host_bits p = 32 - n"
      "push_bit (32 - n) (drop_bit (32 - n) w) = w" "2 ^ (32 - n) dvd unat w"
    | (v6) w n where "p = Prefix (Addr6 w []) (Some n)" "n + 2 \<le> 128" "host_bits p = 128 - n"
      "push_bit (128 - n) (drop_bit (128 - n) w) = w" "2 ^ (128 - n) dvd unat w"
proof -
  obtain a b where p: "p = Prefix a b" by (cases p)
  obtain n where b: "b = Some n" using assms p by (auto simp: wide_range_def prefix_IsValid_def)
  show ?thesis
  proof (cases a)
    case NoAddr
    then show ?thesis using assms p b by (simp add: wide_range_def prefix_Bits_def)
  next
    case (Addr4 w)
    then have "push_bit (32 - n) (drop_bit (32 - n) w) = w" "n + 2 \<le> 32" "host_bits p = 32 - n"
      using assms p b by (simp_all only: wide_range_def prefix_Bits_def prefix_Masked_def host_bits_def
          prefix.sel prefix.inject addr_masked.simps addr.inject addr_BitLen.simps option.case nat_int)
    then show ?thesis using v4[of w n] p b Addr4 masked_unat by blast
  next
    case (Addr6 w z)
    then have "push_bit (128 - n) (drop_bit (128 - n) w) = w" "n + 2 \<le> 128" "host_bits p = 128 - n" "z = []"
      using assms p b by (simp_all only: wide_range_def prefix_Bits_def prefix_Masked_def host_bits_def
          prefix.sel prefix.inject addr_masked.simps addr.inject addr_BitLen.simps option.case nat_int)
    then show ?thesis using v6[of w n] p b Addr6 masked_unat by blast
  qed
qed

lemma wide_host_bits: "wide_range p \<Longrightarrow> 2 \<le> host_bits p"
  unfolding wide_range_def host_bits_def by linarith

lemma wide_ge4:
  assumes "wide_range p"
  shows "4 \<le> (2::nat) ^ host_bits p"
  using power_increasing[OF wide_host_bits[OF assms], of "2::nat"] by simp

lemma addr_Next_plus:
  assumes "wide_range p" "Suc off < 2 ^ host_bits p"
  shows "addr_Next (addr_plus (prefix_Addr p) off) = addr_plus (prefix_Addr p) (Suc off)"
  using assms(1)
proof (cases p rule: wide_range_cases)
  case (v4 w n)
  then show ?thesis using assms(2) base_add_Suc_top[of "32 - n" w off] by (simp add: algebra_simps)
next
  case (v6 w n)
  then show ?thesis using assms(2) base_add_Suc_top[of "128 - n" w off] by (simp add: algebra_simps)
qed

lemma Contains_plus:
  assumes "wide_range p" "off < 2 ^ host_bits p"
  shows "prefix_Contains p (addr_plus (prefix_Addr p) off)"
  using assms(1)
proof (cases p rule: wide_range_cases)
  case (v4 w n)
  then show ?thesis using assms(2) unat_base_add_div[of "32 - n" w off]
    by (simp add: prefix_Contains_def drop_bit_xor_zero_iff del: drop_bit_xor)
next
  case (v6 w n)
  then show ?thesis using assms(2) unat_base_add_div[of "128 - n" w off]
    by (simp add: prefix_Contains_def drop_bit_xor_zero_iff del: drop_bit_xor)
qed

lemma addr_plus_inj:
  assumes "wide_range p" "i < 2 ^ host_bits p" "j < 2 ^ host_bits p"
  shows "addr_plus (prefix_Addr p) i = addr_plus (prefix_Addr p) j \<longleftrightarrow> i = j"
  using assms(1)
proof (cases p rule: wide_range_cases)
  case (v4 w n)
  then show ?thesis using assms(2,3) base_add_inj[of "32 - n" w i j] by (simp del: add_left_cancel)
next
  case (v6 w n)
  then show ?thesis using assms(2,3) base_add_inj[of "128 - n" w i j] by (simp del: add_left_cancel)
qed

text \<open>The loop of \<open>broadcastAddress\<close> sets exactly the host bits.\<close>

lemma bit_set_host_bits:
  "bit (set_host_bits bits raw) k \<longleftrightarrow> k < 128 \<and> (bit raw k \<or> k < 128 - bits)"
proof -
  have "bit (fold (\<lambda>i w. w OR push_bit (127 - i) 1) js (w :: 128 word)) k \<longleftrightarrow>
      k < 128 \<and> (bit w k \<or> (\<exists>i \<in> set js. k = 127 - i))" for js w
  proof (induction js arbitrary: w)
    case Nil
    then show ?case using bit_imp_le_length[of w k] by auto
  next
    case (Cons i js)
    then show ?case by (auto simp: bit_simps)
  qed
  moreover have "(\<exists>i \<in> set [bits..<128]. k = 127 - i) \<longleftrightarrow> k < 128 - bits" if "k < 128"
  proof
    assume "k < 128 - bits"
    then show "\<exists>i \<in> set [bits..<128]. k = 127 - i" using that by (intro bexI[of _ "127 - k"]) auto
  qed auto
  ultimately show ?thesis by (auto simp: set_host_bits_def)
qed

lemma set_host_bits_mask: "set_host_bits bits raw = raw OR mask (128 - bits)"
  by (rule bit_word_eqI) (auto simp: bit_set_host_bits bit_simps)

lemma broadcastAddress_plus:
  assumes "wide_range p"
  shows "broadcastAddress p = addr_plus (prefix_Addr p) (2 ^ host_bits p - 1)"
  using assms
proof (cases p rule: wide_range_cases)
  case (v4 w n)
  have "\<not> bit (0xffff00000000 :: 128 word) k" if "k < 32" for k
    using that bit_push_bit_iff[of 32 "0xffff :: 128 word" k] by simp
  then have "ucast (set_host_bits (n + 96) (0xffff00000000 OR ucast w)) = w OR mask (32 - n)"
    by (intro bit_word_eqI) (auto simp: set_host_bits_mask bit_simps)
  then show ?thesis using v4 base_or_mask[of "32 - n" w]
    by (simp add: broadcastAddress_def prefix_Bits_def)
next
  case (v6 w n)
  then show ?thesis using base_or_mask[of "128 - n" w]
    by (simp add: broadcastAddress_def prefix_Bits_def set_host_bits_mask)
qed

text \<open>The offset \<open>nextAddress\<close> moves to: \<open>2, 3, ..., 2 ^ h - 2\<close> and round again.\<close>

definition next_offset :: "prefix \<Rightarrow> nat \<Rightarrow> nat" where
  "next_offset p off = (if off + 2 = 2 ^ host_bits p then 2 else Suc off)"

lemma next_offset_range:
  assumes "wide_range p" "1 \<le> off" "off + 2 \<le> 2 ^ host_bits p"
  shows "2 \<le> next_offset p off \<and> next_offset p off + 2 \<le> 2 ^ host_bits p"
  using assms(2,3) wide_ge4[OF assms(1)] by (auto simp: next_offset_def)

lemma nextAddress_plus:
  assumes "wide_range p" "1 \<le> off" "off + 2 \<le> 2 ^ host_bits p"
  shows "nextAddress p (broadcastAddress p) (addr_plus (prefix_Addr p) off) =
         addr_plus (prefix_Addr p) (next_offset p off)"
proof -
  note w = assms(1) and four = wide_ge4[OF assms(1)]
  have zero: "addr_plus (prefix_Addr p) 0 = prefix_Addr p" by (cases "prefix_Addr p") auto
  have "addr_Next (addr_Next (prefix_Addr p)) = addr_plus (prefix_Addr p) 2"
    using addr_Next_plus[OF w, of 0] addr_Next_plus[OF w, of 1] four zero by (simp add: numeral_2_eq_2)
  moreover have "addr_Next (addr_plus (prefix_Addr p) off) = addr_plus (prefix_Addr p) (Suc off)"
    using addr_Next_plus[OF w, of off] assms(3) by simp
  moreover have "addr_plus (prefix_Addr p) (Suc off) = broadcastAddress p \<longleftrightarrow> off + 2 = 2 ^ host_bits p"
    using addr_plus_inj[OF w, of "Suc off" "2 ^ host_bits p - 1"] assms(3) four
    by (auto simp: broadcastAddress_plus[OF w])
  moreover have "prefix_Contains p (addr_plus (prefix_Addr p) (Suc off))"
    using Contains_plus[OF w, of "Suc off"] assms(3) by simp
  ultimately show ?thesis by (simp add: nextAddress_def next_offset_def)
qed

section \<open>The contract of a storage\<close>

text \<open>What the store relies on: a stored pair is found both ways, an address holds one domain, and
  the domain that loses its address is no longer found. \<open>invar\<close> is the storage's own invariant.\<close>

locale fakeip_backend =
  fixes S :: "'s fakeIPStorage"
    and invar :: "'s \<Rightarrow> bool"
  assumes store_inv: "invar st \<Longrightarrow> invar (snd (FakeIPStore S st a d))"
    and async_inv: "invar st \<Longrightarrow> invar (FakeIPSaveMetadataAsync S st m)"
    and reset_inv: "invar (snd (FakeIPReset S st))"
    and store_load: "FakeIPLoad S (snd (FakeIPStore S st a d)) b = (if b = a then Some d else FakeIPLoad S st b)"
    and store_load_domain:
      "invar st \<Longrightarrow> FakeIPLoadDomain S (snd (FakeIPStore S st a d)) d' v6 =
         (if v6 = (\<not> addr_Is4 a) \<and> d' = d then Some a
          else if v6 = (\<not> addr_Is4 a) \<and> FakeIPLoad S st a = Some d' then None
          else FakeIPLoadDomain S st d' v6)"
    and async_load: "FakeIPLoad S (FakeIPSaveMetadataAsync S st m) b = FakeIPLoad S st b"
    and async_load_domain: "FakeIPLoadDomain S (FakeIPSaveMetadataAsync S st m) d' v6 = FakeIPLoadDomain S st d' v6"
    and reset_load_domain: "FakeIPLoadDomain S (snd (FakeIPReset S st)) d' v6 = None"
    and load_domain_sound:
      "invar st \<Longrightarrow> FakeIPLoadDomain S st d' v6 = Some a \<Longrightarrow> FakeIPLoad S st a = Some d' \<and> v6 = (\<not> addr_Is4 a)"

text \<open>The memory storage keeps the contract.\<close>

definition memory_inv :: "memoryStorage \<Rightarrow> bool" where
  "memory_inv s \<longleftrightarrow>
     (\<forall>d a. domainCache4 s d = Some a \<longrightarrow> addressCache s a = Some d \<and> addr_Is4 a) \<and>
     (\<forall>d a. domainCache6 s d = Some a \<longrightarrow> addressCache s a = Some d \<and> \<not> addr_Is4 a)"

lemmas memory_ops = memory_def memory_FakeIPMetadata_def memory_FakeIPSaveMetadata_def
  memory_FakeIPSaveMetadataAsync_def memory_FakeIPStore_def memory_FakeIPLoad_def
  memory_FakeIPLoadDomain_def memory_FakeIPReset_def NewMemoryStorage_def

lemma memory_store_inv:
  assumes "memory_inv st"
  shows "memory_inv (snd (memory_FakeIPStore st a d))"
  using assms unfolding memory_inv_def
  by (auto simp: memory_FakeIPStore_def Let_def split: option.splits if_splits)

lemma memory_store_load_domain:
  assumes "memory_inv st"
  shows "memory_FakeIPLoadDomain (snd (memory_FakeIPStore st a d)) d' v6 =
     (if v6 = (\<not> addr_Is4 a) \<and> d' = d then Some a
      else if v6 = (\<not> addr_Is4 a) \<and> memory_FakeIPLoad st a = Some d' then None
      else memory_FakeIPLoadDomain st d' v6)"
  using assms unfolding memory_inv_def
  by (auto simp: memory_FakeIPStore_def memory_FakeIPLoad_def memory_FakeIPLoadDomain_def Let_def
      split: option.splits if_splits)

interpretation mem: fakeip_backend memory memory_inv
proof
  show "memory_inv st \<Longrightarrow> memory_inv (snd (FakeIPStore memory st a d))" for st a d
    using memory_store_inv by (simp add: memory_def)
  show "memory_inv st \<Longrightarrow> FakeIPLoadDomain memory (snd (FakeIPStore memory st a d)) d' v6 =
         (if v6 = (\<not> addr_Is4 a) \<and> d' = d then Some a
          else if v6 = (\<not> addr_Is4 a) \<and> FakeIPLoad memory st a = Some d' then None
          else FakeIPLoadDomain memory st d' v6)" for st a d d' v6
    using memory_store_load_domain by (simp add: memory_def)
  show "memory_inv st \<Longrightarrow> FakeIPLoadDomain memory st d' v6 = Some a \<Longrightarrow>
      FakeIPLoad memory st a = Some d' \<and> v6 = (\<not> addr_Is4 a)" for st d' v6 a
    by (cases v6) (auto simp: memory_ops memory_inv_def)
qed (auto simp: memory_ops memory_inv_def Let_def split: option.splits)

section \<open>The invariant of the store\<close>

definition rangeOf :: "bool \<Rightarrow> 's fakeip_store \<Rightarrow> prefix" where
  "rangeOf v6 s = (if v6 then inet6Range s else inet4Range s)"

definition lastOf :: "bool \<Rightarrow> 's fakeip_store \<Rightarrow> addr" where
  "lastOf v6 s = (if v6 then inet6Last s else inet4Last s)"

definition currentOf :: "bool \<Rightarrow> 's fakeip_store \<Rightarrow> addr" where
  "currentOf v6 s = (if v6 then inet6Current s else inet4Current s)"

text \<open>A configured range is wide and of its family, and the current address is neither its network
  address nor its broadcast address.\<close>

definition family_ok :: "bool \<Rightarrow> 's fakeip_store \<Rightarrow> bool" where
  "family_ok v6 s \<longleftrightarrow>
     (if prefix_IsValid (rangeOf v6 s)
      then wide_range (rangeOf v6 s) \<and> addr_Is4 (prefix_Addr (rangeOf v6 s)) = (\<not> v6) \<and>
           lastOf v6 s = broadcastAddress (rangeOf v6 s) \<and>
           (\<exists>off. 1 \<le> off \<and> off + 2 \<le> 2 ^ host_bits (rangeOf v6 s) \<and>
                  currentOf v6 s = addr_plus (prefix_Addr (rangeOf v6 s)) off)
      else currentOf v6 s = NoAddr)"

definition usable :: "prefix \<Rightarrow> addr \<Rightarrow> bool" where
  "usable p a \<longleftrightarrow> prefix_IsValid p \<and> (\<exists>off. 2 \<le> off \<and> off + 2 \<le> 2 ^ host_bits p \<and> a = addr_plus (prefix_Addr p) off)"

definition store_ok :: "'s fakeIPStorage \<Rightarrow> ('s \<Rightarrow> bool) \<Rightarrow> 's fakeip_store \<Rightarrow> bool" where
  "store_ok S invar s \<longleftrightarrow> family_ok False s \<and> family_ok True s \<and> invar (storage s) \<and>
     (\<forall>d v6 a. FakeIPLoadDomain S (storage s) d v6 = Some a \<longrightarrow> usable (rangeOf v6 s) a)"

definition set_current :: "bool \<Rightarrow> addr \<Rightarrow> 's fakeip_store \<Rightarrow> 's fakeip_store" where
  "set_current v6 a s = (if v6 then s\<lparr>inet6Current := a\<rparr> else s\<lparr>inet4Current := a\<rparr>)"

lemma set_current_simps [simp]:
  "rangeOf v (set_current v6 a s) = rangeOf v s"
  "lastOf v (set_current v6 a s) = lastOf v s"
  "currentOf v (set_current v6 a s) = (if v = v6 then a else currentOf v s)"
  "storage (set_current v6 a s) = storage s"
  by (auto simp: set_current_def rangeOf_def lastOf_def currentOf_def)

lemma storage_upd_simps [simp]:
  "rangeOf v (s\<lparr>storage := st\<rparr>) = rangeOf v s"
  "lastOf v (s\<lparr>storage := st\<rparr>) = lastOf v s"
  "currentOf v (s\<lparr>storage := st\<rparr>) = currentOf v s"
  "family_ok v (s\<lparr>storage := st\<rparr>) = family_ok v s"
  by (auto simp: rangeOf_def lastOf_def currentOf_def family_ok_def)


text \<open>\<open>Create\<close> on a domain the storage does not have.\<close>

lemma Create_new:
  assumes "FakeIPLoadDomain S (storage s) d v6 = None" "addr_IsValid (currentOf v6 s)"
    and a: "a = nextAddress (rangeOf v6 s) (lastOf v6 s) (currentOf v6 s)"
  shows "Store_Create S s d v6 = store_address S (set_current v6 a s) a d"
  using assms
  by (cases v6) (simp_all add: Store_Create_def Create_locked_def rangeOf_def lastOf_def currentOf_def
      set_current_def Let_def)

lemma Create_known:
  "FakeIPLoadDomain S (storage s) d v6 = Some a \<Longrightarrow> Store_Create S s d v6 = (Inr a, s)"
  by (simp add: Store_Create_def)

lemma Create_missing:
  "FakeIPLoadDomain S (storage s) d v6 = None \<Longrightarrow> \<not> addr_IsValid (currentOf v6 s) \<Longrightarrow>
   Store_Create S s d v6 =
     (Inl (ErrNew (if v6 then ''missing IPv6 fakeip address range'' else ''missing IPv4 fakeip address range'')), s)"
  by (cases v6) (simp_all add: Store_Create_def Create_locked_def currentOf_def)

lemma family_next:
  assumes "family_ok v6 s" "prefix_IsValid (rangeOf v6 s)"
    and a: "a = nextAddress (rangeOf v6 s) (lastOf v6 s) (currentOf v6 s)"
  shows "usable (rangeOf v6 s) a" "family_ok v (set_current v6 a s) = family_ok v s"
    "wide_range (rangeOf v6 s)" "addr_Is4 a = (\<not> v6)" "addr_IsValid (currentOf v6 s)"
proof -
  let ?p = "rangeOf v6 s"
  obtain off where w: "wide_range ?p" and is4: "addr_Is4 (prefix_Addr ?p) = (\<not> v6)"
    and lst: "lastOf v6 s = broadcastAddress ?p"
    and off: "1 \<le> off" "off + 2 \<le> 2 ^ host_bits ?p" "currentOf v6 s = addr_plus (prefix_Addr ?p) off"
    using assms(1,2) by (auto simp: family_ok_def)
  have eq: "a = addr_plus (prefix_Addr ?p) (next_offset ?p off)"
    using nextAddress_plus[OF w off(1,2)] a lst off(3) by simp
  note rng = next_offset_range[OF w off(1,2)]
  show us: "usable ?p a" using rng assms(2) eq by (auto simp: usable_def)
  show "wide_range ?p" by (rule w)
  show "addr_Is4 a = (\<not> v6)" using is4 eq by simp
  have "prefix_Addr ?p \<noteq> NoAddr" using w by (auto elim!: wide_range_cases)
  then show "addr_IsValid (currentOf v6 s)" using off(3) by (simp add: addr_IsValid_def)
  show "family_ok v (set_current v6 a s) = family_ok v s"
  proof (cases "v = v6")
    case True
    have "family_ok v6 (set_current v6 a s)"
      using assms(2) w is4 lst eq rng by (auto simp: family_ok_def intro!: exI[of _ "next_offset ?p off"])
    then show ?thesis using assms(1) True by simp
  next
    case False
    then show ?thesis by (simp add: family_ok_def)
  qed
qed

lemma Create_cases:
  assumes "family_ok v6 s"
  obtains (same) "snd (Store_Create S s d v6) = s"
    | (new) a where "a = nextAddress (rangeOf v6 s) (lastOf v6 s) (currentOf v6 s)" "prefix_IsValid (rangeOf v6 s)"
        "snd (Store_Create S s d v6) = snd (store_address S (set_current v6 a s) a d)"
proof (cases "FakeIPLoadDomain S (storage s) d v6")
  case None
  show ?thesis
  proof (cases "prefix_IsValid (rangeOf v6 s)")
    case True
    then show ?thesis
      using new[OF refl] Create_new[OF None family_next(5)[OF assms True refl] refl] by simp
  next
    case False
    then have "\<not> addr_IsValid (currentOf v6 s)" using assms by (simp add: family_ok_def addr_IsValid_def)
    then show ?thesis using same Create_missing[OF None] by simp
  qed
qed (use same in \<open>simp add: Create_known\<close>)

text \<open>Sequences of calls.\<close>

datatype store_op = OpCreate string bool | OpReset

fun run_op :: "'s fakeIPStorage \<Rightarrow> store_op \<Rightarrow> 's fakeip_store \<Rightarrow> 's fakeip_store" where
  "run_op S (OpCreate d v6) s = snd (Store_Create S s d v6)"
| "run_op S OpReset s = snd (Store_Reset S s)"

definition run_ops :: "'s fakeIPStorage \<Rightarrow> store_op list \<Rightarrow> 's fakeip_store \<Rightarrow> 's fakeip_store" where
  "run_ops S ops s = fold (run_op S) ops s"

lemma run_ops_simps [simp]:
  "run_ops S [] s = s"
  "run_ops S (x # ops) s = run_ops S ops (run_op S x s)"
  by (simp_all add: run_ops_def)

lemma store_address_simps [simp]:
  "fst (store_address S s a d) = Inr a"
  "rangeOf v (snd (store_address S s a d)) = rangeOf v s"
  "currentOf v (snd (store_address S s a d)) = currentOf v s"
  "lastOf v (snd (store_address S s a d)) = lastOf v s"
  "family_ok v (snd (store_address S s a d)) = family_ok v s"
  "storage (snd (store_address S s a d)) =
     FakeIPSaveMetadataAsync S (snd (FakeIPStore S (storage s) a d)) (store_metadata s)"
  by (simp_all add: store_address_def Let_def)

lemma usable_range: "usable p a \<Longrightarrow> prefix_IsValid p"
  by (simp add: usable_def)

context fakeip_backend
begin

lemma loads_after_store_address:
  "FakeIPLoad S (storage (snd (store_address S s a d))) b = (if b = a then Some d else FakeIPLoad S (storage s) b)"
  by (simp add: async_load store_load)

lemma store_address_ok:
  assumes "store_ok S invar s" "prefix_IsValid (rangeOf v6 s)"
    and a: "a = nextAddress (rangeOf v6 s) (lastOf v6 s) (currentOf v6 s)"
  shows "store_ok S invar (snd (store_address S (set_current v6 a s) a d))"
    "FakeIPLoadDomain S (storage (snd (store_address S (set_current v6 a s) a d))) d v6 = Some a"
proof -
  have fam: "family_ok v6 s" using assms(1) by (cases v6) (auto simp: store_ok_def)
  note n = family_next[OF fam assms(2) a]
  have iv: "invar (storage s)" using assms(1) by (simp add: store_ok_def)
  show "FakeIPLoadDomain S (storage (snd (store_address S (set_current v6 a s) a d))) d v6 = Some a"
    using n(4) by (simp add: async_load_domain store_load_domain[OF iv])
  show "store_ok S invar (snd (store_address S (set_current v6 a s) a d))"
    using assms(1) n(1,2,4)
    by (auto simp: store_ok_def async_inv store_inv async_load_domain store_load_domain[OF iv] split: if_splits)
qed

lemma Create_ok:
  assumes ok: "store_ok S invar s" and v: "prefix_IsValid (rangeOf v6 s)"
  obtains a s' where "Store_Create S s d v6 = (Inr a, s')" "store_ok S invar s'" "usable (rangeOf v6 s) a"
    "FakeIPLoadDomain S (storage s') d v6 = Some a"
proof (cases "FakeIPLoadDomain S (storage s) d v6")
  case None
  define a where "a = nextAddress (rangeOf v6 s) (lastOf v6 s) (currentOf v6 s)"
  have fam: "family_ok v6 s" using ok by (cases v6) (auto simp: store_ok_def)
  note n = family_next[OF fam v a_def]
  have "Store_Create S s d v6 = (Inr a, snd (store_address S (set_current v6 a s) a d))"
    using Create_new[OF None n(5) a_def] by (metis store_address_simps(1) prod.collapse)
  then show ?thesis using that store_address_ok[OF ok v a_def] n(1) by blast
next
  case (Some a)
  then show ?thesis using that[of a s] ok by (auto simp: Create_known store_ok_def)
qed

lemma Create_keeps_ok:
  assumes ok: "store_ok S invar s"
  shows "store_ok S invar (snd (Store_Create S s d v6))" "rangeOf v (snd (Store_Create S s d v6)) = rangeOf v s"
proof -
  have fam: "family_ok v6 s" using ok by (cases v6) (auto simp: store_ok_def)
  show "store_ok S invar (snd (Store_Create S s d v6))"
  proof (cases "prefix_IsValid (rangeOf v6 s)")
    case True
    obtain a s' where "Store_Create S s d v6 = (Inr a, s')" "store_ok S invar s'"
      using Create_ok[OF ok True] by blast
    then show ?thesis by simp
  next
    case False
    then have "\<not> addr_IsValid (currentOf v6 s)" using fam by (simp add: family_ok_def addr_IsValid_def)
    moreover have "FakeIPLoadDomain S (storage s) d v6 = None"
      using ok False usable_range by (metis not_None_eq store_ok_def)
    ultimately show ?thesis using ok by (simp add: Create_missing)
  qed
  show "rangeOf v (snd (Store_Create S s d v6)) = rangeOf v s"
    by (auto simp: Store_Create_def Create_locked_def Let_def store_address_def rangeOf_def split: option.splits)
qed

lemma Reset_keeps_ok: "store_ok S invar s \<Longrightarrow> store_ok S invar (snd (Store_Reset S s))"
  by (auto simp: store_ok_def Store_Reset_def reset_inv reset_load_domain split: prod.splits)
    (metis reset_inv reset_load_domain snd_conv option.distinct(1))+

lemma run_ops_ok:
  "store_ok S invar s \<Longrightarrow> store_ok S invar (run_ops S ops s) \<and> rangeOf v (run_ops S ops s) = rangeOf v s"
proof (induction ops arbitrary: s)
  case (Cons x ops)
  have "store_ok S invar (run_op S x s)" "rangeOf v (run_op S x s) = rangeOf v s"
    using Cons.prems Create_keeps_ok Reset_keeps_ok
    by (cases x; auto simp: Store_Reset_def split: prod.splits)+
  then show ?case using Cons.IH[of "run_op S x s"] by simp
qed simp

end

section \<open>How long an address keeps its domain\<close>

text \<open>The usable offsets form a cycle of length \<open>2 ^ h - 3\<close>.\<close>

definition pool_size :: "prefix \<Rightarrow> nat" where
  "pool_size p = 2 ^ host_bits p - 3"

fun creates :: "bool \<Rightarrow> store_op list \<Rightarrow> nat" where
  "creates v6 [] = 0"
| "creates v6 (OpCreate d v # ops) = (if v = v6 then 1 else 0) + creates v6 ops"
| "creates v6 (OpReset # ops) = creates v6 ops"

lemma next_offset_cycle:
  assumes "wide_range p" "2 \<le> off" "off + 2 \<le> 2 ^ host_bits p"
  shows "next_offset p off - 2 = Suc (off - 2) mod pool_size p"
proof -
  have "Suc (off - 2) \<le> pool_size p" using assms wide_ge4[OF assms(1)] by (simp add: pool_size_def)
  moreover have "off + 2 = 2 ^ host_bits p \<longleftrightarrow> Suc (off - 2) = pool_size p"
    using assms(2,3) wide_ge4[OF assms(1)] by (auto simp: pool_size_def)
  ultimately show ?thesis using assms(2) by (auto simp: next_offset_def)
qed

lemma cycle_distinct:
  fixes x j N :: nat
  assumes "0 < j" "j < N"
  shows "(x + j) mod N \<noteq> x mod N"
proof
  assume "(x + j) mod N = x mod N"
  then have "N dvd j" by (metis add_diff_cancel_left' mod_eq_dvd_iff_nat le_add1)
  then show False using assms by (auto dest: dvd_imp_le)
qed

text \<open>\<open>ahead p o cur j\<close>: the current address is \<open>j\<close> places after the offset \<open>o\<close> in the cycle.\<close>

definition ahead :: "prefix \<Rightarrow> nat \<Rightarrow> addr \<Rightarrow> nat \<Rightarrow> bool" where
  "ahead p off cur j \<longleftrightarrow> (\<exists>c. 2 \<le> c \<and> c + 2 \<le> 2 ^ host_bits p \<and> cur = addr_plus (prefix_Addr p) c \<and>
     c - 2 = (off - 2 + j) mod pool_size p)"

lemma ahead_step:
  assumes "wide_range p" "2 \<le> off" "off + 2 \<le> 2 ^ host_bits p" "ahead p off cur j" "Suc j < pool_size p"
    and a: "a = nextAddress p (broadcastAddress p) cur"
  shows "ahead p off a (Suc j)" "a \<noteq> addr_plus (prefix_Addr p) off"
proof -
  note w = assms(1)
  obtain c where c: "2 \<le> c" "c + 2 \<le> 2 ^ host_bits p" "cur = addr_plus (prefix_Addr p) c"
    "c - 2 = (off - 2 + j) mod pool_size p"
    using assms(4) by (auto simp: ahead_def)
  have c1: "1 \<le> c" using c(1) by simp
  have eq: "a = addr_plus (prefix_Addr p) (next_offset p c)" using nextAddress_plus[OF w c1 c(2)] c(3) a by simp
  have pos: "next_offset p c - 2 = (off - 2 + Suc j) mod pool_size p"
    using next_offset_cycle[OF w c(1,2)] c(4) by (simp add: mod_Suc_eq)
  note rng = next_offset_range[OF w c1 c(2)]
  show "ahead p off a (Suc j)" using rng eq pos by (auto simp: ahead_def)
  have "off - 2 < pool_size p" using assms(2,3) wide_ge4[OF w] by (simp add: pool_size_def)
  then have "(off - 2 + Suc j) mod pool_size p \<noteq> off - 2"
    using cycle_distinct[of "Suc j" "pool_size p" "off - 2"] assms(5) by simp
  then have "next_offset p c \<noteq> off" using pos by auto
  then show "a \<noteq> addr_plus (prefix_Addr p) off"
    using addr_plus_inj[OF w, of "next_offset p c" off] rng assms(3) eq by simp
qed

context fakeip_backend
begin

lemma Create_step_ahead:
  assumes ok: "store_ok S invar s" and v: "prefix_IsValid (rangeOf v6 s)"
    and off: "2 \<le> off" "off + 2 \<le> 2 ^ host_bits (rangeOf v6 s)"
    and ah: "ahead (rangeOf v6 s) off (currentOf v6 s) j"
    and room: "j + creates v6 [OpCreate d' w6] < pool_size (rangeOf v6 s)"
    and ld: "FakeIPLoad S (storage s) (addr_plus (prefix_Addr (rangeOf v6 s)) off) = Some d"
  shows "\<exists>i \<le> creates v6 [OpCreate d' w6]. ahead (rangeOf v6 s) off (currentOf v6 (snd (Store_Create S s d' w6))) (j + i)"
    "FakeIPLoad S (storage (snd (Store_Create S s d' w6))) (addr_plus (prefix_Addr (rangeOf v6 s)) off) = Some d"
proof -
  let ?p = "rangeOf v6 s" and ?s = "snd (Store_Create S s d' w6)"
  have fams: "family_ok v s" for v using ok by (cases v) (auto simp: store_ok_def)
  have p: "wide_range ?p" "addr_Is4 (prefix_Addr ?p) = (\<not> v6)" "lastOf v6 s = broadcastAddress ?p"
    using fams[of v6] v by (auto simp: family_ok_def)
  from fams[of w6] have "(\<exists>i \<le> creates v6 [OpCreate d' w6]. ahead ?p off (currentOf v6 ?s) (j + i)) \<and>
    FakeIPLoad S (storage ?s) (addr_plus (prefix_Addr ?p) off) = Some d"
  proof (cases rule: Create_cases[where S = S and d = d'])
    case same
    then show ?thesis using ah ld by (auto intro: exI[of _ 0])
  next
    case (new a)
    have is4: "addr_Is4 a = (\<not> w6)" using family_next(4)[OF fams[of w6] new(2,1)] .
    show ?thesis
    proof (cases "w6 = v6")
      case True
      have "ahead ?p off a (Suc j)" "a \<noteq> addr_plus (prefix_Addr ?p) off"
        using ahead_step[OF p(1) off ah, of a] new(1) True p(3) room by auto
      then show ?thesis using new(3) ld True by (auto simp: async_load store_load)
    next
      case False
      then have "a \<noteq> addr_plus (prefix_Addr ?p) off" using is4 p(2) by auto
      then show ?thesis using new(3) ld ah False by (auto simp: async_load store_load)
    qed
  qed
  then show "\<exists>i \<le> creates v6 [OpCreate d' w6]. ahead ?p off (currentOf v6 ?s) (j + i)"
    "FakeIPLoad S (storage ?s) (addr_plus (prefix_Addr ?p) off) = Some d" by auto
qed

lemma run_ops_keep:
  assumes "store_ok S invar s" "prefix_IsValid (rangeOf v6 s)" "OpReset \<notin> set ops"
    and "2 \<le> off" "off + 2 \<le> 2 ^ host_bits (rangeOf v6 s)"
    and "ahead (rangeOf v6 s) off (currentOf v6 s) j"
    and "j + creates v6 ops < pool_size (rangeOf v6 s)"
    and "FakeIPLoad S (storage s) (addr_plus (prefix_Addr (rangeOf v6 s)) off) = Some d"
  shows "FakeIPLoad S (storage (run_ops S ops s)) (addr_plus (prefix_Addr (rangeOf v6 s)) off) = Some d"
  using assms
proof (induction ops arbitrary: s j)
  case (Cons x ops)
  then obtain d' w6 where x: "x = OpCreate d' w6" by (cases x) auto
  let ?s = "snd (Store_Create S s d' w6)"
  have room: "j + creates v6 [OpCreate d' w6] < pool_size (rangeOf v6 s)"
    using Cons.prems(7) by (auto simp: x)
  note step = Create_step_ahead[OF Cons.prems(1,2,4,5,6) room Cons.prems(8)]
  note keep = Create_keeps_ok[OF Cons.prems(1)]
  obtain i where i: "i \<le> creates v6 [OpCreate d' w6]" "ahead (rangeOf v6 s) off (currentOf v6 ?s) (j + i)"
    using step(1) by auto
  have "j + i + creates v6 ops < pool_size (rangeOf v6 s)" using i(1) Cons.prems(7) by (auto simp: x)
  then show ?case
    using Cons.IH[of ?s "j + i"] keep(1)[of d' w6] keep(2)[of v6 d' w6] Cons.prems i step(2) by (simp add: x)
qed simp

lemma Create_valid:
  assumes ok: "store_ok S invar s" and cr: "Store_Create S s d v6 = (Inr a, s')"
  shows "prefix_IsValid (rangeOf v6 s)"
proof (rule ccontr)
  assume inv: "\<not> ?thesis"
  have "family_ok v6 s" using ok by (cases v6) (auto simp: store_ok_def)
  then have "\<not> addr_IsValid (currentOf v6 s)" using inv by (simp add: family_ok_def addr_IsValid_def)
  moreover have "FakeIPLoadDomain S (storage s) d v6 = None"
    using ok inv usable_range by (metis not_None_eq store_ok_def)
  ultimately show False using cr by (simp add: Create_missing)
qed

lemma Create_keeps_domain:
  assumes ok: "store_ok S invar s" and new: "FakeIPLoadDomain S (storage s) d v6 = None"
    and cr: "Store_Create S s d v6 = (Inr a, s')"
    and ops: "OpReset \<notin> set ops" "creates v6 ops < pool_size (rangeOf v6 s)"
  shows "FakeIPLoad S (storage (run_ops S ops s')) a = Some d"
proof -
  have fam: "family_ok v6 s" using ok by (cases v6) (auto simp: store_ok_def)
  have v: "prefix_IsValid (rangeOf v6 s)" by (rule Create_valid[OF ok cr])
  define b where "b = nextAddress (rangeOf v6 s) (lastOf v6 s) (currentOf v6 s)"
  note n = family_next[OF fam v b_def]
  have "Store_Create S s d v6 = store_address S (set_current v6 b s) b d" by (rule Create_new[OF new n(5) b_def])
  then have ab: "a = b" "s' = snd (store_address S (set_current v6 b s) b d)"
    using cr by (metis fst_conv store_address_simps(1) sum.inject(2), metis snd_conv)
  obtain off where off: "2 \<le> off" "off + 2 \<le> 2 ^ host_bits (rangeOf v6 s)"
    "b = addr_plus (prefix_Addr (rangeOf v6 s)) off" using n(1) by (auto simp: usable_def)
  have "off - 2 < pool_size (rangeOf v6 s)" using off wide_ge4[OF n(3)] by (simp add: pool_size_def)
  then have "ahead (rangeOf v6 s') off (currentOf v6 s') 0" using off ab by (auto simp: ahead_def)
  moreover have "store_ok S invar s'" using store_address_ok(1)[OF ok v b_def] ab by simp
  ultimately show ?thesis
    using run_ops_keep[of s' v6 ops off 0 d] ops off ab v by (simp add: async_load store_load)
qed

end

section \<open>The saved metadata\<close>

text \<open>\<open>adapter/fakeip_metadata.go\<close>: four elements, each with its length before it. \<open>common.Must\<close>
  panics when the length cannot be read: \<open>None\<close> is the panic.\<close>

definition write_element :: "bytes \<Rightarrow> bytes" where
  "write_element data = be_bytes 2 (of_nat (length data) :: u16) @ data"

definition FakeIPMetadata_MarshalBinary :: "fakeIPMetadata \<Rightarrow> bytes" where
  "FakeIPMetadata_MarshalBinary m =
     concat (map write_element [prefix_MarshalBinary (Inet4Range m), prefix_MarshalBinary (Inet6Range m),
       addr_MarshalBinary (Inet4Current m), addr_MarshalBinary (Inet6Current m)])"

definition read_element :: "(bytes \<Rightarrow> 'a result) \<Rightarrow> bytes \<Rightarrow> ('a \<times> bytes) result option" where
  "read_element unmarshal reader =
     (case read_full 2 reader of
        Inl e \<Rightarrow> None
      | Inr (len, reader1) \<Rightarrow>
          Some (rbind (read_full (of_be len) reader1) (\<lambda>(element, reader2).
            rbind (unmarshal element) (\<lambda>v. Inr (v, reader2)))))"

definition then_read ::
  "('a \<times> bytes) result option \<Rightarrow> ('a \<Rightarrow> bytes \<Rightarrow> 'b result option) \<Rightarrow> 'b result option" where
  "then_read r f = (case r of None \<Rightarrow> None | Some (Inl e) \<Rightarrow> Some (Inl e) | Some (Inr (v, rest)) \<Rightarrow> f v rest)"

definition FakeIPMetadata_UnmarshalBinary :: "bytes \<Rightarrow> fakeIPMetadata result option" where
  "FakeIPMetadata_UnmarshalBinary data =
     then_read (read_element prefix_UnmarshalBinary data) (\<lambda>r4 reader1.
     then_read (read_element prefix_UnmarshalBinary reader1) (\<lambda>r6 reader2.
     then_read (read_element addr_UnmarshalBinary reader2) (\<lambda>c4 reader3.
     then_read (read_element addr_UnmarshalBinary reader3) (\<lambda>c6 reader4.
       Some (Inr \<lparr>Inet4Range = r4, Inet6Range = r6, Inet4Current = c4, Inet6Current = c6\<rparr>)))))"

lemma read_write_element:
  assumes "length data < 65536" "unmarshal data = Inr v"
  shows "read_element unmarshal (write_element data @ rest) = Some (Inr (v, rest))"
proof -
  have "of_be (be_bytes 2 (of_nat (length data) :: u16)) = length data"
    using assms(1) by (simp add: of_be_bytes unat_of_nat del: be_bytes.simps)
  then show ?thesis using assms(2)
    by (simp add: read_element_def write_element_def del: be_bytes.simps)
qed

lemma then_read_ok [simp]: "then_read (Some (Inr (v, rest))) f = f v rest"
  by (simp add: then_read_def)

definition zone_short :: "addr \<Rightarrow> bool" where
  "zone_short a \<longleftrightarrow> length (addr_MarshalBinary a) < 65536"

lemma length_prefix_MarshalBinary: "length (prefix_MarshalBinary p) < 65536"
  by (cases "prefix_Addr p") (simp_all add: prefix_MarshalBinary_def)

lemma read_prefix_element:
  "prefix_wf p \<Longrightarrow> read_element prefix_UnmarshalBinary (write_element (prefix_MarshalBinary p) @ rest) = Some (Inr (p, rest))"
  by (simp add: read_write_element[of "prefix_MarshalBinary p" prefix_UnmarshalBinary p rest]
      length_prefix_MarshalBinary prefix_binary_round_trip)

lemma read_addr_element:
  "zone_short a \<Longrightarrow> read_element addr_UnmarshalBinary (write_element (addr_MarshalBinary a) @ rest) = Some (Inr (a, rest))"
  by (simp add: read_write_element[of "addr_MarshalBinary a" addr_UnmarshalBinary a rest] zone_short_def)

lemma metadata_round_trip_gen:
  assumes "prefix_wf (Inet4Range m)" "prefix_wf (Inet6Range m)" "zone_short (Inet4Current m)" "zone_short (Inet6Current m)"
  shows "FakeIPMetadata_UnmarshalBinary (FakeIPMetadata_MarshalBinary m) = Some (Inr m)"
  using assms read_addr_element[of _ "[]"]
  by (simp add: FakeIPMetadata_UnmarshalBinary_def FakeIPMetadata_MarshalBinary_def read_prefix_element read_addr_element)

lemma family_zone_short:
  assumes "family_ok v6 s"
  shows "zone_short (currentOf v6 s)"
  using assms
proof (cases "prefix_IsValid (rangeOf v6 s)")
  case True
  then obtain off where "wide_range (rangeOf v6 s)" "currentOf v6 s = addr_plus (prefix_Addr (rangeOf v6 s)) off"
    using assms by (auto simp: family_ok_def)
  then show ?thesis by (auto simp: zone_short_def elim!: wide_range_cases)
qed (simp add: family_ok_def zone_short_def)

section \<open>The started store\<close>

definition ranges_ok :: "prefix \<Rightarrow> prefix \<Rightarrow> bool" where
  "ranges_ok r4 r6 \<longleftrightarrow>
     (if prefix_IsValid r4 then wide_range r4 \<and> addr_Is4 (prefix_Addr r4) else True) \<and>
     (if prefix_IsValid r6 then wide_range r6 \<and> addr_Is6 (prefix_Addr r6) else True)"

text \<open>The store of a configuration without a cache file, after \<open>Start\<close>.\<close>

definition started :: "prefix \<Rightarrow> prefix \<Rightarrow> memoryStorage fakeip_store" where
  "started r4 r6 = Store_Start memory (NewStore r4 r6 NewMemoryStorage)"

lemma started_simps [simp]:
  "rangeOf v6 (started r4 r6) = (if v6 then r6 else r4)"
  "lastOf v6 (started r4 r6) = (if prefix_IsValid (if v6 then r6 else r4) then broadcastAddress (if v6 then r6 else r4) else NoAddr)"
  "currentOf v6 (started r4 r6) = (if prefix_IsValid (if v6 then r6 else r4) then addr_Next (prefix_Addr (if v6 then r6 else r4)) else NoAddr)"
  "storage (started r4 r6) = NewMemoryStorage"
  by (auto simp: started_def Store_Start_def NewStore_def rangeOf_def lastOf_def currentOf_def first_current_def memory_ops)

lemma started_ok:
  assumes "ranges_ok r4 r6"
  shows "store_ok memory memory_inv (started r4 r6)"
proof -
  have first: "\<exists>off. 1 \<le> off \<and> off + 2 \<le> 2 ^ host_bits p \<and> addr_Next (prefix_Addr p) = addr_plus (prefix_Addr p) off"
    if w: "wide_range p" for p
  proof -
    have "prefix_Addr p = addr_plus (prefix_Addr p) 0" by (cases "prefix_Addr p") auto
    then show ?thesis using addr_Next_plus[OF w, of 0] wide_ge4[OF w] by (intro exI[of _ 1]) simp
  qed
  have is6: "\<not> addr_Is4 a" if "addr_Is6 a" for a using that by (cases a) auto
  have "family_ok v6 (started r4 r6)" for v6
    using assms first is6 by (cases v6) (auto simp: family_ok_def ranges_ok_def)
  then show ?thesis by (auto simp: store_ok_def memory_inv_def memory_ops split: if_splits)
qed

lemmas started_run_ok = mem.run_ops_ok[OF started_ok]

section \<open>Properties\<close>

definition example_range4 :: prefix where
  "example_range4 = Prefix (Addr4 0xc6120000) (Some 29)"

definition example_range6 :: prefix where
  "example_range6 = Prefix (Addr6 0xfc000000000000000000000000000000 []) (Some 125)"

definition example_store :: "memoryStorage fakeip_store" where
  "example_store = run_ops memory [OpCreate ''a.example'' False, OpReset, OpCreate ''b.example'' True]
     (started example_range4 example_range6)"

lemma example_ranges_ok: "ranges_ok example_range4 example_range6"
  by code_simp



text \<open>C7. The address a domain gets leads back to the domain, and every later call for the domain, also
  one that found nothing before it waited for the lock, returns the same address and changes nothing.\<close>

theorem Create_Lookup:
  assumes "ranges_ok r4 r6" "Store_Create memory (run_ops memory ops (started r4 r6)) d v6 = (Inr a, s')"
  shows "Store_Lookup memory s' a = Some d \<and> Store_Create memory s' d v6 = (Inr a, s') \<and>
    Create_locked memory s' d v6 = (Inr a, s')"
proof -
  let ?s = "run_ops memory ops (started r4 r6)"
  have ok: "store_ok memory memory_inv ?s" using started_run_ok[OF assms(1)] by simp
  have valid: "prefix_IsValid (rangeOf v6 ?s)"
    using mem.Create_valid[OF ok assms(2)] .
  obtain b t where t: "Store_Create memory ?s d v6 = (Inr b, t)" "store_ok memory memory_inv t"
    "FakeIPLoadDomain memory (storage t) d v6 = Some b"
    using mem.Create_ok[OF ok valid, of d] by metis
  then have eq: "b = a" "t = s'" using assms(2) by auto
  have "memory_inv (storage s')" using t(2) eq by (simp add: store_ok_def)
  then have "FakeIPLoad memory (storage s') a = Some d" using mem.load_domain_sound[of "storage s'" d v6 a] t(3) eq by simp
  then show ?thesis using t(3) eq by (simp add: Store_Lookup_def Create_known Create_locked_def)
qed

theorem Create_Lookup_witness:
  "\<exists>a s'. Store_Create memory (run_ops memory [] (started example_range4 example_range6)) ''a.example'' False = (Inr a, s') \<and>
    Store_Lookup memory s' a = Some ''a.example''"
proof -
  have "fst (Store_Create memory (run_ops memory [] (started example_range4 example_range6)) ''a.example'' False)
      = Inr (Addr4 0xc6120002)"
    by code_simp
  then obtain s' where
    "Store_Create memory (run_ops memory [] (started example_range4 example_range6)) ''a.example'' False = (Inr (Addr4 0xc6120002), s')"
    by (metis prod.collapse)
  then show ?thesis using Create_Lookup[OF example_ranges_ok] by blast
qed



text \<open>C9. The metadata \<open>Close\<close> saves is read back unchanged: unmarshalling what a running store
  marshals neither panics nor fails and gives the same ranges and current addresses.\<close>

theorem metadata_round_trip:
  assumes "ranges_ok r4 r6" "prefix_wf r4" "prefix_wf r6" "s = run_ops memory ops (started r4 r6)"
  shows "FakeIPMetadata_UnmarshalBinary (FakeIPMetadata_MarshalBinary (store_metadata s)) =
    Some (Inr (store_metadata s))"
proof -
  have ok: "store_ok memory memory_inv s" and rng: "rangeOf v s = (if v then r6 else r4)" for v
    using started_run_ok[OF assms(1), of ops] assms(4) by auto
  have "family_ok v s" for v using ok by (cases v) (auto simp: store_ok_def)
  then have "zone_short (currentOf v s)" for v by (rule family_zone_short)
  from this[of False] this[of True] have "zone_short (inet4Current s)" "zone_short (inet6Current s)"
    by (simp_all add: currentOf_def)
  moreover have "inet4Range s = r4" "inet6Range s = r6" using rng[of False] rng[of True] by (simp_all add: rangeOf_def)
  ultimately show ?thesis using assms(2,3) by (intro metadata_round_trip_gen) (simp_all add: store_metadata_def)
qed

theorem metadata_round_trip_witness:
  "FakeIPMetadata_UnmarshalBinary (FakeIPMetadata_MarshalBinary (store_metadata example_store)) =
    Some (Inr (store_metadata example_store))"
proof -
  have "prefix_wf example_range4" "prefix_wf example_range6" by code_simp+
  then show ?thesis using metadata_round_trip[OF example_ranges_ok] example_store_def by blast
qed


end
