(* ===== verification/Headless_Rule.thy ===== *)
theory Headless_Rule
  imports Rule_Match
begin

text \<open>
  The rules of a rule set from their options: the option types of \<open>option/rule_set.go\<close>, their
  \<open>IsValid\<close>, and the constructors of \<open>route/rule/rule_headless.go\<close>. A list that is nil and an empty
  list are the same but for the comparison with the zero value in \<open>IsValid\<close>, where they differ: the field
  \<open>dh_EmptyList\<close> says that some list is present and empty. The domain matchers, the IP sets, regular expressions and the parsers of
  addresses are library code; they are the fields of \<open>rule_lib\<close>. A compiled IP set is the list of
  address ranges it has inside.
\<close>

section \<open>Options\<close>

type_synonym ip_ranges = "(addr \<times> addr) list"

record ('m, 'g) defaultHeadlessOptions =
  dh_QueryType :: "u16 list"
  dh_Network :: "string list"
  dh_Domain :: "string list"
  dh_DomainSuffix :: "string list"
  dh_DomainKeyword :: "string list"
  dh_DomainRegex :: "string list"
  dh_SourceIPCIDR :: "string list"
  dh_IPCIDR :: "string list"
  dh_SourcePort :: "u16 list"
  dh_SourcePortRange :: "string list"
  dh_Port :: "u16 list"
  dh_PortRange :: "string list"
  dh_ProcessName :: "string list"
  dh_ProcessPath :: "string list"
  dh_ProcessPathRegex :: "string list"
  dh_PackageName :: "string list"
  dh_PackageNameRegex :: "string list"
  dh_NetworkType :: "u8 list"
  dh_NetworkIsExpensive :: bool
  dh_NetworkIsConstrained :: bool
  dh_WIFISSID :: "string list"
  dh_WIFIBSSID :: "string list"
  dh_NetworkInterfaceAddress :: "(u8 \<times> prefix list) list option"
  dh_DefaultInterfaceAddress :: "prefix list"
  dh_Invert :: bool
  dh_DomainMatcher :: "'m option"
  dh_SourceIPSet :: "ip_ranges option"
  dh_IPSet :: "ip_ranges option"
  dh_AdGuardDomain :: "string list"
  dh_AdGuardDomainMatcher :: "'g option"
  dh_EmptyList :: bool

text \<open>The zero value of the struct.\<close>

definition noHeadlessOptions :: "('m, 'g) defaultHeadlessOptions" where
  "noHeadlessOptions =
     \<lparr>dh_QueryType = [], dh_Network = [], dh_Domain = [], dh_DomainSuffix = [], dh_DomainKeyword = [],
      dh_DomainRegex = [], dh_SourceIPCIDR = [], dh_IPCIDR = [], dh_SourcePort = [], dh_SourcePortRange = [],
      dh_Port = [], dh_PortRange = [], dh_ProcessName = [], dh_ProcessPath = [], dh_ProcessPathRegex = [],
      dh_PackageName = [], dh_PackageNameRegex = [], dh_NetworkType = [], dh_NetworkIsExpensive = False,
      dh_NetworkIsConstrained = False, dh_WIFISSID = [], dh_WIFIBSSID = [], dh_NetworkInterfaceAddress = None,
      dh_DefaultInterfaceAddress = [], dh_Invert = False, dh_DomainMatcher = None, dh_SourceIPSet = None,
      dh_IPSet = None, dh_AdGuardDomain = [], dh_AdGuardDomainMatcher = None, dh_EmptyList = False\<rparr>"

text \<open>\<open>option.HeadlessRule\<close> by its type: the default one, the logical one, or a type that is neither.
  JSON decoding replaces an empty type by the default one.\<close>

datatype ('m, 'g) headlessOptions =
    DefaultOptions "('m, 'g) defaultHeadlessOptions"
  | LogicalOptions (lo_Mode: string) (lo_Rules: "('m, 'g) headlessOptions list") (lo_Invert: bool)
  | UnknownType string

definition default_IsValid :: "('m, 'g) defaultHeadlessOptions \<Rightarrow> bool" where
  "default_IsValid r \<longleftrightarrow> r \<noteq> noHeadlessOptions\<lparr>dh_Invert := dh_Invert r\<rparr>"

text \<open>\<open>IsValid\<close> of an unknown type panics, which is \<open>None\<close>; \<open>common.All\<close> stops at the first rule that is
  not valid.\<close>

fun all_valid :: "bool option list \<Rightarrow> bool option" where
  "all_valid [] = Some True"
| "all_valid (None # rs) = None"
| "all_valid (Some False # rs) = Some False"
| "all_valid (Some True # rs) = all_valid rs"

primrec headless_IsValid :: "('m, 'g) headlessOptions \<Rightarrow> bool option" where
  "headless_IsValid (DefaultOptions r) = Some (default_IsValid r)"
| "headless_IsValid (LogicalOptions md rs ivt) =
     (if length rs > 0 then all_valid (map headless_IsValid rs) else Some False)"
| "headless_IsValid (UnknownType t) = None"

section \<open>Building a rule item by item\<close>

record ('m, 'g) rule_lib =
  NewMatcher :: "string list \<Rightarrow> string list \<Rightarrow> bool \<Rightarrow> 'm"
  Matcher_Match :: "'m \<Rightarrow> matcher"
  NewAdGuardMatcher :: "string list \<Rightarrow> 'g"
  AdGuardMatcher_Match :: "'g \<Rightarrow> matcher"
  regexp_Compile :: "string \<Rightarrow> matcher result"
  netip_ParsePrefix :: "string \<Rightarrow> prefix result"
  netip_ParseAddr :: "string \<Rightarrow> addr result"
  IPSetBuilder_IPSet :: "ip_entry list \<Rightarrow> ip_ranges result"
  IPSet_Contains :: "ip_ranges \<Rightarrow> addr \<Rightarrow> bool"
  NormalizeWIFIBSSID :: "string \<Rightarrow> string"
  format_int :: "nat \<Rightarrow> string"

datatype slot = Items | SourceAddressItems | SourcePortItems | DestinationAddressItems | DestinationIPCIDRItems | DestinationPortItems

definition new_rule :: "bool \<Rightarrow> 'a option \<Rightarrow> 'a abstractDefaultRule" where
  "new_rule ivt act = AbstractDefaultRule [] [] [] [] [] [] [] None ivt act"

text \<open>\<open>rule.xItems = append(rule.xItems, item); rule.allItems = append(rule.allItems, item)\<close>.\<close>

fun add_item :: "slot \<Rightarrow> rule_item \<Rightarrow> 'a abstractDefaultRule \<Rightarrow> 'a abstractDefaultRule" where
  "add_item sl it (AbstractDefaultRule its srcA srcP dstA dstC dstP allI rsi ivt act) =
     AbstractDefaultRule
       (if sl = Items then its @ [it] else its)
       (if sl = SourceAddressItems then srcA @ [it] else srcA)
       (if sl = SourcePortItems then srcP @ [it] else srcP)
       (if sl = DestinationAddressItems then dstA @ [it] else dstA)
       (if sl = DestinationIPCIDRItems then dstC @ [it] else dstC)
       (if sl = DestinationPortItems then dstP @ [it] else dstP)
       (allI @ [ItemRef it]) rsi ivt act"

text \<open>One \<open>if condition { item, err := New...; if err != nil { return }; append }\<close>: \<open>None\<close> when the condition
  does not hold.\<close>

type_synonym item_step = "(slot \<times> rule_item result) option"

definition item_when :: "bool \<Rightarrow> slot \<Rightarrow> rule_item result \<Rightarrow> item_step" where
  "item_when c sl r = (if c then Some (sl, r) else None)"

fun run_steps :: "item_step list \<Rightarrow> 'a abstractDefaultRule \<Rightarrow> 'a abstractDefaultRule result" where
  "run_steps [] rule = Inr rule"
| "run_steps (None # steps) rule = run_steps steps rule"
| "run_steps (Some (sl, r) # steps) rule =
     (case r of Inl e \<Rightarrow> Inl e | Inr it \<Rightarrow> run_steps steps (add_item sl it rule))"

section \<open>The constructors\<close>

definition domain_item :: "('m, 'g) rule_lib \<Rightarrow> string list \<Rightarrow> string list \<Rightarrow> rule_item result" where
  "domain_item L ds ss = NewDomainItem (\<lambda>d s g. Matcher_Match L (NewMatcher L d s g)) ds ss"

definition ip_cidr_item :: "('m, 'g) rule_lib \<Rightarrow> bool \<Rightarrow> string list \<Rightarrow> rule_item result" where
  "ip_cidr_item L isSource cidrs =
     NewIPCIDRItem (netip_ParsePrefix L) (netip_ParseAddr L)
       (\<lambda>es. map_sum id (IPSet_Contains L) (IPSetBuilder_IPSet L es)) (format_int L) isSource cidrs"

definition headless_steps ::
  "rule_env \<Rightarrow> ('m, 'g) rule_lib \<Rightarrow> bool \<Rightarrow> ('m, 'g) defaultHeadlessOptions \<Rightarrow> item_step list" where
  "headless_steps E L networkManager opts =
   [item_when (dh_QueryType opts \<noteq> []) Items (Inr (NewQueryTypeItem (dh_QueryType opts))),
    item_when (dh_Network opts \<noteq> []) Items (Inr (NewNetworkItem (dh_Network opts))),
    if dh_Domain opts \<noteq> [] \<or> dh_DomainSuffix opts \<noteq> []
    then Some (DestinationAddressItems, domain_item L (dh_Domain opts) (dh_DomainSuffix opts))
    else map_option (\<lambda>matcher. (DestinationAddressItems, Inr (NewRawDomainItem (Matcher_Match L matcher)))) (dh_DomainMatcher opts),
    item_when (dh_DomainKeyword opts \<noteq> []) DestinationAddressItems (Inr (DomainKeywordItem (dh_DomainKeyword opts))),
    item_when (dh_DomainRegex opts \<noteq> []) DestinationAddressItems
      (with_cause ''domain_regex'' (NewDomainRegexItem (regexp_Compile L) (format_int L) (dh_DomainRegex opts))),
    if dh_SourceIPCIDR opts \<noteq> []
    then Some (SourceAddressItems, with_cause ''source_ip_cidr'' (ip_cidr_item L True (dh_SourceIPCIDR opts)))
    else map_option (\<lambda>ipSet. (SourceAddressItems, Inr (NewRawIPCIDRItem True (IPSet_Contains L ipSet)))) (dh_SourceIPSet opts),
    if dh_IPCIDR opts \<noteq> []
    then Some (DestinationIPCIDRItems, with_cause ''ipcidr'' (ip_cidr_item L False (dh_IPCIDR opts)))
    else map_option (\<lambda>ipSet. (DestinationIPCIDRItems, Inr (NewRawIPCIDRItem False (IPSet_Contains L ipSet)))) (dh_IPSet opts),
    item_when (dh_SourcePort opts \<noteq> []) SourcePortItems (Inr (NewPortItem True (dh_SourcePort opts))),
    item_when (dh_SourcePortRange opts \<noteq> []) SourcePortItems
      (with_cause ''source_port_range'' (NewPortRangeItem True (dh_SourcePortRange opts))),
    item_when (dh_Port opts \<noteq> []) DestinationPortItems (Inr (NewPortItem False (dh_Port opts))),
    item_when (dh_PortRange opts \<noteq> []) DestinationPortItems
      (with_cause ''port_range'' (NewPortRangeItem False (dh_PortRange opts))),
    item_when (dh_ProcessName opts \<noteq> []) Items (Inr (NewProcessItem (dh_ProcessName opts))),
    item_when (dh_ProcessPath opts \<noteq> []) Items (Inr (NewProcessPathItem (dh_ProcessPath opts))),
    item_when (dh_ProcessPathRegex opts \<noteq> []) Items
      (with_cause ''process_path_regex'' (NewProcessPathRegexItem (regexp_Compile L) (format_int L) (dh_ProcessPathRegex opts))),
    item_when (dh_PackageName opts \<noteq> []) Items (Inr (NewPackageNameItem (dh_PackageName opts))),
    item_when (dh_PackageNameRegex opts \<noteq> []) Items
      (with_cause ''package_name_regex'' (NewPackageNameRegexItem (regexp_Compile L) (format_int L) (dh_PackageNameRegex opts))),
    item_when (networkManager \<and> dh_NetworkType opts \<noteq> []) Items (Inr (NetworkTypeItem (dh_NetworkType opts))),
    item_when (networkManager \<and> dh_NetworkIsExpensive opts) Items (Inr NetworkIsExpensiveItem),
    item_when (networkManager \<and> dh_NetworkIsConstrained opts) Items (Inr NetworkIsConstrainedItem),
    item_when (networkManager \<and> dh_WIFISSID opts \<noteq> []) Items (Inr (NewWIFISSIDItem (dh_WIFISSID opts))),
    item_when (networkManager \<and> dh_WIFIBSSID opts \<noteq> []) Items
      (Inr (NewWIFIBSSIDItem (NormalizeWIFIBSSID L) (dh_WIFIBSSID opts))),
    (case dh_NetworkInterfaceAddress opts of
       None \<Rightarrow> None
     | Some entries \<Rightarrow> item_when (networkManager \<and> entries \<noteq> []) Items (Inr (NewNetworkInterfaceAddressItem E entries))),
    item_when (networkManager \<and> dh_DefaultInterfaceAddress opts \<noteq> []) Items
      (Inr (DefaultInterfaceAddressItem (dh_DefaultInterfaceAddress opts))),
    if dh_AdGuardDomain opts \<noteq> []
    then Some (DestinationAddressItems,
           Inr (NewAdGuardDomainItem (\<lambda>ls. AdGuardMatcher_Match L (NewAdGuardMatcher L ls)) (dh_AdGuardDomain opts)))
    else map_option (\<lambda>matcher. (DestinationAddressItems, Inr (AdGuardDomainItem (AdGuardMatcher_Match L matcher))))
           (dh_AdGuardDomainMatcher opts)]"

definition NewDefaultHeadlessRule ::
  "rule_env \<Rightarrow> ('m, 'g) rule_lib \<Rightarrow> bool \<Rightarrow> ('m, 'g) defaultHeadlessOptions \<Rightarrow> 'a abstractDefaultRule result" where
  "NewDefaultHeadlessRule E L networkManager opts =
     run_steps (headless_steps E L networkManager opts) (new_rule (dh_Invert opts) None)"

definition NewLogicalHeadlessRule ::
  "('m, 'g) rule_lib \<Rightarrow> string \<Rightarrow> bool \<Rightarrow> 'a headlessRule result list \<Rightarrow> 'a abstractLogicalRule result" where
  "NewLogicalHeadlessRule L md ivt subRules =
     (if md = ''and'' \<or> md = ''or''
      then rbind (map_result (\<lambda>i r. with_cause (''sub rule['' @ format_int L i @ '']'') r) subRules)
             (\<lambda>rs. Inr (AbstractLogicalRule rs md ivt None))
      else Inl (ErrNew (''unknown logical mode: '' @ md)))"

text \<open>The panic of \<open>IsValid\<close> is an error of its own; it is only reached by the outermost call, since the
  call has checked the types of all the rules inside.\<close>

definition panic_unknown_type :: error where
  "panic_unknown_type = ErrLib ''panic: unknown rule type''"

primrec NewHeadlessRule ::
  "rule_env \<Rightarrow> ('m, 'g) rule_lib \<Rightarrow> bool \<Rightarrow> ('m, 'g) headlessOptions \<Rightarrow> 'a headlessRule result" where
  "NewHeadlessRule E L networkManager (DefaultOptions opts) =
     (if \<not> default_IsValid opts then Inl (ErrNew ''missing conditions'')
      else rbind (NewDefaultHeadlessRule E L networkManager opts) (\<lambda>r. Inr (DefaultHeadlessRule r)))"
| "NewHeadlessRule E L networkManager (LogicalOptions md rs ivt) =
     (case headless_IsValid (LogicalOptions md rs ivt) of
        None \<Rightarrow> Inl panic_unknown_type
      | Some False \<Rightarrow> Inl (ErrNew ''missing conditions'')
      | Some True \<Rightarrow>
          rbind (NewLogicalHeadlessRule L md ivt (map (NewHeadlessRule E L networkManager) rs))
            (\<lambda>r. Inr (LogicalHeadlessRule r)))"
| "NewHeadlessRule E L networkManager (UnknownType t) = Inl (ErrNew (''unknown rule type: '' @ t))"

section \<open>What the constructors build\<close>

text \<open>\<open>rule_wf\<close>: \<open>allItems\<close> has the items of the groups and nothing else, and the headless rules of a rule
  set have no rule-set item and no action.\<close>

definition grouped_items :: "'a abstractDefaultRule \<Rightarrow> rule_item list" where
  "grouped_items r = items r @ sourceAddressItems r @ sourcePortItems r @ destinationAddressItems r @
     destinationIPCIDRItems r @ destinationPortItems r"

definition built_items :: "'a abstractDefaultRule \<Rightarrow> bool" where
  "built_items r \<longleftrightarrow> set (allItems r) = ItemRef ` set (grouped_items r) \<and> ruleSetItem r = None \<and> action r = None"

lemma new_rule_built: "built_items (new_rule ivt None)"
  by (simp add: built_items_def grouped_items_def new_rule_def)

lemma add_item_built: "built_items r \<Longrightarrow> built_items (add_item sl it r)"
  by (cases r; cases sl) (auto simp: built_items_def grouped_items_def)

lemma run_steps_built: "run_steps steps r = Inr r' \<Longrightarrow> built_items r \<Longrightarrow> built_items r'"
  by (induction steps r rule: run_steps.induct) (auto simp: add_item_built split: sum.splits)

lemma add_item_invert [simp]: "invert (add_item sl it r) = invert r"
  by (cases r) auto

lemma run_steps_invert: "run_steps steps r = Inr r' \<Longrightarrow> invert r' = invert r"
  by (induction steps r rule: run_steps.induct) (auto split: sum.splits)

end
