(* ===== verification/Srs_Format.thy ===== *)
theory Srs_Format
  imports Headless_Rule Byte_Codec
begin

text \<open>
  The binary form of a rule set (\<open>common/srs/binary.go\<close>, \<open>ip_cidr.go\<close>, \<open>ip_set.go\<close>). Writing gives the
  bytes or the error of the first step that fails; reading takes the bytes and gives the value with
  the bytes that remain. The reader of a default rule is a loop that may not end for an arbitrary
  library, which is \<open>None\<close>. The variable-length integers and slices of the sing library, the domain
  matchers and the compressor are the fields of \<open>srs_lib\<close>; the decompressor is the bytes it delivers,
  and an empty slice that is read is nil.
\<close>

section \<open>Libraries\<close>

record ('m, 'g) srs_lib =
  WriteUvarint :: "u64 \<Rightarrow> bytes"
  ReadSlice_u8 :: "bytes \<Rightarrow> (bytes \<times> bytes) result"
  ReadSlice_u16 :: "bytes \<Rightarrow> (u16 list \<times> bytes) result"
  Matcher_Write :: "'m \<Rightarrow> bytes result"
  ReadMatcher :: "bytes \<Rightarrow> ('m \<times> bytes) result"
  Matcher_Dump :: "'m \<Rightarrow> string list \<times> string list"
  AdGuardMatcher_Write :: "'g \<Rightarrow> bytes result"
  ReadAdGuardMatcher :: "bytes \<Rightarrow> ('g \<times> bytes) result"
  AdGuardMatcher_Dump :: "'g \<Rightarrow> string list"
  IPSet_Prefixes :: "ip_ranges \<Rightarrow> string list"
  AddrFromIP :: "bytes \<Rightarrow> addr"
  zlib_Compress :: "bytes \<Rightarrow> bytes"
  zlib_Decompress :: "bytes \<Rightarrow> bytes result"

text \<open>\<open>binary.ReadUvarint\<close> and \<open>binary.PutUvarint\<close> of the standard library.\<close>

fun read_uvarint_loop :: "nat \<Rightarrow> u64 \<Rightarrow> bytes \<Rightarrow> (u64 \<times> bytes) result" where
  "read_uvarint_loop i x [] =
     (if i < 10 then Inl (ErrLib (if i > 0 then ''unexpected EOF'' else ''EOF'')) else Inl (ErrLib ''binary: varint overflows a 64-bit integer''))"
| "read_uvarint_loop i x (b # bs) =
     (if i \<ge> 10 then Inl (ErrLib ''binary: varint overflows a 64-bit integer'')
      else if b < 0x80 then
        if i = 9 \<and> b > 1 then Inl (ErrLib ''binary: varint overflows a 64-bit integer'')
        else Inr (x OR push_bit (7 * i) (ucast b), bs)
      else read_uvarint_loop (Suc i) (x OR push_bit (7 * i) (ucast (b AND 0x7f))) bs)"

definition ReadUvarint :: "bytes \<Rightarrow> (u64 \<times> bytes) result" where
  "ReadUvarint bs = read_uvarint_loop 0 0 bs"

function put_uvarint :: "u64 \<Rightarrow> bytes" where
  "put_uvarint x = (if x \<ge> 0x80 then (ucast x OR 0x80) # put_uvarint (drop_bit 7 x) else [ucast x])"
  by auto
termination
proof (relation "measure unat")
  fix x :: u64 assume "0x80 \<le> x"
  then have "128 \<le> unat x" by (simp add: word_le_nat_alt)
  then show "(drop_bit 7 x, x) \<in> measure unat" by (simp only: in_measure unat_drop_bit_eq) (simp add: drop_bit_eq_div)
qed simp

declare put_uvarint.simps [simp del]

section \<open>Readers\<close>

definition read_u8 :: "bytes \<Rightarrow> (u8 \<times> bytes) result" where
  "read_u8 bs = (case bs of [] \<Rightarrow> Inl (ErrLib ''EOF'') | b # rest \<Rightarrow> Inr (b, rest))"

definition read_bool :: "bytes \<Rightarrow> (bool \<times> bytes) result" where
  "read_bool bs = rbind (read_u8 bs) (\<lambda>(b, rest). Inr (b \<noteq> 0, rest))"

text \<open>A loop \<open>for range length\<close> that appends what a reader gives; \<open>name\<close> makes the cause of an error.\<close>

fun read_loop :: "(nat \<Rightarrow> error \<Rightarrow> error) \<Rightarrow> (bytes \<Rightarrow> ('a \<times> bytes) result) \<Rightarrow> nat \<Rightarrow> nat \<Rightarrow> bytes \<Rightarrow> ('a list \<times> bytes) result" where
  "read_loop name rd i 0 bs = Inr ([], bs)"
| "read_loop name rd i (Suc n) bs =
     (case rd bs of
        Inl e \<Rightarrow> Inl (name i e)
      | Inr (x, rest) \<Rightarrow> rbind (read_loop name rd (Suc i) n rest) (\<lambda>(xs, rest'). Inr (x # xs, rest')))"

abbreviation read_times :: "(bytes \<Rightarrow> ('a \<times> bytes) result) \<Rightarrow> u64 \<Rightarrow> bytes \<Rightarrow> ('a list \<times> bytes) result" where
  "read_times rd n bs \<equiv> read_loop (\<lambda>_ e. e) rd 0 (unat n) bs"

definition readIPSetAddr :: "('m, 'g) srs_lib \<Rightarrow> bytes \<Rightarrow> (addr \<times> bytes) result" where
  "readIPSetAddr S bs =
     rbind (ReadUvarint bs) (\<lambda>(addrLen, bs1).
       if addrLen \<noteq> 4 \<and> addrLen \<noteq> 16 then Inl os_ErrInvalid
       else rbind (read_full (unat addrLen) bs1) (\<lambda>(addrBytes, bs2). Inr (AddrFromIP S addrBytes, bs2)))"

definition readPrefix :: "('m, 'g) srs_lib \<Rightarrow> bytes \<Rightarrow> (prefix \<times> bytes) result" where
  "readPrefix S bs =
     rbind (ReadUvarint bs) (\<lambda>(addrLen, bs1).
       if addrLen \<noteq> 4 \<and> addrLen \<noteq> 16 then Inl os_ErrInvalid
       else rbind (read_full (unat addrLen) bs1) (\<lambda>(addrBytes, bs2).
         rbind (read_u8 bs2) (\<lambda>(prefixBits, bs3). Inr (prefix_from (AddrFromIP S addrBytes) (unat prefixBits), bs3))))"

definition readIPRange :: "('m, 'g) srs_lib \<Rightarrow> bytes \<Rightarrow> ((addr \<times> addr) \<times> bytes) result" where
  "readIPRange S bs =
     rbind (readIPSetAddr S bs) (\<lambda>(from, bs1).
       rbind (readIPSetAddr S bs1) (\<lambda>(to, bs2). Inr ((from, to), bs2)))"

definition readIPSet :: "('m, 'g) srs_lib \<Rightarrow> bytes \<Rightarrow> (ip_ranges \<times> bytes) result" where
  "readIPSet S bs =
     rbind (read_u8 bs) (\<lambda>(version, bs1).
       if version \<noteq> 1 then Inl os_ErrInvalid
       else rbind (read_full 8 bs1) (\<lambda>(len, bs2). read_times (readIPRange S) (of_nat (of_be len)) bs2))"

definition readString :: "('m, 'g) srs_lib \<Rightarrow> bytes \<Rightarrow> (string \<times> bytes) result" where
  "readString S bs = rbind (ReadSlice_u8 S bs) (\<lambda>(v, rest). Inr (bytes_string v, rest))"

definition readRuleItemString :: "('m, 'g) srs_lib \<Rightarrow> bytes \<Rightarrow> (string list \<times> bytes) result" where
  "readRuleItemString S bs =
     rbind (ReadUvarint bs) (\<lambda>(len, bs1). read_times (readString S) len bs1)"

definition readPrefixes :: "('m, 'g) srs_lib \<Rightarrow> bytes \<Rightarrow> (prefix list \<times> bytes) result" where
  "readPrefixes S bs = rbind (ReadUvarint bs) (\<lambda>(n, bs1). read_times (readPrefix S) n bs1)"

definition readAddressEntry :: "('m, 'g) srs_lib \<Rightarrow> bytes \<Rightarrow> ((u8 \<times> prefix list) \<times> bytes) result" where
  "readAddressEntry S bs =
     rbind (read_u8 bs) (\<lambda>(key, bs1). rbind (readPrefixes S bs1) (\<lambda>(value, bs2). Inr ((key, value), bs2)))"

text \<open>\<open>TypedMap.Put\<close>: a key that is present keeps its place.\<close>

fun typed_map_Put :: "'k \<Rightarrow> 'v \<Rightarrow> ('k \<times> 'v) list \<Rightarrow> ('k \<times> 'v) list" where
  "typed_map_Put k v [] = [(k, v)]"
| "typed_map_Put k v ((k', v') # es) = (if k' = k then (k, v) # es else (k', v') # typed_map_Put k v es)"

definition typed_map_of :: "('k \<times> 'v) list \<Rightarrow> ('k \<times> 'v) list" where
  "typed_map_of es = fold (\<lambda>(k, v). typed_map_Put k v) es []"

section \<open>Item types\<close>

definition ruleItemQueryType :: u8 where "ruleItemQueryType = 0"
definition ruleItemNetwork :: u8 where "ruleItemNetwork = 1"
definition ruleItemDomain :: u8 where "ruleItemDomain = 2"
definition ruleItemDomainKeyword :: u8 where "ruleItemDomainKeyword = 3"
definition ruleItemDomainRegex :: u8 where "ruleItemDomainRegex = 4"
definition ruleItemSourceIPCIDR :: u8 where "ruleItemSourceIPCIDR = 5"
definition ruleItemIPCIDR :: u8 where "ruleItemIPCIDR = 6"
definition ruleItemSourcePort :: u8 where "ruleItemSourcePort = 7"
definition ruleItemSourcePortRange :: u8 where "ruleItemSourcePortRange = 8"
definition ruleItemPort :: u8 where "ruleItemPort = 9"
definition ruleItemPortRange :: u8 where "ruleItemPortRange = 10"
definition ruleItemProcessName :: u8 where "ruleItemProcessName = 11"
definition ruleItemProcessPath :: u8 where "ruleItemProcessPath = 12"
definition ruleItemPackageName :: u8 where "ruleItemPackageName = 13"
definition ruleItemWIFISSID :: u8 where "ruleItemWIFISSID = 14"
definition ruleItemWIFIBSSID :: u8 where "ruleItemWIFIBSSID = 15"
definition ruleItemAdGuardDomain :: u8 where "ruleItemAdGuardDomain = 16"
definition ruleItemProcessPathRegex :: u8 where "ruleItemProcessPathRegex = 17"
definition ruleItemNetworkType :: u8 where "ruleItemNetworkType = 18"
definition ruleItemNetworkIsExpensive :: u8 where "ruleItemNetworkIsExpensive = 19"
definition ruleItemNetworkIsConstrained :: u8 where "ruleItemNetworkIsConstrained = 20"
definition ruleItemNetworkInterfaceAddress :: u8 where "ruleItemNetworkInterfaceAddress = 21"
definition ruleItemDefaultInterfaceAddress :: u8 where "ruleItemDefaultInterfaceAddress = 22"
definition ruleItemPackageNameRegex :: u8 where "ruleItemPackageNameRegex = 23"
definition ruleItemFinal :: u8 where "ruleItemFinal = 0xff"

lemmas rule_item_bytes = ruleItemQueryType_def ruleItemNetwork_def ruleItemDomain_def
  ruleItemDomainKeyword_def ruleItemDomainRegex_def ruleItemSourceIPCIDR_def ruleItemIPCIDR_def
  ruleItemSourcePort_def ruleItemSourcePortRange_def ruleItemPort_def ruleItemPortRange_def
  ruleItemProcessName_def ruleItemProcessPath_def ruleItemPackageName_def ruleItemWIFISSID_def
  ruleItemWIFIBSSID_def ruleItemAdGuardDomain_def ruleItemProcessPathRegex_def ruleItemNetworkType_def
  ruleItemNetworkIsExpensive_def ruleItemNetworkIsConstrained_def ruleItemNetworkInterfaceAddress_def
  ruleItemDefaultInterfaceAddress_def ruleItemPackageNameRegex_def ruleItemFinal_def

section \<open>Reading a rule\<close>

text \<open>One turn of the loop of \<open>readDefaultRule\<close>: an item, or the final byte with the inversion. \<open>fmt\<close> prints a
  byte in the error message.\<close>

datatype item_read = ItemNext u8 | ItemFinal

definition next_item :: "u8 \<Rightarrow> 'r \<Rightarrow> bytes \<Rightarrow> (item_read \<times> 'r \<times> bytes) result" where
  "next_item itemType rule rest = Inr (ItemNext itemType, rule, rest)"

definition read_item ::
  "('m, 'g) srs_lib \<Rightarrow> (u8 \<Rightarrow> string) \<Rightarrow> bool \<Rightarrow> u8 \<Rightarrow> ('m, 'g) defaultHeadlessOptions \<Rightarrow> bytes \<Rightarrow>
   (item_read \<times> ('m, 'g) defaultHeadlessOptions \<times> bytes) result" where
  "read_item S fmt rec lastItemType rule bs =
     rbind (read_u8 bs) (\<lambda>(itemType, rd).
      if itemType = ruleItemQueryType then rbind (ReadSlice_u16 S rd) (\<lambda>(v, rest). next_item itemType (rule\<lparr>dh_QueryType := v\<rparr>) rest)
      else if itemType = ruleItemNetwork then rbind (readRuleItemString S rd) (\<lambda>(v, rest). next_item itemType (rule\<lparr>dh_Network := v\<rparr>) rest)
      else if itemType = ruleItemDomain then rbind (ReadMatcher S rd) (\<lambda>(matcher, rest).
        next_item itemType
          (let r = rule\<lparr>dh_DomainMatcher := Some matcher\<rparr>
           in if rec then r\<lparr>dh_Domain := fst (Matcher_Dump S matcher), dh_DomainSuffix := snd (Matcher_Dump S matcher)\<rparr> else r) rest)
      else if itemType = ruleItemDomainKeyword then rbind (readRuleItemString S rd) (\<lambda>(v, rest). next_item itemType (rule\<lparr>dh_DomainKeyword := v\<rparr>) rest)
      else if itemType = ruleItemDomainRegex then rbind (readRuleItemString S rd) (\<lambda>(v, rest). next_item itemType (rule\<lparr>dh_DomainRegex := v\<rparr>) rest)
      else if itemType = ruleItemSourceIPCIDR then rbind (readIPSet S rd) (\<lambda>(ipSet, rest).
        next_item itemType
          (let r = rule\<lparr>dh_SourceIPSet := Some ipSet\<rparr> in if rec then r\<lparr>dh_SourceIPCIDR := IPSet_Prefixes S ipSet\<rparr> else r) rest)
      else if itemType = ruleItemIPCIDR then rbind (readIPSet S rd) (\<lambda>(ipSet, rest).
        next_item itemType
          (let r = rule\<lparr>dh_IPSet := Some ipSet\<rparr> in if rec then r\<lparr>dh_IPCIDR := IPSet_Prefixes S ipSet\<rparr> else r) rest)
      else if itemType = ruleItemSourcePort then rbind (ReadSlice_u16 S rd) (\<lambda>(v, rest). next_item itemType (rule\<lparr>dh_SourcePort := v\<rparr>) rest)
      else if itemType = ruleItemSourcePortRange then rbind (readRuleItemString S rd) (\<lambda>(v, rest). next_item itemType (rule\<lparr>dh_SourcePortRange := v\<rparr>) rest)
      else if itemType = ruleItemPort then rbind (ReadSlice_u16 S rd) (\<lambda>(v, rest). next_item itemType (rule\<lparr>dh_Port := v\<rparr>) rest)
      else if itemType = ruleItemPortRange then rbind (readRuleItemString S rd) (\<lambda>(v, rest). next_item itemType (rule\<lparr>dh_PortRange := v\<rparr>) rest)
      else if itemType = ruleItemProcessName then rbind (readRuleItemString S rd) (\<lambda>(v, rest). next_item itemType (rule\<lparr>dh_ProcessName := v\<rparr>) rest)
      else if itemType = ruleItemProcessPath then rbind (readRuleItemString S rd) (\<lambda>(v, rest). next_item itemType (rule\<lparr>dh_ProcessPath := v\<rparr>) rest)
      else if itemType = ruleItemProcessPathRegex then rbind (readRuleItemString S rd) (\<lambda>(v, rest). next_item itemType (rule\<lparr>dh_ProcessPathRegex := v\<rparr>) rest)
      else if itemType = ruleItemPackageName then rbind (readRuleItemString S rd) (\<lambda>(v, rest). next_item itemType (rule\<lparr>dh_PackageName := v\<rparr>) rest)
      else if itemType = ruleItemPackageNameRegex then rbind (readRuleItemString S rd) (\<lambda>(v, rest). next_item itemType (rule\<lparr>dh_PackageNameRegex := v\<rparr>) rest)
      else if itemType = ruleItemWIFISSID then rbind (readRuleItemString S rd) (\<lambda>(v, rest). next_item itemType (rule\<lparr>dh_WIFISSID := v\<rparr>) rest)
      else if itemType = ruleItemWIFIBSSID then rbind (readRuleItemString S rd) (\<lambda>(v, rest). next_item itemType (rule\<lparr>dh_WIFIBSSID := v\<rparr>) rest)
      else if itemType = ruleItemAdGuardDomain then rbind (ReadAdGuardMatcher S rd) (\<lambda>(matcher, rest).
        next_item itemType
          (let r = rule\<lparr>dh_AdGuardDomainMatcher := Some matcher\<rparr>
           in if rec then r\<lparr>dh_AdGuardDomain := AdGuardMatcher_Dump S matcher\<rparr> else r) rest)
      else if itemType = ruleItemNetworkType then rbind (ReadSlice_u8 S rd) (\<lambda>(v, rest). next_item itemType (rule\<lparr>dh_NetworkType := v\<rparr>) rest)
      else if itemType = ruleItemNetworkIsExpensive then next_item itemType (rule\<lparr>dh_NetworkIsExpensive := True\<rparr>) rd
      else if itemType = ruleItemNetworkIsConstrained then next_item itemType (rule\<lparr>dh_NetworkIsConstrained := True\<rparr>) rd
      else if itemType = ruleItemNetworkInterfaceAddress then
        rbind (ReadUvarint rd) (\<lambda>(size, rd1). rbind (read_times (readAddressEntry S) size rd1) (\<lambda>(es, rest).
          next_item itemType (rule\<lparr>dh_NetworkInterfaceAddress := Some (typed_map_of es)\<rparr>) rest))
      else if itemType = ruleItemDefaultInterfaceAddress then
        rbind (readPrefixes S rd) (\<lambda>(v, rest). next_item itemType (rule\<lparr>dh_DefaultInterfaceAddress := v\<rparr>) rest)
      else if itemType = ruleItemFinal then
        rbind (read_bool rd) (\<lambda>(ivt, rest). Inr (ItemFinal, rule\<lparr>dh_Invert := ivt\<rparr>, rest))
      else Inl (ErrNew (''unknown rule item type: '' @ fmt itemType @ '', last type: '' @ fmt lastItemType)))"

partial_function (option) read_items ::
  "('m, 'g) srs_lib \<Rightarrow> (u8 \<Rightarrow> string) \<Rightarrow> bool \<Rightarrow> u8 \<Rightarrow> ('m, 'g) defaultHeadlessOptions \<Rightarrow> bytes \<Rightarrow>
   (('m, 'g) defaultHeadlessOptions \<times> bytes) result option" where
  "read_items S fmt rec lastItemType rule bs =
     (case read_item S fmt rec lastItemType rule bs of
        Inl e \<Rightarrow> Some (Inl e)
      | Inr (t, rule', rest) \<Rightarrow>
          (case t of
             ItemFinal \<Rightarrow> Some (Inr (rule', rest))
           | ItemNext itemType \<Rightarrow> read_items S fmt rec itemType rule' rest))"

definition readDefaultRule ::
  "('m, 'g) srs_lib \<Rightarrow> (u8 \<Rightarrow> string) \<Rightarrow> bool \<Rightarrow> bytes \<Rightarrow> (('m, 'g) defaultHeadlessOptions \<times> bytes) result option" where
  "readDefaultRule S fmt rec bs = read_items S fmt rec 0 noHeadlessOptions bs"

text \<open>Reading in sequence, with a run that does not end.\<close>

definition obind :: "('a \<times> bytes) result option \<Rightarrow> ('a \<Rightarrow> bytes \<Rightarrow> 'b result option) \<Rightarrow> 'b result option" where
  "obind r f = (case r of None \<Rightarrow> None | Some (Inl e) \<Rightarrow> Some (Inl e) | Some (Inr (a, rest)) \<Rightarrow> f a rest)"

fun read_rules ::
  "(nat \<Rightarrow> error \<Rightarrow> error) \<Rightarrow> (bytes \<Rightarrow> ('a \<times> bytes) result option) \<Rightarrow> nat \<Rightarrow> nat \<Rightarrow> bytes \<Rightarrow> ('a list \<times> bytes) result option" where
  "read_rules name rd i 0 bs = Some (Inr ([], bs))"
| "read_rules name rd i (Suc n) bs =
     (case rd bs of
        None \<Rightarrow> None
      | Some (Inl e) \<Rightarrow> Some (Inl (name i e))
      | Some (Inr (x, rest)) \<Rightarrow>
          obind (read_rules name rd (Suc i) n rest) (\<lambda>xs rest'. Some (Inr (x # xs, rest'))))"

definition readLogicalRule ::
  "(u8 \<Rightarrow> string) \<Rightarrow> (nat \<Rightarrow> string) \<Rightarrow> (bytes \<Rightarrow> (('m, 'g) headlessOptions \<times> bytes) result option) \<Rightarrow>
   bytes \<Rightarrow> (('m, 'g) headlessOptions \<times> bytes) result option" where
  "readLogicalRule fmt itoa rd bs =
     obind (Some (read_u8 bs)) (\<lambda>md bs1.
       obind (Some (if md = 0 then Inr (''and'', bs1) else if md = 1 then Inr (''or'', bs1)
                    else Inl (ErrNew (''unknown logical mode: '' @ fmt md)))) (\<lambda>mode_name bs2.
         obind (Some (ReadUvarint bs2)) (\<lambda>len bs3.
           obind (read_rules (\<lambda>i e. ErrCause e (''read logical rule ['' @ itoa i @ '']'')) rd 0 (unat len) bs3) (\<lambda>rs bs4.
             obind (Some (read_bool bs4)) (\<lambda>ivt rest. Some (Inr (LogicalOptions mode_name rs ivt, rest)))))))"

text \<open>\<open>readRule\<close> with the nesting that is still allowed: \<open>readRule(reader, recover, depth)\<close> of the source is
  the one for \<open>101 - depth\<close>.\<close>

definition maxLogicalRuleDepth :: nat where
  "maxLogicalRuleDepth = 100"

primrec readRule ::
  "nat \<Rightarrow> ('m, 'g) srs_lib \<Rightarrow> (u8 \<Rightarrow> string) \<Rightarrow> (nat \<Rightarrow> string) \<Rightarrow> bool \<Rightarrow> bytes \<Rightarrow>
   (('m, 'g) headlessOptions \<times> bytes) result option" where
  "readRule 0 S fmt itoa rec bs = Some (Inl (ErrNew ''logical rule nested too deep''))"
| "readRule (Suc allowed) S fmt itoa rec bs =
     obind (Some (read_u8 bs)) (\<lambda>ruleType bs1.
       if ruleType = 0 then
         obind (readDefaultRule S fmt rec bs1) (\<lambda>opts rest. Some (Inr (DefaultOptions opts, rest)))
       else if ruleType = 1 then readLogicalRule fmt itoa (readRule allowed S fmt itoa rec) bs1
       else Some (Inl (ErrNew (''unknown rule type: '' @ fmt ruleType))))"

definition MagicBytes :: bytes where
  "MagicBytes = [0x53, 0x52, 0x53]"

definition RuleSetVersionCurrent :: u8 where
  "RuleSetVersionCurrent = 5"

definition srs_Read ::
  "('m, 'g) srs_lib \<Rightarrow> (u8 \<Rightarrow> string) \<Rightarrow> (nat \<Rightarrow> string) \<Rightarrow> bool \<Rightarrow> bytes \<Rightarrow>
   (u8 \<times> ('m, 'g) headlessOptions list) result option" where
  "srs_Read S fmt itoa rec file =
     obind (Some (read_full 3 file)) (\<lambda>magicBytes bs1.
       if magicBytes \<noteq> MagicBytes then Some (Inl (ErrNew ''invalid sing-box rule-set file''))
       else obind (Some (read_u8 bs1)) (\<lambda>version bs2.
         if version > RuleSetVersionCurrent then Some (Inl (ErrNew (''unsupported version: '' @ fmt version)))
         else case zlib_Decompress S bs2 of
                Inl e \<Rightarrow> Some (Inl e)
              | Inr bs3 \<Rightarrow>
                  obind (Some (ReadUvarint bs3)) (\<lambda>len bs4.
                    obind (read_rules (\<lambda>i e. ErrCause e (''read rule['' @ itoa i @ '']''))
                             (readRule (Suc maxLogicalRuleDepth) S fmt itoa rec) 0 (unat len) bs4)
                      (\<lambda>rs rest. Some (Inr (version, rs))))))"

section \<open>Writing\<close>

text \<open>\<open>Addr.AsSlice\<close>.\<close>

fun addr_AsSlice :: "addr \<Rightarrow> bytes" where
  "addr_AsSlice NoAddr = []"
| "addr_AsSlice (Addr4 w) = be_bytes 4 w"
| "addr_AsSlice (Addr6 w z) = be_bytes 16 w"

definition bool_byte :: "bool \<Rightarrow> u8" where
  "bool_byte b = (if b then 1 else 0)"

definition writePrefix :: "('m, 'g) srs_lib \<Rightarrow> prefix \<Rightarrow> bytes" where
  "writePrefix S p =
     (let addrSlice = addr_AsSlice (prefix_Addr p)
      in WriteUvarint S (of_nat (length addrSlice)) @ addrSlice @ [of_int (prefix_Bits p)])"

definition writePrefixes :: "('m, 'g) srs_lib \<Rightarrow> prefix list \<Rightarrow> bytes" where
  "writePrefixes S ps = WriteUvarint S (of_nat (length ps)) @ concat (map (writePrefix S) ps)"

definition writeIPSetAddr :: "('m, 'g) srs_lib \<Rightarrow> addr \<Rightarrow> bytes" where
  "writeIPSetAddr S a = WriteUvarint S (of_nat (length (addr_AsSlice a))) @ addr_AsSlice a"

definition writeIPSet :: "('m, 'g) srs_lib \<Rightarrow> ip_ranges \<Rightarrow> bytes" where
  "writeIPSet S ranges =
     [1] @ be_bytes 8 (of_nat (length ranges) :: u64) @
     concat (map (\<lambda>(from, to). writeIPSetAddr S from @ writeIPSetAddr S to) ranges)"

definition writeRuleItemString :: "('m, 'g) srs_lib \<Rightarrow> u8 \<Rightarrow> string list \<Rightarrow> bytes" where
  "writeRuleItemString S itemType value =
     itemType # WriteUvarint S (of_nat (length value)) @
     concat (map (\<lambda>s. WriteUvarint S (of_nat (length s)) @ string_bytes s) value)"

definition writeRuleItemUint8 :: "('m, 'g) srs_lib \<Rightarrow> u8 \<Rightarrow> u8 list \<Rightarrow> bytes" where
  "writeRuleItemUint8 S itemType value = itemType # WriteUvarint S (of_nat (length value)) @ value"

definition writeRuleItemUint16 :: "('m, 'g) srs_lib \<Rightarrow> u8 \<Rightarrow> u16 list \<Rightarrow> bytes" where
  "writeRuleItemUint16 S itemType value =
     itemType # WriteUvarint S (of_nat (length value)) @ concat (map (be_bytes 2) value)"

definition cidr_ranges :: "('m, 'g) rule_lib \<Rightarrow> string list \<Rightarrow> ip_ranges result" where
  "cidr_ranges L value =
     rbind (map_result (parse_ip_entry (netip_ParsePrefix L) (netip_ParseAddr L) (format_int L)) value) (IPSetBuilder_IPSet L)"

definition writeRuleItemCIDR :: "('m, 'g) rule_lib \<Rightarrow> ('m, 'g) srs_lib \<Rightarrow> u8 \<Rightarrow> string list \<Rightarrow> bytes result" where
  "writeRuleItemCIDR L S itemType value =
     rbind (cidr_ranges L value) (\<lambda>ipSet. Inr (itemType # writeIPSet S ipSet))"

definition write_if :: "bool \<Rightarrow> bytes result \<Rightarrow> bytes result" where
  "write_if c r = (if c then r else Inr [])"

definition since_version :: "u8 \<Rightarrow> u8 \<Rightarrow> string \<Rightarrow> bytes \<Rightarrow> bytes result" where
  "since_version v least msg bs = (if v < least then Inl (ErrNew msg) else Inr bs)"

text \<open>The steps of a writer in sequence: the first error ends it.\<close>

fun write_all :: "bytes result list \<Rightarrow> bytes result" where
  "write_all [] = Inr []"
| "write_all (r # rs) = rbind r (\<lambda>bs. rbind (write_all rs) (\<lambda>bs'. Inr (bs @ bs')))"

definition default_items ::
  "('m, 'g) rule_lib \<Rightarrow> ('m, 'g) srs_lib \<Rightarrow> u8 \<Rightarrow> ('m, 'g) defaultHeadlessOptions \<Rightarrow> bytes result list" where
  "default_items L S v rule =
   [write_if (dh_QueryType rule \<noteq> []) (Inr (writeRuleItemUint16 S ruleItemQueryType (dh_QueryType rule))),
    write_if (dh_Network rule \<noteq> []) (Inr (writeRuleItemString S ruleItemNetwork (dh_Network rule))),
    write_if (dh_Domain rule \<noteq> [] \<or> dh_DomainSuffix rule \<noteq> [])
      (rbind (Matcher_Write S (NewMatcher L (dh_Domain rule) (dh_DomainSuffix rule) (v = 1))) (\<lambda>bs. Inr (ruleItemDomain # bs))),
    write_if (dh_DomainKeyword rule \<noteq> []) (Inr (writeRuleItemString S ruleItemDomainKeyword (dh_DomainKeyword rule))),
    write_if (dh_DomainRegex rule \<noteq> []) (Inr (writeRuleItemString S ruleItemDomainRegex (dh_DomainRegex rule))),
    write_if (dh_SourceIPCIDR rule \<noteq> [])
      (with_cause ''source_ip_cidr'' (writeRuleItemCIDR L S ruleItemSourceIPCIDR (dh_SourceIPCIDR rule))),
    write_if (dh_IPCIDR rule \<noteq> []) (with_cause ''ipcidr'' (writeRuleItemCIDR L S ruleItemIPCIDR (dh_IPCIDR rule))),
    write_if (dh_SourcePort rule \<noteq> []) (Inr (writeRuleItemUint16 S ruleItemSourcePort (dh_SourcePort rule))),
    write_if (dh_SourcePortRange rule \<noteq> []) (Inr (writeRuleItemString S ruleItemSourcePortRange (dh_SourcePortRange rule))),
    write_if (dh_Port rule \<noteq> []) (Inr (writeRuleItemUint16 S ruleItemPort (dh_Port rule))),
    write_if (dh_PortRange rule \<noteq> []) (Inr (writeRuleItemString S ruleItemPortRange (dh_PortRange rule))),
    write_if (dh_ProcessName rule \<noteq> []) (Inr (writeRuleItemString S ruleItemProcessName (dh_ProcessName rule))),
    write_if (dh_ProcessPath rule \<noteq> []) (Inr (writeRuleItemString S ruleItemProcessPath (dh_ProcessPath rule))),
    write_if (dh_ProcessPathRegex rule \<noteq> []) (Inr (writeRuleItemString S ruleItemProcessPathRegex (dh_ProcessPathRegex rule))),
    write_if (dh_PackageName rule \<noteq> []) (Inr (writeRuleItemString S ruleItemPackageName (dh_PackageName rule))),
    write_if (dh_PackageNameRegex rule \<noteq> [])
      (since_version v 5 ''`package_name_regex` rule item is only supported in version 5 or later''
        (writeRuleItemString S ruleItemPackageNameRegex (dh_PackageNameRegex rule))),
    write_if (dh_NetworkType rule \<noteq> [])
      (since_version v 3 ''`network_type` rule item is only supported in version 3 or later''
        (writeRuleItemUint8 S ruleItemNetworkType (dh_NetworkType rule))),
    write_if (dh_NetworkIsExpensive rule)
      (since_version v 3 ''`network_is_expensive` rule item is only supported in version 3 or later''
        ([ruleItemNetworkIsExpensive])),
    write_if (dh_NetworkIsConstrained rule)
      (since_version v 3 ''`network_is_constrained` rule item is only supported in version 3 or later''
        ([ruleItemNetworkIsConstrained])),
    (case dh_NetworkInterfaceAddress rule of
       None \<Rightarrow> Inr []
     | Some es \<Rightarrow>
         write_if (es \<noteq> [])
           (since_version v 4 ''`network_interface_address` rule item is only supported in version 4 or later''
             (ruleItemNetworkInterfaceAddress # WriteUvarint S (of_nat (length es)) @
              concat (map (\<lambda>(key, ps). key # writePrefixes S ps) es)))),
    write_if (dh_DefaultInterfaceAddress rule \<noteq> [])
      (since_version v 4 ''`default_interface_address` rule item is only supported in version 4 or later''
        (ruleItemDefaultInterfaceAddress # writePrefixes S (dh_DefaultInterfaceAddress rule))),
    write_if (dh_WIFISSID rule \<noteq> []) (Inr (writeRuleItemString S ruleItemWIFISSID (dh_WIFISSID rule))),
    write_if (dh_WIFIBSSID rule \<noteq> []) (Inr (writeRuleItemString S ruleItemWIFIBSSID (dh_WIFIBSSID rule))),
    write_if (dh_AdGuardDomain rule \<noteq> [])
      (if v < 2 then Inl (ErrNew ''AdGuard rule items is only supported in version 2 or later'')
       else rbind (AdGuardMatcher_Write S (NewAdGuardMatcher L (dh_AdGuardDomain rule))) (\<lambda>bs. Inr (ruleItemAdGuardDomain # bs))),
    Inr [ruleItemFinal, bool_byte (dh_Invert rule)]]"

definition writeDefaultRule ::
  "('m, 'g) rule_lib \<Rightarrow> ('m, 'g) srs_lib \<Rightarrow> u8 \<Rightarrow> ('m, 'g) defaultHeadlessOptions \<Rightarrow> bytes result" where
  "writeDefaultRule L S v rule = write_all (Inr [0] # default_items L S v rule)"

text \<open>The loops over rules, where a step may panic.\<close>

fun write_rules :: "bytes result option list \<Rightarrow> bytes result option" where
  "write_rules [] = Some (Inr [])"
| "write_rules (None # rs) = None"
| "write_rules (Some (Inl e) # rs) = Some (Inl e)"
| "write_rules (Some (Inr bs) # rs) = map_option (\<lambda>r. rbind r (\<lambda>bs'. Inr (bs @ bs'))) (write_rules rs)"

definition writeLogicalRule ::
  "('m, 'g) srs_lib \<Rightarrow> string \<Rightarrow> bool \<Rightarrow> bytes result option list \<Rightarrow> bytes result option" where
  "writeLogicalRule S md ivt subRules =
     (if md = ''and'' \<or> md = ''or''
      then map_option (\<lambda>r. rbind r (\<lambda>bs.
             Inr ([1, if md = ''and'' then 0 else 1] @ WriteUvarint S (of_nat (length subRules)) @ bs @ [bool_byte ivt])))
             (write_rules subRules)
      else None)"

primrec writeRule ::
  "('m, 'g) rule_lib \<Rightarrow> ('m, 'g) srs_lib \<Rightarrow> u8 \<Rightarrow> ('m, 'g) headlessOptions \<Rightarrow> bytes result option" where
  "writeRule L S v (DefaultOptions opts) = Some (writeDefaultRule L S v opts)"
| "writeRule L S v (LogicalOptions md rs ivt) = writeLogicalRule S md ivt (map (writeRule L S v) rs)"
| "writeRule L S v (UnknownType t) = None"

definition srs_Write ::
  "('m, 'g) rule_lib \<Rightarrow> ('m, 'g) srs_lib \<Rightarrow> ('m, 'g) headlessOptions list \<Rightarrow> u8 \<Rightarrow> bytes result option" where
  "srs_Write L S rs v =
     map_option (\<lambda>r. rbind r (\<lambda>bs. Inr (MagicBytes @ [v] @ zlib_Compress S (WriteUvarint S (of_nat (length rs)) @ bs))))
       (write_rules (map (writeRule L S v) rs))"

end
