(* ===== verification/Srs_Round_Trip.thy ===== *)
theory Srs_Round_Trip
  imports Srs_Format
begin

text \<open>
  A rule set that is written in the binary form is read back as the rules it was written from, in
  their compiled form: the domains, addresses and AdGuard lines are replaced by the matchers and IP
  sets made of them. The laws of the libraries are the hypothesis \<open>srs_laws\<close>.
\<close>

section \<open>The laws of the libraries\<close>

text \<open>A slice or a string is shorter than \<open>2 ^ 64\<close>.\<close>

definition short :: "'a list \<Rightarrow> bool" where
  "short xs \<longleftrightarrow> length xs < 2 ^ 64"

fun plain_addr :: "addr \<Rightarrow> bool" where
  "plain_addr (Addr4 w) = True"
| "plain_addr (Addr6 w z) = (z = [])"
| "plain_addr NoAddr = False"

definition uvarint_law :: "('m, 'g) srs_lib \<Rightarrow> bool" where
  "uvarint_law S \<longleftrightarrow> (\<forall>n rest. ReadUvarint (WriteUvarint S n @ rest) = Inr (n, rest))"

definition slice_laws :: "('m, 'g) srs_lib \<Rightarrow> bool" where
  "slice_laws S \<longleftrightarrow>
     (\<forall>bs rest. short bs \<longrightarrow> ReadSlice_u8 S (WriteUvarint S (of_nat (length bs)) @ bs @ rest) = Inr (bs, rest)) \<and>
     (\<forall>ws rest. short ws \<longrightarrow>
        ReadSlice_u16 S (WriteUvarint S (of_nat (length ws)) @ concat (map (be_bytes 2) ws) @ rest) = Inr (ws, rest))"

definition matcher_laws :: "('m, 'g) srs_lib \<Rightarrow> bool" where
  "matcher_laws S \<longleftrightarrow>
     (\<forall>m bs rest. Matcher_Write S m = Inr bs \<longrightarrow> ReadMatcher S (bs @ rest) = Inr (m, rest)) \<and>
     (\<forall>g bs rest. AdGuardMatcher_Write S g = Inr bs \<longrightarrow> ReadAdGuardMatcher S (bs @ rest) = Inr (g, rest))"

definition address_laws :: "('m, 'g) rule_lib \<Rightarrow> ('m, 'g) srs_lib \<Rightarrow> bool" where
  "address_laws L S \<longleftrightarrow>
     (\<forall>w. AddrFromIP S (be_bytes 4 w) = Addr4 w) \<and> (\<forall>w. AddrFromIP S (be_bytes 16 w) = Addr6 w []) \<and>
     (\<forall>es rs. IPSetBuilder_IPSet L es = Inr rs \<longrightarrow> short rs \<and> (\<forall>(a, b) \<in> set rs. plain_addr a \<and> plain_addr b))"

definition zlib_law :: "('m, 'g) srs_lib \<Rightarrow> bool" where
  "zlib_law S \<longleftrightarrow> (\<forall>bs. zlib_Decompress S (zlib_Compress S bs) = Inr bs)"

definition srs_laws :: "('m, 'g) rule_lib \<Rightarrow> ('m, 'g) srs_lib \<Rightarrow> bool" where
  "srs_laws L S \<longleftrightarrow> uvarint_law S \<and> slice_laws S \<and> matcher_laws S \<and> address_laws L S \<and> zlib_law S"

section \<open>Reading what was written: the parts\<close>

lemma unat_of_length: "short xs \<Longrightarrow> unat (of_nat (length xs) :: u64) = length xs"
  by (simp add: short_def unat_of_nat)

lemma read_uvarint_of:
  assumes "srs_laws L S"
  shows "ReadUvarint (WriteUvarint S n @ rest) = Inr (n, rest)"
  using assms by (simp add: srs_laws_def uvarint_law_def)

lemma read_loop_concat:
  assumes "\<And>x rest. x \<in> set xs \<Longrightarrow> rd (wr x @ rest) = Inr (x, rest)"
  shows "read_loop name rd i (length xs) (concat (map wr xs) @ rest) = Inr (xs, rest)"
  using assms
proof (induction xs arbitrary: i)
  case (Cons x xs)
  then show ?case using Cons.prems[of x "concat (map wr xs) @ rest"] by simp
qed simp

lemma read_times_concat:
  assumes "\<And>x rest. x \<in> set xs \<Longrightarrow> rd (wr x @ rest) = Inr (x, rest)" "short xs"
  shows "read_times rd (of_nat (length xs)) (concat (map wr xs) @ rest) = Inr (xs, rest)"
  unfolding unat_of_length[OF assms(2)] using assms(1) by (rule read_loop_concat)

lemma readString_of:
  assumes "srs_laws L S" "short s"
  shows "readString S ((WriteUvarint S (of_nat (length s)) @ string_bytes s) @ rest) = Inr (s, rest)"
proof -
  have "short (string_bytes s)" using assms(2) by (simp add: short_def)
  then have "ReadSlice_u8 S (WriteUvarint S (of_nat (length (string_bytes s))) @ string_bytes s @ rest) = Inr (string_bytes s, rest)"
    using assms(1) by (simp only: srs_laws_def slice_laws_def)
  then show ?thesis by (simp add: readString_def)
qed

lemma readRuleItemString_of:
  assumes "srs_laws L S" "short ss" "\<forall>s \<in> set ss. short s"
  shows "readRuleItemString S (tl (writeRuleItemString S t ss) @ rest) = Inr (ss, rest)"
proof -
  have "read_times (readString S) (of_nat (length ss))
      (concat (map (\<lambda>s. WriteUvarint S (of_nat (length s)) @ string_bytes s) ss) @ rest) = Inr (ss, rest)"
    using readString_of[OF assms(1)] assms(2,3) by (intro read_times_concat) auto
  then show ?thesis by (simp add: readRuleItemString_def writeRuleItemString_def read_uvarint_of[OF assms(1)])
qed

lemma addr_AsSlice_length: "plain_addr a \<Longrightarrow> length (addr_AsSlice a) = 4 \<or> length (addr_AsSlice a) = 16"
  by (cases a) auto

lemma AddrFromIP_of:
  assumes "srs_laws L S" "plain_addr a"
  shows "AddrFromIP S (addr_AsSlice a) = a"
  using assms by (cases a) (simp_all add: srs_laws_def address_laws_def)

lemma readIPSetAddr_of:
  assumes "srs_laws L S" "plain_addr a"
  shows "readIPSetAddr S (writeIPSetAddr S a @ rest) = Inr (a, rest)"
  using addr_AsSlice_length[OF assms(2)] AddrFromIP_of[OF assms]
  by (auto simp: readIPSetAddr_def writeIPSetAddr_def read_uvarint_of[OF assms(1)] simp del: addr_AsSlice.simps)

lemma readIPSet_of:
  assumes "srs_laws L S" "short rs" "\<forall>(a, b) \<in> set rs. plain_addr a \<and> plain_addr b"
  shows "readIPSet S (writeIPSet S rs @ rest) = Inr (rs, rest)"
proof -
  have range: "readIPRange S ((\<lambda>(from, to). writeIPSetAddr S from @ writeIPSetAddr S to) x @ rest) = Inr (x, rest)"
    if "x \<in> set rs" for x rest
    using that assms(3) by (auto simp: readIPRange_def readIPSetAddr_of[OF assms(1)])
  have len: "of_be (be_bytes 8 (of_nat (length rs) :: u64)) = length rs"
    using assms(2) by (simp add: of_be_bytes short_def unat_of_nat del: be_bytes.simps)
  show ?thesis
    using read_times_concat[of rs "readIPRange S" "\<lambda>(from, to). writeIPSetAddr S from @ writeIPSetAddr S to" rest] range assms(2)
    by (simp add: readIPSet_def writeIPSet_def read_u8_def len del: be_bytes.simps)
qed

lemma prefix_bits_byte:
  assumes "prefix_wf p"
  shows "prefix_from (prefix_Addr p) (unat (of_int (prefix_Bits p) :: u8)) = p"
  using prefix_binary_round_trip[OF assms] drop_zone_id[of "prefix_Addr p"] assms
  by (simp add: prefix_UnmarshalBinary_def prefix_MarshalBinary_def prefix_wf_def)

lemma readPrefix_of:
  assumes "srs_laws L S" "prefix_wf p" "prefix_Addr p \<noteq> NoAddr"
  shows "readPrefix S (writePrefix S p @ rest) = Inr (p, rest)"
proof -
  have pl: "plain_addr (prefix_Addr p)" using assms(2,3) by (cases "prefix_Addr p") (auto simp: prefix_wf_def)
  show ?thesis
    using addr_AsSlice_length[OF pl] AddrFromIP_of[OF assms(1) pl] prefix_bits_byte[OF assms(2)]
    by (auto simp: readPrefix_def writePrefix_def read_uvarint_of[OF assms(1)] read_u8_def Let_def simp del: addr_AsSlice.simps)
qed

definition writable_prefixes :: "prefix list \<Rightarrow> bool" where
  "writable_prefixes ps \<longleftrightarrow> short ps \<and> (\<forall>p \<in> set ps. prefix_wf p \<and> prefix_Addr p \<noteq> NoAddr)"

lemma readPrefixes_of:
  assumes "srs_laws L S" "writable_prefixes ps"
  shows "readPrefixes S (writePrefixes S ps @ rest) = Inr (ps, rest)"
  using read_times_concat[of ps "readPrefix S" "writePrefix S" rest] readPrefix_of[OF assms(1)] assms(2)
  by (auto simp: readPrefixes_def writePrefixes_def read_uvarint_of[OF assms(1)] writable_prefixes_def)

lemma readAddressEntry_of:
  assumes "srs_laws L S" "writable_prefixes (snd x)"
  shows "readAddressEntry S ((\<lambda>(key, ps). key # writePrefixes S ps) x @ rest) = Inr (x, rest)"
  using readPrefixes_of[OF assms] by (cases x) (simp add: readAddressEntry_def read_u8_def)

lemma typed_map_Put_new: "k \<notin> fst ` set es \<Longrightarrow> typed_map_Put k v es = es @ [(k, v)]"
  by (induction k v es rule: typed_map_Put.induct) auto

lemma typed_map_of_distinct:
  assumes "distinct (map fst es)"
  shows "typed_map_of es = es"
proof -
  have "distinct (map fst (acc @ es)) \<Longrightarrow> fold (\<lambda>(k, v). typed_map_Put k v) es acc = acc @ es" for acc
    by (induction es arbitrary: acc) (auto simp: typed_map_Put_new)
  from this[of "[]"] show ?thesis using assms by (simp add: typed_map_of_def)
qed

section \<open>Items\<close>

text \<open>\<open>consumes b upd\<close>: the loop of the reader takes the bytes \<open>b\<close> and has then updated the rule.\<close>

definition consumes ::
  "('m, 'g) srs_lib \<Rightarrow> (u8 \<Rightarrow> string) \<Rightarrow> bytes \<Rightarrow> (('m, 'g) defaultHeadlessOptions \<Rightarrow> ('m, 'g) defaultHeadlessOptions) \<Rightarrow> bool" where
  "consumes S fmt b upd \<longleftrightarrow>
     (\<forall>last rule rest. \<exists>last'. read_items S fmt False last rule (b @ rest) = read_items S fmt False last' (upd rule) rest)"

lemma consumes_Nil: "consumes S fmt [] (\<lambda>r. r)"
  by (auto simp: consumes_def)

lemma consumes_append:
  assumes "consumes S fmt b u" "consumes S fmt b' u'"
  shows "consumes S fmt (b @ b') (\<lambda>r. u' (u r))"
  using assms unfolding consumes_def by (metis append.assoc)

lemma consumes_item:
  assumes "\<And>last rule rest. read_item S fmt False last rule (b @ rest) = Inr (ItemNext t, upd rule, rest)"
  shows "consumes S fmt b upd"
  unfolding consumes_def
proof (intro allI exI)
  fix last rule rest
  show "read_items S fmt False last rule (b @ rest) = read_items S fmt False t (upd rule) rest"
    by (subst read_items.simps) (simp add: assms)
qed

lemma consumes_if:
  assumes "write_if c r = Inr b" "\<And>b. c \<Longrightarrow> r = Inr b \<Longrightarrow> consumes S fmt b upd"
  shows "consumes S fmt b (\<lambda>r. if c then upd r else r)"
  using assms consumes_Nil by (auto simp: write_if_def split: if_splits)

lemmas read_item_simps = read_item_def rule_item_bytes read_u8_def next_item_def

lemma writeRuleItemString_split: "writeRuleItemString S t ss = t # tl (writeRuleItemString S t ss)"
  by (simp add: writeRuleItemString_def)

lemma ReadSlice_u16_of:
  assumes "srs_laws L S" "short ws"
  shows "ReadSlice_u16 S (tl (writeRuleItemUint16 S t ws) @ rest) = Inr (ws, rest)"
  using assms by (simp add: writeRuleItemUint16_def srs_laws_def slice_laws_def)

definition short_strings :: "string list \<Rightarrow> bool" where
  "short_strings ss \<longleftrightarrow> short ss \<and> (\<forall>s \<in> set ss. short s)"

lemma string_item_reads:
  assumes "srs_laws L S" "short_strings ss"
  shows "readRuleItemString S (tl (writeRuleItemString S t ss) @ rest) = Inr (ss, rest)"
  using readRuleItemString_of[OF assms(1)] assms(2) by (simp add: short_strings_def)

lemma string_items_consumed:
  assumes "srs_laws L S" "short_strings ss"
  shows "consumes S fmt (writeRuleItemString S ruleItemNetwork ss) (\<lambda>r. r\<lparr>dh_Network := ss\<rparr>)"
    "consumes S fmt (writeRuleItemString S ruleItemDomainKeyword ss) (\<lambda>r. r\<lparr>dh_DomainKeyword := ss\<rparr>)"
    "consumes S fmt (writeRuleItemString S ruleItemDomainRegex ss) (\<lambda>r. r\<lparr>dh_DomainRegex := ss\<rparr>)"
    "consumes S fmt (writeRuleItemString S ruleItemSourcePortRange ss) (\<lambda>r. r\<lparr>dh_SourcePortRange := ss\<rparr>)"
    "consumes S fmt (writeRuleItemString S ruleItemPortRange ss) (\<lambda>r. r\<lparr>dh_PortRange := ss\<rparr>)"
    "consumes S fmt (writeRuleItemString S ruleItemProcessName ss) (\<lambda>r. r\<lparr>dh_ProcessName := ss\<rparr>)"
    "consumes S fmt (writeRuleItemString S ruleItemProcessPath ss) (\<lambda>r. r\<lparr>dh_ProcessPath := ss\<rparr>)"
    "consumes S fmt (writeRuleItemString S ruleItemProcessPathRegex ss) (\<lambda>r. r\<lparr>dh_ProcessPathRegex := ss\<rparr>)"
    "consumes S fmt (writeRuleItemString S ruleItemPackageName ss) (\<lambda>r. r\<lparr>dh_PackageName := ss\<rparr>)"
    "consumes S fmt (writeRuleItemString S ruleItemPackageNameRegex ss) (\<lambda>r. r\<lparr>dh_PackageNameRegex := ss\<rparr>)"
    "consumes S fmt (writeRuleItemString S ruleItemWIFISSID ss) (\<lambda>r. r\<lparr>dh_WIFISSID := ss\<rparr>)"
    "consumes S fmt (writeRuleItemString S ruleItemWIFIBSSID ss) (\<lambda>r. r\<lparr>dh_WIFIBSSID := ss\<rparr>)"
proof -
  note rd = string_item_reads[OF assms]
  show "consumes S fmt (writeRuleItemString S ruleItemNetwork ss) (\<lambda>r. r\<lparr>dh_Network := ss\<rparr>)"
    by (subst writeRuleItemString_split, rule consumes_item) (simp add: read_item_simps rd)
  show "consumes S fmt (writeRuleItemString S ruleItemDomainKeyword ss) (\<lambda>r. r\<lparr>dh_DomainKeyword := ss\<rparr>)"
    by (subst writeRuleItemString_split, rule consumes_item) (simp add: read_item_simps rd)
  show "consumes S fmt (writeRuleItemString S ruleItemDomainRegex ss) (\<lambda>r. r\<lparr>dh_DomainRegex := ss\<rparr>)"
    by (subst writeRuleItemString_split, rule consumes_item) (simp add: read_item_simps rd)
  show "consumes S fmt (writeRuleItemString S ruleItemSourcePortRange ss) (\<lambda>r. r\<lparr>dh_SourcePortRange := ss\<rparr>)"
    by (subst writeRuleItemString_split, rule consumes_item) (simp add: read_item_simps rd)
  show "consumes S fmt (writeRuleItemString S ruleItemPortRange ss) (\<lambda>r. r\<lparr>dh_PortRange := ss\<rparr>)"
    by (subst writeRuleItemString_split, rule consumes_item) (simp add: read_item_simps rd)
  show "consumes S fmt (writeRuleItemString S ruleItemProcessName ss) (\<lambda>r. r\<lparr>dh_ProcessName := ss\<rparr>)"
    by (subst writeRuleItemString_split, rule consumes_item) (simp add: read_item_simps rd)
  show "consumes S fmt (writeRuleItemString S ruleItemProcessPath ss) (\<lambda>r. r\<lparr>dh_ProcessPath := ss\<rparr>)"
    by (subst writeRuleItemString_split, rule consumes_item) (simp add: read_item_simps rd)
  show "consumes S fmt (writeRuleItemString S ruleItemProcessPathRegex ss) (\<lambda>r. r\<lparr>dh_ProcessPathRegex := ss\<rparr>)"
    by (subst writeRuleItemString_split, rule consumes_item) (simp add: read_item_simps rd)
  show "consumes S fmt (writeRuleItemString S ruleItemPackageName ss) (\<lambda>r. r\<lparr>dh_PackageName := ss\<rparr>)"
    by (subst writeRuleItemString_split, rule consumes_item) (simp add: read_item_simps rd)
  show "consumes S fmt (writeRuleItemString S ruleItemPackageNameRegex ss) (\<lambda>r. r\<lparr>dh_PackageNameRegex := ss\<rparr>)"
    by (subst writeRuleItemString_split, rule consumes_item) (simp add: read_item_simps rd)
  show "consumes S fmt (writeRuleItemString S ruleItemWIFISSID ss) (\<lambda>r. r\<lparr>dh_WIFISSID := ss\<rparr>)"
    by (subst writeRuleItemString_split, rule consumes_item) (simp add: read_item_simps rd)
  show "consumes S fmt (writeRuleItemString S ruleItemWIFIBSSID ss) (\<lambda>r. r\<lparr>dh_WIFIBSSID := ss\<rparr>)"
    by (subst writeRuleItemString_split, rule consumes_item) (simp add: read_item_simps rd)
qed

lemma uint16_items_consumed:
  assumes "srs_laws L S" "short ws"
  shows "consumes S fmt (writeRuleItemUint16 S ruleItemQueryType ws) (\<lambda>r. r\<lparr>dh_QueryType := ws\<rparr>)"
    "consumes S fmt (writeRuleItemUint16 S ruleItemSourcePort ws) (\<lambda>r. r\<lparr>dh_SourcePort := ws\<rparr>)"
    "consumes S fmt (writeRuleItemUint16 S ruleItemPort ws) (\<lambda>r. r\<lparr>dh_Port := ws\<rparr>)"
proof -
  note rd = ReadSlice_u16_of[OF assms]
  have split: "writeRuleItemUint16 S t ws = t # tl (writeRuleItemUint16 S t ws)" for t by (simp add: writeRuleItemUint16_def)
  show "consumes S fmt (writeRuleItemUint16 S ruleItemQueryType ws) (\<lambda>r. r\<lparr>dh_QueryType := ws\<rparr>)"
    by (subst split, rule consumes_item) (simp add: read_item_simps rd)
  show "consumes S fmt (writeRuleItemUint16 S ruleItemSourcePort ws) (\<lambda>r. r\<lparr>dh_SourcePort := ws\<rparr>)"
    by (subst split, rule consumes_item) (simp add: read_item_simps rd)
  show "consumes S fmt (writeRuleItemUint16 S ruleItemPort ws) (\<lambda>r. r\<lparr>dh_Port := ws\<rparr>)"
    by (subst split, rule consumes_item) (simp add: read_item_simps rd)
qed

lemma flag_items_consumed:
  "consumes S fmt [ruleItemNetworkIsExpensive] (\<lambda>r. r\<lparr>dh_NetworkIsExpensive := True\<rparr>)"
  "consumes S fmt [ruleItemNetworkIsConstrained] (\<lambda>r. r\<lparr>dh_NetworkIsConstrained := True\<rparr>)"
  by (rule consumes_item, simp add: read_item_simps)+

lemma network_type_consumed:
  assumes "srs_laws L S" "short ts"
  shows "consumes S fmt (writeRuleItemUint8 S ruleItemNetworkType ts) (\<lambda>r. r\<lparr>dh_NetworkType := ts\<rparr>)"
proof (rule consumes_item)
  have "ReadSlice_u8 S (WriteUvarint S (of_nat (length ts)) @ ts @ rest) = Inr (ts, rest)" for rest
    using assms by (simp add: srs_laws_def slice_laws_def)
  then show "read_item S fmt False last rule (writeRuleItemUint8 S ruleItemNetworkType ts @ rest) =
      Inr (ItemNext ruleItemNetworkType, rule\<lparr>dh_NetworkType := ts\<rparr>, rest)" for last rule rest
    by (simp add: writeRuleItemUint8_def read_item_simps)
qed

lemma domain_consumed:
  assumes "srs_laws L S" "Matcher_Write S m = Inr bs"
  shows "consumes S fmt (ruleItemDomain # bs) (\<lambda>r. r\<lparr>dh_DomainMatcher := Some m\<rparr>)"
proof (rule consumes_item)
  have "ReadMatcher S (bs @ rest) = Inr (m, rest)" for rest using assms by (simp add: srs_laws_def matcher_laws_def)
  then show "read_item S fmt False last rule ((ruleItemDomain # bs) @ rest) =
      Inr (ItemNext ruleItemDomain, rule\<lparr>dh_DomainMatcher := Some m\<rparr>, rest)" for last rule rest
    by (simp add: read_item_simps)
qed

lemma adguard_consumed:
  assumes "srs_laws L S" "AdGuardMatcher_Write S g = Inr bs"
  shows "consumes S fmt (ruleItemAdGuardDomain # bs) (\<lambda>r. r\<lparr>dh_AdGuardDomainMatcher := Some g\<rparr>)"
proof (rule consumes_item)
  have "ReadAdGuardMatcher S (bs @ rest) = Inr (g, rest)" for rest using assms by (simp add: srs_laws_def matcher_laws_def)
  then show "read_item S fmt False last rule ((ruleItemAdGuardDomain # bs) @ rest) =
      Inr (ItemNext ruleItemAdGuardDomain, rule\<lparr>dh_AdGuardDomainMatcher := Some g\<rparr>, rest)" for last rule rest
    by (simp add: read_item_simps)
qed

lemma cidr_ranges_plain:
  assumes "srs_laws L S" "cidr_ranges L cidrs = Inr rs"
  shows "short rs \<and> (\<forall>(a, b) \<in> set rs. plain_addr a \<and> plain_addr b)"
proof -
  obtain es where "IPSetBuilder_IPSet L es = Inr rs" using assms(2) by (auto simp: cidr_ranges_def)
  then show ?thesis using assms(1) unfolding srs_laws_def address_laws_def by blast
qed

lemma cidr_consumed:
  assumes "srs_laws L S" "writeRuleItemCIDR L S t cidrs = Inr b" "cidr_ranges L cidrs = Inr rs"
  shows "t = ruleItemSourceIPCIDR \<Longrightarrow> consumes S fmt b (\<lambda>r. r\<lparr>dh_SourceIPSet := Some rs\<rparr>)"
    "t = ruleItemIPCIDR \<Longrightarrow> consumes S fmt b (\<lambda>r. r\<lparr>dh_IPSet := Some rs\<rparr>)"
proof -
  have b: "b = t # writeIPSet S rs" using assms(2,3) by (simp add: writeRuleItemCIDR_def)
  have rd: "readIPSet S (writeIPSet S rs @ rest) = Inr (rs, rest)" for rest
    using readIPSet_of[OF assms(1)] cidr_ranges_plain[OF assms(1,3)] by blast
  show "t = ruleItemSourceIPCIDR \<Longrightarrow> consumes S fmt b (\<lambda>r. r\<lparr>dh_SourceIPSet := Some rs\<rparr>)"
    by (simp only: b, rule consumes_item) (simp add: read_item_simps rd)
  show "t = ruleItemIPCIDR \<Longrightarrow> consumes S fmt b (\<lambda>r. r\<lparr>dh_IPSet := Some rs\<rparr>)"
    by (simp only: b, rule consumes_item) (simp add: read_item_simps rd)
qed

definition writable_entries :: "(u8 \<times> prefix list) list \<Rightarrow> bool" where
  "writable_entries es \<longleftrightarrow> short es \<and> distinct (map fst es) \<and> (\<forall>x \<in> set es. writable_prefixes (snd x))"

lemma interface_addresses_consumed:
  assumes "srs_laws L S" "writable_entries es"
  shows "consumes S fmt (ruleItemNetworkInterfaceAddress # WriteUvarint S (of_nat (length es)) @
      concat (map (\<lambda>(key, ps). key # writePrefixes S ps) es)) (\<lambda>r. r\<lparr>dh_NetworkInterfaceAddress := Some es\<rparr>)"
proof (rule consumes_item)
  have rd: "read_times (readAddressEntry S) (of_nat (length es)) (concat (map (\<lambda>(key, ps). key # writePrefixes S ps) es) @ rest)
      = Inr (es, rest)" for rest
    using assms readAddressEntry_of[OF assms(1)] by (intro read_times_concat) (auto simp: writable_entries_def)
  show "read_item S fmt False last rule ((ruleItemNetworkInterfaceAddress # WriteUvarint S (of_nat (length es)) @
      concat (map (\<lambda>(key, ps). key # writePrefixes S ps) es)) @ rest) =
      Inr (ItemNext ruleItemNetworkInterfaceAddress, rule\<lparr>dh_NetworkInterfaceAddress := Some es\<rparr>, rest)" for last rule rest
    using assms(2)
    by (simp add: read_item_simps rd read_uvarint_of[OF assms(1)] typed_map_of_distinct writable_entries_def)
qed

lemma default_addresses_consumed:
  assumes "srs_laws L S" "writable_prefixes ps"
  shows "consumes S fmt (ruleItemDefaultInterfaceAddress # writePrefixes S ps) (\<lambda>r. r\<lparr>dh_DefaultInterfaceAddress := ps\<rparr>)"
  by (rule consumes_item) (simp add: read_item_simps readPrefixes_of[OF assms])

section \<open>Default rules\<close>

text \<open>The options a written rule is read back as.\<close>

definition compiled :: "('m, 'g) rule_lib \<Rightarrow> u8 \<Rightarrow> ('m, 'g) defaultHeadlessOptions \<Rightarrow> ('m, 'g) defaultHeadlessOptions" where
  "compiled L v opts = opts\<lparr>
     dh_Domain := [], dh_DomainSuffix := [], dh_SourceIPCIDR := [], dh_IPCIDR := [], dh_AdGuardDomain := [],
     dh_NetworkInterfaceAddress := (if dh_NetworkInterfaceAddress opts = Some [] then None else dh_NetworkInterfaceAddress opts),
     dh_DomainMatcher := (if dh_Domain opts \<noteq> [] \<or> dh_DomainSuffix opts \<noteq> []
       then Some (NewMatcher L (dh_Domain opts) (dh_DomainSuffix opts) (v = 1)) else None),
     dh_SourceIPSet := (if dh_SourceIPCIDR opts \<noteq> [] then Some (projr (cidr_ranges L (dh_SourceIPCIDR opts))) else None),
     dh_IPSet := (if dh_IPCIDR opts \<noteq> [] then Some (projr (cidr_ranges L (dh_IPCIDR opts))) else None),
     dh_AdGuardDomainMatcher := (if dh_AdGuardDomain opts \<noteq> [] then Some (NewAdGuardMatcher L (dh_AdGuardDomain opts)) else None),
     dh_EmptyList := False\<rparr>"

text \<open>Options whose lists have lengths of a Go slice and whose prefixes are valid.\<close>

definition writable :: "('m, 'g) defaultHeadlessOptions \<Rightarrow> bool" where
  "writable opts \<longleftrightarrow>
     list_all short [dh_QueryType opts, dh_SourcePort opts, dh_Port opts] \<and> short (dh_NetworkType opts) \<and>
     list_all short_strings [dh_Network opts, dh_DomainKeyword opts, dh_DomainRegex opts, dh_SourcePortRange opts, dh_PortRange opts, dh_ProcessName opts, dh_ProcessPath opts, dh_ProcessPathRegex opts, dh_PackageName opts, dh_PackageNameRegex opts, dh_WIFISSID opts, dh_WIFIBSSID opts] \<and>
     writable_prefixes (dh_DefaultInterfaceAddress opts) \<and>
     (case dh_NetworkInterfaceAddress opts of None \<Rightarrow> True | Some es \<Rightarrow> writable_entries es)"

definition upd_if :: "bool \<Rightarrow> ('r \<Rightarrow> 'r) \<Rightarrow> 'r \<Rightarrow> 'r" where
  "upd_if c f r = (if c then f r else r)"

definition item_updates ::
  "('m, 'g) rule_lib \<Rightarrow> u8 \<Rightarrow> ('m, 'g) defaultHeadlessOptions \<Rightarrow> (('m, 'g) defaultHeadlessOptions \<Rightarrow> ('m, 'g) defaultHeadlessOptions) list" where
  "item_updates L v opts =
   [upd_if (dh_QueryType opts \<noteq> []) (\<lambda>r. r\<lparr>dh_QueryType := dh_QueryType opts\<rparr>),
    upd_if (dh_Network opts \<noteq> []) (\<lambda>r. r\<lparr>dh_Network := dh_Network opts\<rparr>),
    upd_if (dh_Domain opts \<noteq> [] \<or> dh_DomainSuffix opts \<noteq> []) (\<lambda>r. r\<lparr>dh_DomainMatcher := Some (NewMatcher L (dh_Domain opts) (dh_DomainSuffix opts) (v = 1))\<rparr>),
    upd_if (dh_DomainKeyword opts \<noteq> []) (\<lambda>r. r\<lparr>dh_DomainKeyword := dh_DomainKeyword opts\<rparr>),
    upd_if (dh_DomainRegex opts \<noteq> []) (\<lambda>r. r\<lparr>dh_DomainRegex := dh_DomainRegex opts\<rparr>),
    upd_if (dh_SourceIPCIDR opts \<noteq> []) (\<lambda>r. r\<lparr>dh_SourceIPSet := Some (projr (cidr_ranges L (dh_SourceIPCIDR opts)))\<rparr>),
    upd_if (dh_IPCIDR opts \<noteq> []) (\<lambda>r. r\<lparr>dh_IPSet := Some (projr (cidr_ranges L (dh_IPCIDR opts)))\<rparr>),
    upd_if (dh_SourcePort opts \<noteq> []) (\<lambda>r. r\<lparr>dh_SourcePort := dh_SourcePort opts\<rparr>),
    upd_if (dh_SourcePortRange opts \<noteq> []) (\<lambda>r. r\<lparr>dh_SourcePortRange := dh_SourcePortRange opts\<rparr>),
    upd_if (dh_Port opts \<noteq> []) (\<lambda>r. r\<lparr>dh_Port := dh_Port opts\<rparr>),
    upd_if (dh_PortRange opts \<noteq> []) (\<lambda>r. r\<lparr>dh_PortRange := dh_PortRange opts\<rparr>),
    upd_if (dh_ProcessName opts \<noteq> []) (\<lambda>r. r\<lparr>dh_ProcessName := dh_ProcessName opts\<rparr>),
    upd_if (dh_ProcessPath opts \<noteq> []) (\<lambda>r. r\<lparr>dh_ProcessPath := dh_ProcessPath opts\<rparr>),
    upd_if (dh_ProcessPathRegex opts \<noteq> []) (\<lambda>r. r\<lparr>dh_ProcessPathRegex := dh_ProcessPathRegex opts\<rparr>),
    upd_if (dh_PackageName opts \<noteq> []) (\<lambda>r. r\<lparr>dh_PackageName := dh_PackageName opts\<rparr>),
    upd_if (dh_PackageNameRegex opts \<noteq> []) (\<lambda>r. r\<lparr>dh_PackageNameRegex := dh_PackageNameRegex opts\<rparr>),
    upd_if (dh_NetworkType opts \<noteq> []) (\<lambda>r. r\<lparr>dh_NetworkType := dh_NetworkType opts\<rparr>),
    upd_if (dh_NetworkIsExpensive opts) (\<lambda>r. r\<lparr>dh_NetworkIsExpensive := True\<rparr>),
    upd_if (dh_NetworkIsConstrained opts) (\<lambda>r. r\<lparr>dh_NetworkIsConstrained := True\<rparr>),
    upd_if (dh_NetworkInterfaceAddress opts \<noteq> None \<and> dh_NetworkInterfaceAddress opts \<noteq> Some []) (\<lambda>r. r\<lparr>dh_NetworkInterfaceAddress := dh_NetworkInterfaceAddress opts\<rparr>),
    upd_if (dh_DefaultInterfaceAddress opts \<noteq> []) (\<lambda>r. r\<lparr>dh_DefaultInterfaceAddress := dh_DefaultInterfaceAddress opts\<rparr>),
    upd_if (dh_WIFISSID opts \<noteq> []) (\<lambda>r. r\<lparr>dh_WIFISSID := dh_WIFISSID opts\<rparr>),
    upd_if (dh_WIFIBSSID opts \<noteq> []) (\<lambda>r. r\<lparr>dh_WIFIBSSID := dh_WIFIBSSID opts\<rparr>),
    upd_if (dh_AdGuardDomain opts \<noteq> []) (\<lambda>r. r\<lparr>dh_AdGuardDomainMatcher := Some (NewAdGuardMatcher L (dh_AdGuardDomain opts))\<rparr>)]"

lemma write_all_consumes:
  assumes "write_all rs = Inr bs" "list_all2 (\<lambda>r u. \<forall>b. r = Inr b \<longrightarrow> consumes S fmt b u) rs us"
  shows "consumes S fmt bs (\<lambda>r. fold (\<lambda>u r. u r) us r)"
  using assms(2,1)
proof (induction rs us arbitrary: bs rule: list_all2_induct)
  case Nil
  then show ?case using consumes_Nil by simp
next
  case (Cons r rs u us)
  then obtain b b' where "r = Inr b" "write_all rs = Inr b'" "bs = b @ b'" by auto
  then show ?case using consumes_append[of S fmt b u b' "\<lambda>r. fold (\<lambda>u r. u r) us r"] Cons by simp
qed

lemma write_if_consumes:
  "(\<And>b. c \<Longrightarrow> r = Inr b \<Longrightarrow> consumes S fmt b upd) \<Longrightarrow>
   \<forall>b. write_if c r = Inr b \<longrightarrow> consumes S fmt b (upd_if c upd)"
  using consumes_if unfolding upd_if_def by blast

lemma since_version_Inr: "since_version v k msg bs = Inr b \<Longrightarrow> b = bs"
  by (auto simp: since_version_def split: if_splits)

lemma default_items_consumed:
  assumes laws: "srs_laws L S" and wr: "writable opts"
  shows "list_all2 (\<lambda>r u. \<forall>b. r = Inr b \<longrightarrow> consumes S fmt b u) (butlast (default_items L S v opts)) (item_updates L v opts)"
proof -
  note str = string_items_consumed[OF laws] and u16 = uint16_items_consumed[OF laws]
  have w: "writable_prefixes (dh_DefaultInterfaceAddress opts)" "short (dh_NetworkType opts)"
    "\<And>es. dh_NetworkInterfaceAddress opts = Some es \<Longrightarrow> writable_entries es"
    using wr by (auto simp: writable_def)
  have ranges: "cidr_ranges L cs = Inr (projr (cidr_ranges L cs))" if "writeRuleItemCIDR L S t cs = Inr b" for t cs b
    using that by (auto simp: writeRuleItemCIDR_def)
  have nia: "\<forall>b. (case dh_NetworkInterfaceAddress opts of None \<Rightarrow> Inr []
      | Some es \<Rightarrow> write_if (es \<noteq> []) (since_version v 4 msg (ruleItemNetworkInterfaceAddress #
          WriteUvarint S (of_nat (length es)) @ concat (map (\<lambda>(key, ps). key # writePrefixes S ps) es)))) = Inr b \<longrightarrow>
      consumes S fmt b (upd_if (dh_NetworkInterfaceAddress opts \<noteq> None \<and> dh_NetworkInterfaceAddress opts \<noteq> Some [])
        (\<lambda>r. r\<lparr>dh_NetworkInterfaceAddress := dh_NetworkInterfaceAddress opts\<rparr>))" for msg
    using interface_addresses_consumed[OF laws w(3)] consumes_Nil[of S fmt]
    by (auto simp: write_if_def upd_if_def[abs_def] dest!: since_version_Inr split: option.splits if_splits)
  show ?thesis
    unfolding default_items_def item_updates_def
    apply (simp only: butlast.simps list.distinct if_False list_all2_Cons list_all2_Nil simp_thms)
    apply (intro conjI)
    subgoal by (rule write_if_consumes) (use u16 wr in \<open>auto simp: writable_def\<close>)
    subgoal by (rule write_if_consumes) (use str wr in \<open>auto simp: writable_def\<close>)
    subgoal by (rule write_if_consumes) (use domain_consumed[OF laws] in auto)
    subgoal by (rule write_if_consumes) (use str wr in \<open>auto simp: writable_def\<close>)
    subgoal by (rule write_if_consumes) (use str wr in \<open>auto simp: writable_def\<close>)
    subgoal by (rule write_if_consumes) (use cidr_consumed[OF laws _ ranges] in auto)
    subgoal by (rule write_if_consumes) (use cidr_consumed[OF laws _ ranges] in auto)
    subgoal by (rule write_if_consumes) (use u16 wr in \<open>auto simp: writable_def\<close>)
    subgoal by (rule write_if_consumes) (use str wr in \<open>auto simp: writable_def\<close>)
    subgoal by (rule write_if_consumes) (use u16 wr in \<open>auto simp: writable_def\<close>)
    subgoal by (rule write_if_consumes) (use str wr in \<open>auto simp: writable_def\<close>)
    subgoal by (rule write_if_consumes) (use str wr in \<open>auto simp: writable_def\<close>)
    subgoal by (rule write_if_consumes) (use str wr in \<open>auto simp: writable_def\<close>)
    subgoal by (rule write_if_consumes) (use str wr in \<open>auto simp: writable_def\<close>)
    subgoal by (rule write_if_consumes) (use str wr in \<open>auto simp: writable_def\<close>)
    subgoal by (rule write_if_consumes) (use str wr in \<open>auto simp: writable_def dest!: since_version_Inr\<close>)
    subgoal by (rule write_if_consumes) (use network_type_consumed[OF laws w(2)] in \<open>auto dest!: since_version_Inr\<close>)
    subgoal by (rule write_if_consumes) (use flag_items_consumed in \<open>auto dest!: since_version_Inr\<close>)
    subgoal by (rule write_if_consumes) (use flag_items_consumed in \<open>auto dest!: since_version_Inr\<close>)
    subgoal by (rule nia)
    subgoal by (rule write_if_consumes) (use default_addresses_consumed[OF laws w(1)] in \<open>auto dest!: since_version_Inr\<close>)
    subgoal by (rule write_if_consumes) (use str wr in \<open>auto simp: writable_def\<close>)
    subgoal by (rule write_if_consumes) (use str wr in \<open>auto simp: writable_def\<close>)
    subgoal by (rule write_if_consumes) (use adguard_consumed[OF laws] in \<open>auto split: if_splits\<close>)
    subgoal by simp
    done
qed


lemma write_all_append: "write_all (xs @ ys) = rbind (write_all xs) (\<lambda>bs. rbind (write_all ys) (\<lambda>bs'. Inr (bs @ bs')))"
proof (induction xs)
  case (Cons x xs)
  then show ?case by (cases x; cases "write_all xs"; cases "write_all ys") auto
qed (cases "write_all ys", auto)

text \<open>A field of a rule after conditional updates: an update of another field is skipped.\<close>

lemma upd_if_other: "(\<And>r. s (f r) = s r) \<Longrightarrow> s (upd_if c f r) = s r"
  by (simp add: upd_if_def)

lemma upd_if_hit:
  "dh_QueryType (upd_if c (dh_QueryType_update (\<lambda>_. k0)) r) = (if c then k0 else dh_QueryType r)"
  "dh_Network (upd_if c (dh_Network_update (\<lambda>_. k1)) r) = (if c then k1 else dh_Network r)"
  "dh_DomainMatcher (upd_if c (dh_DomainMatcher_update (\<lambda>_. k2)) r) = (if c then k2 else dh_DomainMatcher r)"
  "dh_DomainKeyword (upd_if c (dh_DomainKeyword_update (\<lambda>_. k3)) r) = (if c then k3 else dh_DomainKeyword r)"
  "dh_DomainRegex (upd_if c (dh_DomainRegex_update (\<lambda>_. k4)) r) = (if c then k4 else dh_DomainRegex r)"
  "dh_SourceIPSet (upd_if c (dh_SourceIPSet_update (\<lambda>_. k5)) r) = (if c then k5 else dh_SourceIPSet r)"
  "dh_IPSet (upd_if c (dh_IPSet_update (\<lambda>_. k6)) r) = (if c then k6 else dh_IPSet r)"
  "dh_SourcePort (upd_if c (dh_SourcePort_update (\<lambda>_. k7)) r) = (if c then k7 else dh_SourcePort r)"
  "dh_SourcePortRange (upd_if c (dh_SourcePortRange_update (\<lambda>_. k8)) r) = (if c then k8 else dh_SourcePortRange r)"
  "dh_Port (upd_if c (dh_Port_update (\<lambda>_. k9)) r) = (if c then k9 else dh_Port r)"
  "dh_PortRange (upd_if c (dh_PortRange_update (\<lambda>_. k10)) r) = (if c then k10 else dh_PortRange r)"
  "dh_ProcessName (upd_if c (dh_ProcessName_update (\<lambda>_. k11)) r) = (if c then k11 else dh_ProcessName r)"
  "dh_ProcessPath (upd_if c (dh_ProcessPath_update (\<lambda>_. k12)) r) = (if c then k12 else dh_ProcessPath r)"
  "dh_ProcessPathRegex (upd_if c (dh_ProcessPathRegex_update (\<lambda>_. k13)) r) = (if c then k13 else dh_ProcessPathRegex r)"
  "dh_PackageName (upd_if c (dh_PackageName_update (\<lambda>_. k14)) r) = (if c then k14 else dh_PackageName r)"
  "dh_PackageNameRegex (upd_if c (dh_PackageNameRegex_update (\<lambda>_. k15)) r) = (if c then k15 else dh_PackageNameRegex r)"
  "dh_NetworkType (upd_if c (dh_NetworkType_update (\<lambda>_. k16)) r) = (if c then k16 else dh_NetworkType r)"
  "dh_NetworkIsExpensive (upd_if c (dh_NetworkIsExpensive_update (\<lambda>_. kb)) r) = (if c then kb else dh_NetworkIsExpensive r)"
  "dh_NetworkIsConstrained (upd_if c (dh_NetworkIsConstrained_update (\<lambda>_. kb)) r) = (if c then kb else dh_NetworkIsConstrained r)"
  "dh_NetworkInterfaceAddress (upd_if c (dh_NetworkInterfaceAddress_update (\<lambda>_. k19)) r) = (if c then k19 else dh_NetworkInterfaceAddress r)"
  "dh_DefaultInterfaceAddress (upd_if c (dh_DefaultInterfaceAddress_update (\<lambda>_. k20)) r) = (if c then k20 else dh_DefaultInterfaceAddress r)"
  "dh_WIFISSID (upd_if c (dh_WIFISSID_update (\<lambda>_. k21)) r) = (if c then k21 else dh_WIFISSID r)"
  "dh_WIFIBSSID (upd_if c (dh_WIFIBSSID_update (\<lambda>_. k22)) r) = (if c then k22 else dh_WIFIBSSID r)"
  "dh_AdGuardDomainMatcher (upd_if c (dh_AdGuardDomainMatcher_update (\<lambda>_. k23)) r) = (if c then k23 else dh_AdGuardDomainMatcher r)"
  by (simp_all add: upd_if_def)

lemmas upd_if_others =
  upd_if_other[of dh_QueryType] upd_if_other[of dh_Network] upd_if_other[of dh_Domain] upd_if_other[of dh_DomainSuffix]
  upd_if_other[of dh_DomainKeyword] upd_if_other[of dh_DomainRegex] upd_if_other[of dh_SourceIPCIDR] upd_if_other[of dh_IPCIDR]
  upd_if_other[of dh_SourcePort] upd_if_other[of dh_SourcePortRange] upd_if_other[of dh_Port] upd_if_other[of dh_PortRange]
  upd_if_other[of dh_ProcessName] upd_if_other[of dh_ProcessPath] upd_if_other[of dh_ProcessPathRegex] upd_if_other[of dh_PackageName]
  upd_if_other[of dh_PackageNameRegex] upd_if_other[of dh_NetworkType] upd_if_other[of dh_NetworkIsExpensive] upd_if_other[of dh_NetworkIsConstrained]
  upd_if_other[of dh_WIFISSID] upd_if_other[of dh_WIFIBSSID] upd_if_other[of dh_NetworkInterfaceAddress] upd_if_other[of dh_DefaultInterfaceAddress]
  upd_if_other[of dh_Invert] upd_if_other[of dh_DomainMatcher] upd_if_other[of dh_SourceIPSet] upd_if_other[of dh_IPSet]
  upd_if_other[of dh_AdGuardDomain] upd_if_other[of dh_AdGuardDomainMatcher] upd_if_other[of dh_EmptyList]

lemma updates_compiled:
  "(fold (\<lambda>u r. u r) (item_updates L v opts) noHeadlessOptions)\<lparr>dh_Invert := dh_Invert opts\<rparr> = compiled L v opts"
  unfolding item_updates_def
  by (rule defaultHeadlessOptions.equality) (simp_all add: upd_if_others upd_if_hit compiled_def noHeadlessOptions_def)

lemma default_round_trip:
  assumes laws: "srs_laws L S" and wr: "writable opts" and w: "writeDefaultRule L S v opts = Inr b"
  shows "\<exists>payload. b = 0 # payload \<and> (\<forall>rest. readDefaultRule S fmt False (payload @ rest) = Some (Inr (compiled L v opts, rest)))"
proof -
  let ?fin = "[ruleItemFinal, bool_byte (dh_Invert opts)]"
  have split: "default_items L S v opts = butlast (default_items L S v opts) @ [Inr ?fin]"
    unfolding default_items_def by simp
  obtain bs where b: "b = 0 # bs @ ?fin" and bs: "write_all (butlast (default_items L S v opts)) = Inr bs"
    using w unfolding writeDefaultRule_def by (subst (asm) split) (auto simp: write_all_append)
  let ?u = "\<lambda>r. fold (\<lambda>u r. u r) (item_updates L v opts) r"
  have cons: "consumes S fmt bs ?u" by (rule write_all_consumes[OF bs default_items_consumed[OF laws wr]])
  have "readDefaultRule S fmt False ((bs @ ?fin) @ rest) = Some (Inr (compiled L v opts, rest))" for rest
  proof -
    obtain last' where "readDefaultRule S fmt False (bs @ ?fin @ rest) = read_items S fmt False last' (?u noHeadlessOptions) (?fin @ rest)"
      using cons unfolding consumes_def readDefaultRule_def by blast
    also have "\<dots> = Some (Inr ((?u noHeadlessOptions)\<lparr>dh_Invert := dh_Invert opts\<rparr>, rest))"
      by (subst read_items.simps) (simp add: read_item_simps read_bool_def bool_byte_def)
    finally show ?thesis by (simp add: updates_compiled)
  qed
  then show ?thesis using b by (intro exI[of _ "bs @ ?fin"]) simp
qed

section \<open>Logical rules and rule sets\<close>

primrec compiled_rule :: "('m, 'g) rule_lib \<Rightarrow> u8 \<Rightarrow> ('m, 'g) headlessOptions \<Rightarrow> ('m, 'g) headlessOptions" where
  "compiled_rule L v (DefaultOptions opts) = DefaultOptions (compiled L v opts)"
| "compiled_rule L v (LogicalOptions md rs ivt) = LogicalOptions md (map (compiled_rule L v) rs) ivt"
| "compiled_rule L v (UnknownType t) = UnknownType t"

primrec writable_rule :: "('m, 'g) headlessOptions \<Rightarrow> bool" where
  "writable_rule (DefaultOptions opts) \<longleftrightarrow> writable opts"
| "writable_rule (LogicalOptions md rs ivt) \<longleftrightarrow> short rs \<and> list_all id (map writable_rule rs)"
| "writable_rule (UnknownType t) \<longleftrightarrow> True"

text \<open>How deep logical rules are nested.\<close>

primrec nesting :: "('m, 'g) headlessOptions \<Rightarrow> nat" where
  "nesting (DefaultOptions opts) = 0"
| "nesting (LogicalOptions md rs ivt) = (if rs = [] then 0 else Suc (foldr max (map nesting rs) 0))"
| "nesting (UnknownType t) = 0"

lemma obind_simps [simp]:
  "obind (Some (Inr (a, rest))) f = f a rest"
  "obind (Some (Inl e)) f = Some (Inl e)"
  "obind None f = None"
  by (simp_all add: obind_def)

lemma foldr_max_less: "foldr max ns 0 < k \<longleftrightarrow> 0 < k \<and> (\<forall>n \<in> set ns. n < k)" for k :: nat
  by (induction ns) auto

text \<open>What the reader of rules gives for written bytes: the compiled rule, or, for a rule nested too
  deep, an error.\<close>

definition reads_back :: "(bytes \<Rightarrow> ('b \<times> bytes) result option) \<Rightarrow> bytes \<Rightarrow> 'b \<Rightarrow> bool \<Rightarrow> bool" where
  "reads_back rd b x good \<longleftrightarrow>
     (\<forall>rest. if good then rd (b @ rest) = Some (Inr (x, rest)) else \<exists>e. rd (b @ rest) = Some (Inl e))"

lemma write_rules_Cons:
  "write_rules (r # rs) = Some (Inr bs) \<longleftrightarrow>
   (\<exists>b b'. r = Some (Inr b) \<and> write_rules rs = Some (Inr b') \<and> bs = b @ b')"
proof (cases r)
  case (Some x)
  then show ?thesis by (cases x) auto
qed simp

lemma read_rules_back:
  assumes "write_rules (map w rs) = Some (Inr bs)"
    and "\<And>x b. x \<in> set rs \<Longrightarrow> w x = Some (Inr b) \<Longrightarrow> reads_back rd b (c x) (good x)"
  shows "reads_back (read_rules name rd i (length rs)) bs (map c rs) (list_all good rs)"
  using assms
proof (induction rs arbitrary: bs i)
  case (Cons x rs)
  then obtain b b' where b: "w x = Some (Inr b)" "write_rules (map w rs) = Some (Inr b')" "bs = b @ b'"
    using write_rules_Cons[of "w x" "map w rs" bs] by auto
  have rd: "reads_back rd b (c x) (good x)" using Cons.prems(2) b(1) by simp
  have IH: "reads_back (read_rules name rd (Suc i) (length rs)) b' (map c rs) (list_all good rs)"
    using Cons.IH[OF b(2)] Cons.prems(2) by simp
  show ?case unfolding reads_back_def
  proof
    fix rest
    show "if list_all good (x # rs) then read_rules name rd i (length (x # rs)) (bs @ rest) = Some (Inr (map c (x # rs), rest))
      else \<exists>e. read_rules name rd i (length (x # rs)) (bs @ rest) = Some (Inl e)"
    proof (cases "good x")
      case True
      then have step: "rd (b @ b' @ rest) = Some (Inr (c x, b' @ rest))" using rd by (auto simp: reads_back_def)
      show ?thesis
      proof (cases "list_all good rs")
        case good: True
        then have "read_rules name rd (Suc i) (length rs) (b' @ rest) = Some (Inr (map c rs, rest))"
          using IH by (simp add: reads_back_def)
        then show ?thesis using step True good b(3) by simp
      next
        case False
        then obtain e where "read_rules name rd (Suc i) (length rs) (b' @ rest) = Some (Inl e)"
          using IH by (auto simp: reads_back_def)
        then show ?thesis using step True False b(3) by simp
      qed
    next
      case False
      then obtain e where "rd (b @ b' @ rest) = Some (Inl e)" using rd by (auto simp: reads_back_def)
      then show ?thesis using False b(3) by simp
    qed
  qed
qed (simp add: reads_back_def)

lemma rule_reads_back:
  assumes laws: "srs_laws L S"
  shows "writeRule L S v r = Some (Inr b) \<Longrightarrow> writable_rule r \<Longrightarrow>
    reads_back (readRule allowed S fmt itoa False) b (compiled_rule L v r) (nesting r < allowed)"
proof (induction r arbitrary: b allowed)
  case (DefaultOptions opts)
  then obtain payload where "b = 0 # payload"
    "\<forall>rest. readDefaultRule S fmt False (payload @ rest) = Some (Inr (compiled L v opts, rest))"
    using default_round_trip[OF laws, of opts v b fmt] by auto
  then show ?case by (cases allowed) (auto simp: reads_back_def read_u8_def)
next
  case (LogicalOptions md rs ivt)
  then obtain bs where md: "md = ''and'' \<or> md = ''or''" and bs: "write_rules (map (writeRule L S v) rs) = Some (Inr bs)"
    and b: "b = [1, if md = ''and'' then 0 else 1] @ WriteUvarint S (of_nat (length rs)) @ bs @ [bool_byte ivt]"
    by (auto simp: writeLogicalRule_def split: if_splits)
  show ?case
  proof (cases allowed)
    case 0
    then show ?thesis by (simp add: reads_back_def)
  next
    case (Suc a)
    have wr: "short rs" "\<And>x. x \<in> set rs \<Longrightarrow> writable_rule x" using LogicalOptions.prems(2) by (auto simp: list_all_iff)
    let ?name = "\<lambda>i e. ErrCause e (''read logical rule ['' @ itoa i @ '']'')"
    have bck: "reads_back (read_rules ?name (readRule a S fmt itoa False) 0 (length rs)) bs (map (compiled_rule L v) rs)
        (list_all (\<lambda>x. nesting x < a) rs)"
      using LogicalOptions.IH wr(2) by (intro read_rules_back[OF bs]) blast
    have good: "nesting (LogicalOptions md rs ivt) < Suc a \<longleftrightarrow> list_all (\<lambda>x. nesting x < a) rs"
      by (cases rs) (auto simp: foldr_max_less list_all_iff)
    have step: "readRule (Suc a) S fmt itoa False (b @ rest) =
        obind (read_rules ?name (readRule a S fmt itoa False) 0 (length rs) (bs @ [bool_byte ivt] @ rest))
          (\<lambda>rs bs4. obind (Some (read_bool bs4)) (\<lambda>ivt rest. Some (Inr (LogicalOptions md rs ivt, rest))))" for rest
      using md by (auto simp: b read_u8_def readLogicalRule_def read_uvarint_of[OF laws] unat_of_length[OF wr(1)])
    have "if list_all (\<lambda>x. nesting x < a) rs
      then readRule (Suc a) S fmt itoa False (b @ rest) = Some (Inr (LogicalOptions md (map (compiled_rule L v) rs) ivt, rest))
      else \<exists>e. readRule (Suc a) S fmt itoa False (b @ rest) = Some (Inl e)" for rest
    proof (cases "list_all (\<lambda>x. nesting x < a) rs")
      case True
      then have "read_rules ?name (readRule a S fmt itoa False) 0 (length rs) (bs @ [bool_byte ivt] @ rest) =
          Some (Inr (map (compiled_rule L v) rs, [bool_byte ivt] @ rest))"
        using bck by (simp only: reads_back_def if_True)
      then show ?thesis using True unfolding step by (simp add: read_bool_def read_u8_def bool_byte_def)
    next
      case False
      then obtain e where "read_rules ?name (readRule a S fmt itoa False) 0 (length rs) (bs @ [bool_byte ivt] @ rest) = Some (Inl e)"
        using bck by (simp only: reads_back_def if_False) blast
      then show ?thesis using False unfolding step by simp
    qed
    then show ?thesis unfolding reads_back_def Suc good compiled_rule.simps by blast
  qed
next
  case (UnknownType t)
  then show ?case by simp
qed

lemma file_reads_back:
  assumes laws: "srs_laws L S" and w: "srs_Write L S rs v = Some (Inr file)"
    and "short rs" "list_all writable_rule rs" "v \<le> RuleSetVersionCurrent"
  shows "if list_all (\<lambda>r. nesting r \<le> maxLogicalRuleDepth) rs
    then srs_Read S fmt itoa False file = Some (Inr (v, map (compiled_rule L v) rs))
    else \<exists>e. srs_Read S fmt itoa False file = Some (Inl e)"
proof -
  obtain bs where bs: "write_rules (map (writeRule L S v) rs) = Some (Inr bs)"
    and fl: "file = MagicBytes @ [v] @ zlib_Compress S (WriteUvarint S (of_nat (length rs)) @ bs)"
    using w by (auto simp: srs_Write_def)
  have z: "zlib_Decompress S (zlib_Compress S b) = Inr b" for b using laws by (simp add: srs_laws_def zlib_law_def)
  have magic: "length MagicBytes = 3" by (simp add: MagicBytes_def)
  let ?name = "\<lambda>i e. ErrCause e (''read rule['' @ itoa i @ '']'')"
  have "reads_back (read_rules ?name (readRule (Suc maxLogicalRuleDepth) S fmt itoa False) 0 (length rs)) bs
      (map (compiled_rule L v) rs) (list_all (\<lambda>r. nesting r < Suc maxLogicalRuleDepth) rs)"
    using rule_reads_back[OF laws] assms(4) by (intro read_rules_back[OF bs]) (auto simp: list_all_iff)
  from this[unfolded reads_back_def, rule_format, of "[]"]
  have rd: "if list_all (\<lambda>r. nesting r < Suc maxLogicalRuleDepth) rs
    then read_rules ?name (readRule (Suc maxLogicalRuleDepth) S fmt itoa False) 0 (length rs) bs =
      Some (Inr (map (compiled_rule L v) rs, []))
    else \<exists>e. read_rules ?name (readRule (Suc maxLogicalRuleDepth) S fmt itoa False) 0 (length rs) bs = Some (Inl e)"
    by (simp only: append_Nil2)
  have nv: "\<not> RuleSetVersionCurrent < v" using assms(5) by (simp only: linorder_not_less)
  have step: "srs_Read S fmt itoa False file =
      obind (read_rules ?name (readRule (Suc maxLogicalRuleDepth) S fmt itoa False) 0 (length rs) bs) (\<lambda>rs rest. Some (Inr (v, rs)))"
    unfolding srs_Read_def fl
    by (simp add: nv magic read_u8_def z read_uvarint_of[OF laws] unat_of_length[OF assms(3)] not_less del: readRule.simps)
  show ?thesis
    using rd unfolding step less_Suc_eq_le by (auto split: if_splits)
qed

end
