(* ===== verification/Srs_Theorems.thy ===== *)
theory Srs_Theorems
  imports Srs_Round_Trip
begin

text \<open>
  The properties of the binary rule sets. A library with the laws of \<open>srs_laws\<close> is made of the
  integers of the standard library, length-prefixed slices and a compressor that stores.
\<close>

section \<open>Variable-length integers\<close>

lemma unat_low_byte: "unat y < 256 \<Longrightarrow> unat (ucast y :: u8) = unat y" for y :: u64
  by (simp only: unsigned_ucast_eq) (simp add: take_bit_nat_eq_self)

lemma put_uvarint_small:
  assumes "y < 0x80"
  shows "put_uvarint y = [ucast y]" "(ucast y :: u8) < 0x80" "ucast (ucast y :: u8) = y" "unat (ucast y :: u8) = unat y"
proof -
  have lt: "unat y < 128" using assms by (simp add: word_less_nat_alt)
  then show un: "unat (ucast y :: u8) = unat y" by (simp add: unat_low_byte)
  have "\<not> 0x80 \<le> y" using assms by (simp only: linorder_not_le)
  then show "put_uvarint y = [ucast y]" by (subst put_uvarint.simps) simp
  show "(ucast y :: u8) < 0x80" using lt by (simp add: word_less_nat_alt un)
  have "unat (ucast (ucast y :: u8) :: u64) = unat y" using un lt
    by (simp only: unsigned_ucast_eq[of "ucast y :: u8"]) (simp add: take_bit_nat_eq_self)
  then show "ucast (ucast y :: u8) = y" by (simp add: word_unat_eq_iff)
qed

lemma byte_0x80: "(0x80 :: u8) = push_bit 7 1" by simp

lemma byte_0x7f: "(0x7f :: u8) = mask 7" by (simp add: mask_eq_decr_exp)

lemma set_bit_above:
  "(w OR push_bit k 1) AND mask k = take_bit k w" "k < LENGTH('a) \<Longrightarrow> (w OR push_bit k 1) AND push_bit k 1 = push_bit k 1"
  for w :: "'a::len word"
  by (rule bit_word_eqI, auto simp: bit_simps)+

lemma uvarint_byte_high: "\<not> (ucast y OR 0x80 :: u8) < 0x80" for y :: u64
proof -
  have "(ucast y OR 0x80 :: u8) AND 0x80 = 0x80"
    unfolding byte_0x80 by (rule set_bit_above) simp
  then have "(0x80 :: u8) \<le> ucast y OR 0x80" using word_and_le2[of "ucast y OR 0x80 :: u8" "0x80"] by simp
  then show ?thesis by (simp only: linorder_not_less)
qed

lemma uvarint_byte_low: "(ucast y OR 0x80 :: u8) AND 0x7f = take_bit 7 (ucast y)" for y :: u64
  unfolding byte_0x80 byte_0x7f by (rule set_bit_above)

lemma uvarint_join:
  "(x OR push_bit k (ucast (take_bit 7 (ucast y :: u8)))) OR push_bit (7 + k) (drop_bit 7 y) = x OR push_bit k y" for x y :: u64
proof (rule bit_word_eqI)
  fix n
  have "k \<le> n \<Longrightarrow> \<not> n - k < 7 \<Longrightarrow> 7 + (n - (7 + k)) = n - k" by simp
  then show "bit ((x OR push_bit k (ucast (take_bit 7 (ucast y :: u8)))) OR push_bit (7 + k) (drop_bit 7 y)) n
      \<longleftrightarrow> bit (x OR push_bit k y) n"
    by (cases "n - k < 7") (auto simp: bit_simps)
qed

lemma put_uvarint_steps:
  assumes "0x80 \<le> y"
  shows "put_uvarint y = (ucast y OR 0x80) # put_uvarint (drop_bit 7 y)"
  using assms by (subst put_uvarint.simps) simp

lemma read_put_uvarint:
  "unat y < 2 ^ (64 - 7 * i) \<Longrightarrow> i \<le> 9 \<Longrightarrow>
   read_uvarint_loop i x (put_uvarint y @ rest) = Inr (x OR push_bit (7 * i) y, rest)"
proof (induction y arbitrary: i x rule: put_uvarint.induct)
  case (1 y)
  show ?case
  proof (cases "0x80 \<le> y")
    case True
    then have big: "128 \<le> unat y" by (simp add: word_le_nat_alt)
    have "i \<noteq> 9" using big 1(2) by auto
    then have i: "i \<le> 8" using 1(3) by simp
    have div: "unat (drop_bit 7 y) = unat y div 128"
      by (simp only: unat_drop_bit_eq) (simp add: drop_bit_eq_div)
    have "64 - 7 * i = Suc (Suc (Suc (Suc (Suc (Suc (Suc (64 - 7 * Suc i)))))))" using i by simp
    then have "2 ^ (64 - 7 * i) = (128::nat) * 2 ^ (64 - 7 * Suc i)" by simp
    then have "unat (drop_bit 7 y) < 2 ^ (64 - 7 * Suc i)"
      using 1(2) unfolding div by (metis less_mult_imp_div_less mult.commute)
    from 1(1)[OF True this] i
    show ?thesis by (simp add: put_uvarint_steps[OF True] uvarint_byte_high uvarint_byte_low uvarint_join)
  next
    case False
    then have lt: "y < 0x80" by (simp only: linorder_not_le)
    note small = put_uvarint_small[OF lt]
    have "\<not> (i = 9 \<and> (1 :: u8) < ucast y)" using 1(2) small(4) by (auto simp: word_less_nat_alt)
    then show ?thesis using 1(3) by (simp add: small)
  qed
qed

lemma ReadUvarint_put: "ReadUvarint (put_uvarint n @ rest) = Inr (n, rest)"
  using read_put_uvarint[of n 0 0 rest] unsigned_less[of n, where ?'a = nat] by (simp add: ReadUvarint_def)

section \<open>A library with the laws\<close>

definition store_slice :: "bytes \<Rightarrow> bytes result" where
  "store_slice bs = (if unat (of_nat (length bs) :: u64) = length bs then Inr (put_uvarint (of_nat (length bs)) @ bs) else Inl (ErrLib ''too long''))"

definition load_slice :: "bytes \<Rightarrow> (bytes \<times> bytes) result" where
  "load_slice bs = rbind (ReadUvarint bs) (\<lambda>(n, rest). read_full (unat n) rest)"

definition load_u16 :: "bytes \<Rightarrow> (u16 \<times> bytes) result" where
  "load_u16 bs = rbind (read_full 2 bs) (\<lambda>(b, rest). Inr (of_nat (of_be b), rest))"

definition store_srs :: "(bytes, bytes) srs_lib" where
  "store_srs =
     \<lparr>WriteUvarint = put_uvarint, ReadSlice_u8 = load_slice,
      ReadSlice_u16 = (\<lambda>bs. rbind (ReadUvarint bs) (\<lambda>(n, rest). read_times load_u16 n rest)),
      Matcher_Write = store_slice, ReadMatcher = load_slice, Matcher_Dump = (\<lambda>m. ([bytes_string m], [])),
      AdGuardMatcher_Write = store_slice, ReadAdGuardMatcher = load_slice, AdGuardMatcher_Dump = (\<lambda>g. [bytes_string g]),
      IPSet_Prefixes = (\<lambda>_. []),
      AddrFromIP = (\<lambda>bs. if length bs = 4 then Addr4 (of_nat (of_be bs)) else Addr6 (of_nat (of_be bs)) []),
      zlib_Compress = id, zlib_Decompress = Inr\<rparr>"

fun entry_range :: "ip_entry \<Rightarrow> addr \<times> addr" where
  "entry_range (EntryAddr a) = (a, a)"
| "entry_range (EntryPrefix p) = (prefix_Addr p, prefix_Addr p)"

definition store_ranges :: "ip_entry list \<Rightarrow> ip_ranges result" where
  "store_ranges es =
     (let rs = filter (\<lambda>(a, b). plain_addr a \<and> plain_addr b) (map entry_range es)
      in if unat (of_nat (length rs) :: u64) = length rs then Inr rs else Inl (ErrLib ''too long''))"

definition store_rules :: "(bytes, bytes) rule_lib" where
  "store_rules =
     \<lparr>NewMatcher = (\<lambda>ds ss _. string_bytes (concat (ds @ ss))), Matcher_Match = (\<lambda>m s. string_bytes s = m),
      NewAdGuardMatcher = (\<lambda>ls. string_bytes (concat ls)), AdGuardMatcher_Match = (\<lambda>m s. string_bytes s = m),
      regexp_Compile = (\<lambda>s. Inr (\<lambda>t. s = t)), netip_ParsePrefix = (\<lambda>_. Inl (ErrLib ''no slash'')),
      netip_ParseAddr = (\<lambda>s. if s = ''10.0.0.1'' then Inr (Addr4 0x0a000001) else Inl (ErrLib ''not an address'')),
      IPSetBuilder_IPSet = store_ranges, IPSet_Contains = (\<lambda>rs a. list_ex (\<lambda>(x, y). a = x \<or> a = y) rs),
      NormalizeWIFIBSSID = id, format_int = (\<lambda>_. ''i'')\<rparr>"

lemma load_slice_of: "short bs \<Longrightarrow> load_slice (put_uvarint (of_nat (length bs)) @ bs @ rest) = Inr (bs, rest)"
  by (simp add: load_slice_def ReadUvarint_put unat_of_length)

lemma load_u16_of: "load_u16 (be_bytes 2 w @ rest) = Inr (w, rest)"
proof -
  have "(of_nat (of_be (be_bytes 2 w)) :: u16) = w" by (rule be_bytes_round_trip) simp
  then show ?thesis by (simp add: load_u16_def del: be_bytes.simps)
qed

lemma short_of_unat: "unat (of_nat (length xs) :: u64) = length xs \<Longrightarrow> short xs"
  using unsigned_less[of "of_nat (length xs) :: u64", where ?'a = nat] by (simp add: short_def)

lemma store_laws: "srs_laws store_rules store_srs"
  unfolding srs_laws_def
proof (intro conjI)
  show "uvarint_law store_srs" by (simp add: uvarint_law_def store_srs_def ReadUvarint_put)
  have "read_times load_u16 (of_nat (length ws)) (concat (map (be_bytes 2) ws) @ rest) = Inr (ws, rest)" if "short ws" for ws rest
    using load_u16_of that by (rule read_times_concat)
  then show "slice_laws store_srs" by (simp add: slice_laws_def store_srs_def ReadUvarint_put load_slice_of)
  show "matcher_laws store_srs"
    by (auto simp: matcher_laws_def store_srs_def store_slice_def load_slice_of short_of_unat split: if_splits)
  have "(of_nat (of_be (be_bytes 4 w)) :: u32) = w" "(of_nat (of_be (be_bytes 16 w')) :: 128 word) = w'" for w w'
    by (rule be_bytes_round_trip, simp)+
  then show "address_laws store_rules store_srs"
    by (auto simp: address_laws_def store_srs_def store_rules_def store_ranges_def Let_def short_of_unat
        simp del: be_bytes.simps split: if_splits)
  show "zlib_law store_srs" by (simp add: zlib_law_def store_srs_def)
qed

section \<open>Reading what was written\<close>

definition example_rules :: "(bytes, bytes) headlessOptions list" where
  "example_rules =
     [DefaultOptions (noHeadlessOptions\<lparr>dh_Domain := [''a.com''], dh_IPCIDR := [''10.0.0.1''], dh_Port := [80, 443]\<rparr>),
      LogicalOptions ''or''
        [DefaultOptions (noHeadlessOptions\<lparr>dh_Network := [''udp'']\<rparr>),
         DefaultOptions (noHeadlessOptions\<lparr>dh_AdGuardDomain := [''b.com''], dh_Invert := True\<rparr>)] True]"

lemma example_writable: "writable_rule r" if "r \<in> set example_rules \<or> r = DefaultOptions (noHeadlessOptions\<lparr>dh_Network := [''udp'']\<rparr>)"
  using that
  by (auto simp: example_rules_def writable_def noHeadlessOptions_def short_def short_strings_def writable_prefixes_def)

lemma example_written: "\<exists>fl. srs_Write store_rules store_srs example_rules 5 = Some (Inr fl)"
proof -
  have "case srs_Write store_rules store_srs example_rules 5 of Some (Inr fl) \<Rightarrow> True | _ \<Rightarrow> False" by code_simp
  then show ?thesis by (auto split: option.splits sum.splits)
qed

text \<open>C20. A rule set that \<open>srs.Write\<close> has written is read back by \<open>srs.Read\<close> with its version and with
  every rule in compiled form, when no rule is nested more than a hundred deep: lists of strings,
  ports and prefixes are the same, and domains, AdGuard lines and address lists are the matchers and
  IP sets made of them. The laws of the libraries are: an integer, a slice, a matcher and a
  compressed stream are read back as written.\<close>

theorem srs_round_trip:
  assumes "srs_laws L S" "srs_Write L S rs v = Some (Inr file)" "v \<le> RuleSetVersionCurrent"
    and "short rs" "list_all writable_rule rs" "list_all (\<lambda>r. nesting r \<le> maxLogicalRuleDepth) rs"
  shows "srs_Read S fmt itoa False file = Some (Inr (v, map (compiled_rule L v) rs))"
  using file_reads_back[OF assms(1,2,4,5,3), of fmt itoa] assms(6) by simp

theorem srs_round_trip_witness:
  "\<exists>file. srs_Write store_rules store_srs example_rules 5 = Some (Inr file) \<and>
     srs_Read store_srs (\<lambda>_. []) (\<lambda>_. []) False file = Some (Inr (5, map (compiled_rule store_rules 5) example_rules))"
proof -
  obtain fl where w: "srs_Write store_rules store_srs example_rules 5 = Some (Inr fl)" using example_written by blast
  have wr: "short example_rules" "list_all writable_rule example_rules"
    by (simp add: example_rules_def short_def) (auto simp only: list_all_iff intro: example_writable)
  have nest: "list_all (\<lambda>r. nesting r \<le> maxLogicalRuleDepth) example_rules" by code_simp
  have v: "(5 :: u8) \<le> RuleSetVersionCurrent" by (simp add: RuleSetVersionCurrent_def)
  show ?thesis using srs_round_trip[OF store_laws w v wr nest] w by blast
qed






end
