(* ===== verification/Compiled_Rules.thy ===== *)
theory Compiled_Rules
  imports Srs_Theorems
begin

text \<open>
  Rules built from a rule set: every rule that the constructors give is well formed, and the rules
  of a binary rule set match as the rules of its source do.
\<close>

section \<open>Descriptions do not matter\<close>

fun anon :: "rule_item \<Rightarrow> rule_item" where
  "anon (DomainItem mt d) = DomainItem mt []"
| "anon (IPCIDRItem st src d) = IPCIDRItem st src []"
| "anon it = it"

lemma item_Match_anon [simp]: "item_Match E (anon it) m = item_Match E it m"
  by (cases it) auto

fun anon_ref :: "any_item \<Rightarrow> any_item" where
  "anon_ref (ItemRef it) = ItemRef (anon it)"
| "anon_ref RuleSetRef = RuleSetRef"

fun anon_rule :: "'a abstractDefaultRule \<Rightarrow> 'a abstractDefaultRule" where
  "anon_rule (AbstractDefaultRule its srcA srcP dstA dstC dstP allI rsi ivt act) =
     AbstractDefaultRule (map anon its) (map anon srcA) (map anon srcP) (map anon dstA) (map anon dstC) (map anon dstP)
       (map anon_ref allI) rsi ivt act"

lemma evaluateGroups_anon: "evaluateGroups E (anon_rule r) m = evaluateGroups E r m"
  by (cases r) (simp add: evaluateGroups_def matchAnyItem_def list_ex_iff destinationIPCIDRMatchesSource_def
      destinationIPCIDRMatchesDestination_def)

lemma default_Match_anon: "default_Match (anon_rule r) = default_Match r"
proof
  fix E
  have "default_body E (anon_rule r) outer = default_body E r outer" for outer
    using evaluateGroups_anon[of E r] by (cases r) (auto simp: default_body_def matchInner_def list_all_iff fun_eq_iff)
  then show "default_Match (anon_rule r) E = default_Match r E" by (cases r) auto
qed

lemma default_Match_eqI: "anon_rule r = anon_rule r' \<Longrightarrow> default_Match r = default_Match r'"
  by (metis default_Match_anon)

lemma anon_add_item: "anon_rule (add_item sl it r) = add_item sl (anon it) (anon_rule r)"
  by (cases r) auto

text \<open>A step that does not fail, and the step of the compiled rule in its place.\<close>

fun same_step :: "item_step \<Rightarrow> item_step \<Rightarrow> bool" where
  "same_step None s = (s = None)"
| "same_step (Some (sl, Inl e)) s = True"
| "same_step (Some (sl, Inr it)) s = (\<exists>it'. s = Some (sl, Inr it') \<and> anon it' = anon it)"

lemma same_step_refl [simp]: "same_step s s"
  by (cases "(s, s)" rule: same_step.cases) auto

lemma run_same_steps:
  assumes "list_all2 same_step steps steps'"
  shows "run_steps steps r = Inr q \<Longrightarrow> anon_rule r = anon_rule r' \<Longrightarrow>
    \<exists>q'. run_steps steps' r' = Inr q' \<and> anon_rule q' = anon_rule q"
  using assms
proof (induction steps steps' arbitrary: r r' rule: list_all2_induct)
  case (Cons s steps s' steps')
  show ?case
  proof (cases "(s, s')" rule: same_step.cases)
    case (3 sl it s2)
    then obtain it' where s': "s' = Some (sl, Inr it')" "anon it' = anon it" using Cons(1) by auto
    have "anon_rule (add_item sl it r) = anon_rule (add_item sl it' r')" using s' Cons.prems by (simp add: anon_add_item)
    then show ?thesis using Cons.IH[of "add_item sl it r" "add_item sl it' r'"] Cons.prems(1) 3 s' by auto
  qed (use Cons in auto)
qed auto

section \<open>The same items from compiled options\<close>

text \<open>Options of a source file: no compiled matcher, and no list or map of interface addresses that is
  present and empty.\<close>

definition source_options :: "('m, 'g) defaultHeadlessOptions \<Rightarrow> bool" where
  "source_options opts \<longleftrightarrow> dh_DomainMatcher opts = None \<and> dh_SourceIPSet opts = None \<and> dh_IPSet opts = None \<and>
     dh_AdGuardDomainMatcher opts = None \<and> dh_NetworkInterfaceAddress opts \<noteq> Some [] \<and> \<not> dh_EmptyList opts"

lemma compiled_simps [simp]:
  "dh_QueryType (compiled L v opts) = dh_QueryType opts" "dh_Network (compiled L v opts) = dh_Network opts"
  "dh_Domain (compiled L v opts) = []" "dh_DomainSuffix (compiled L v opts) = []"
  "dh_DomainKeyword (compiled L v opts) = dh_DomainKeyword opts" "dh_DomainRegex (compiled L v opts) = dh_DomainRegex opts"
  "dh_SourceIPCIDR (compiled L v opts) = []" "dh_IPCIDR (compiled L v opts) = []"
  "dh_SourcePort (compiled L v opts) = dh_SourcePort opts" "dh_SourcePortRange (compiled L v opts) = dh_SourcePortRange opts"
  "dh_Port (compiled L v opts) = dh_Port opts" "dh_PortRange (compiled L v opts) = dh_PortRange opts"
  "dh_ProcessName (compiled L v opts) = dh_ProcessName opts" "dh_ProcessPath (compiled L v opts) = dh_ProcessPath opts"
  "dh_ProcessPathRegex (compiled L v opts) = dh_ProcessPathRegex opts" "dh_PackageName (compiled L v opts) = dh_PackageName opts"
  "dh_PackageNameRegex (compiled L v opts) = dh_PackageNameRegex opts" "dh_NetworkType (compiled L v opts) = dh_NetworkType opts"
  "dh_NetworkIsExpensive (compiled L v opts) = dh_NetworkIsExpensive opts"
  "dh_NetworkIsConstrained (compiled L v opts) = dh_NetworkIsConstrained opts"
  "dh_WIFISSID (compiled L v opts) = dh_WIFISSID opts" "dh_WIFIBSSID (compiled L v opts) = dh_WIFIBSSID opts"
  "dh_NetworkInterfaceAddress (compiled L v opts) =
     (if dh_NetworkInterfaceAddress opts = Some [] then None else dh_NetworkInterfaceAddress opts)"
  "dh_DefaultInterfaceAddress (compiled L v opts) = dh_DefaultInterfaceAddress opts"
  "dh_Invert (compiled L v opts) = dh_Invert opts" "\<not> dh_EmptyList (compiled L v opts)" "dh_AdGuardDomain (compiled L v opts) = []"
  "dh_DomainMatcher (compiled L v opts) = (if dh_Domain opts \<noteq> [] \<or> dh_DomainSuffix opts \<noteq> []
     then Some (NewMatcher L (dh_Domain opts) (dh_DomainSuffix opts) (v = 1)) else None)"
  "dh_SourceIPSet (compiled L v opts) =
     (if dh_SourceIPCIDR opts \<noteq> [] then Some (projr (cidr_ranges L (dh_SourceIPCIDR opts))) else None)"
  "dh_IPSet (compiled L v opts) = (if dh_IPCIDR opts \<noteq> [] then Some (projr (cidr_ranges L (dh_IPCIDR opts))) else None)"
  "dh_AdGuardDomainMatcher (compiled L v opts) =
     (if dh_AdGuardDomain opts \<noteq> [] then Some (NewAdGuardMatcher L (dh_AdGuardDomain opts)) else None)"
  by (simp_all add: compiled_def)

lemma same_domain_step:
  "same_step (Some (sl, domain_item L ds ss)) (Some (sl, Inr (NewRawDomainItem (Matcher_Match L (NewMatcher L ds ss False)))))"
  by (simp add: domain_item_def NewDomainItem_def NewRawDomainItem_def)

lemma same_cidr_step:
  "same_step (Some (sl, with_cause msg (ip_cidr_item L src cs)))
     (Some (sl, Inr (NewRawIPCIDRItem src (IPSet_Contains L (projr (cidr_ranges L cs))))))"
proof (cases "cidr_ranges L cs")
  case (Inr rs)
  then show ?thesis
    by (auto simp: cidr_ranges_def ip_cidr_item_def NewIPCIDRItem_def NewRawIPCIDRItem_def)
next
  case (Inl e)
  then have "\<exists>e. ip_cidr_item L src cs = Inl e"
    by (auto simp: cidr_ranges_def ip_cidr_item_def NewIPCIDRItem_def rbind_eq_Inl)
  then show ?thesis by auto
qed

lemma same_headless_steps:
  assumes "source_options opts" "v \<noteq> 1"
  shows "list_all2 same_step (headless_steps E L nm opts) (headless_steps E L nm (compiled L v opts))"
proof -
  note src = assms(1)[unfolded source_options_def]
  show ?thesis
    unfolding headless_steps_def list_all2_Cons list_all2_Nil simp_thms
    apply (intro conjI)
    apply (simp_all only: compiled_simps same_step_refl)
    using src assms(2)
    apply (auto simp: same_domain_step same_cidr_step item_when_def NewAdGuardDomainItem_def split: option.splits)
    done
qed


text \<open>Options are valid when some field other than the inversion is set.\<close>

definition no_conditions :: "('m, 'g) defaultHeadlessOptions \<Rightarrow> bool" where
  "no_conditions r \<longleftrightarrow>
     dh_QueryType r = [] \<and> dh_Network r = [] \<and> dh_Domain r = [] \<and> dh_DomainSuffix r = [] \<and> dh_DomainKeyword r = [] \<and>
     dh_DomainRegex r = [] \<and> dh_SourceIPCIDR r = [] \<and> dh_IPCIDR r = [] \<and> dh_SourcePort r = [] \<and> dh_SourcePortRange r = [] \<and>
     dh_Port r = [] \<and> dh_PortRange r = [] \<and> dh_ProcessName r = [] \<and> dh_ProcessPath r = [] \<and> dh_ProcessPathRegex r = [] \<and>
     dh_PackageName r = [] \<and> dh_PackageNameRegex r = [] \<and> dh_NetworkType r = [] \<and> dh_WIFISSID r = [] \<and> dh_WIFIBSSID r = [] \<and>
     dh_DefaultInterfaceAddress r = [] \<and> dh_AdGuardDomain r = [] \<and> dh_NetworkInterfaceAddress r = None \<and> dh_DomainMatcher r = None \<and> dh_SourceIPSet r = None \<and>
     dh_IPSet r = None \<and> dh_AdGuardDomainMatcher r = None \<and> \<not> dh_NetworkIsExpensive r \<and> \<not> dh_NetworkIsConstrained r \<and> \<not> dh_EmptyList r"

lemma default_IsValid_iff: "default_IsValid r \<longleftrightarrow> \<not> no_conditions r"
  by (cases r) (auto simp: default_IsValid_def no_conditions_def noHeadlessOptions_def)

lemma compiled_valid: "source_options opts \<Longrightarrow> default_IsValid (compiled L v opts) = default_IsValid opts"
  by (auto simp: default_IsValid_iff no_conditions_def source_options_def)

section \<open>The same rules from compiled options\<close>

primrec source_rule :: "('m, 'g) headlessOptions \<Rightarrow> bool" where
  "source_rule (DefaultOptions opts) \<longleftrightarrow> source_options opts"
| "source_rule (LogicalOptions md rs ivt) \<longleftrightarrow> list_all id (map source_rule rs)"
| "source_rule (UnknownType t) \<longleftrightarrow> True"

lemma headless_IsValid_compiled: "source_rule opts \<Longrightarrow> headless_IsValid (compiled_rule L v opts) = headless_IsValid opts"
proof (induction opts)
  case (LogicalOptions md rs ivt)
  then have "map headless_IsValid (map (compiled_rule L v) rs) = map headless_IsValid rs" by (auto simp: list_all_iff)
  then show ?case by (simp only: compiled_rule.simps headless_IsValid.simps length_map)
qed (simp_all add: compiled_valid)

lemma map_result_causes: "map_result_from i (\<lambda>i r. with_cause (name i) r) rs = Inr ys \<longleftrightarrow> rs = map Inr ys"
proof (induction rs arbitrary: i ys)
  case (Cons r rs)
  then show ?case by (cases ys) auto
qed auto

lemma NewHeadlessRule_logical:
  "NewHeadlessRule E L nm (LogicalOptions md rs ivt) = Inr r \<longleftrightarrow>
     headless_IsValid (LogicalOptions md rs ivt) = Some True \<and> (md = ''and'' \<or> md = ''or'') \<and>
     (\<exists>ys. map (NewHeadlessRule E L nm) rs = map Inr ys \<and> r = LogicalHeadlessRule (AbstractLogicalRule ys md ivt None))"
  unfolding NewHeadlessRule.simps NewLogicalHeadlessRule_def map_result_causes
  by (auto simp: map_result_causes simp del: headless_IsValid.simps split: option.splits bool.splits)

lemma map_Inr_related:
  assumes "map f xs = map Inr ys" "\<And>x y. x \<in> set xs \<Longrightarrow> f x = Inr y \<Longrightarrow> \<exists>y'. g x = Inr y' \<and> h y' = h y"
  shows "\<exists>ys'. map g xs = map Inr ys' \<and> map h ys' = map h ys"
  using assms
proof (induction xs arbitrary: ys)
  case (Cons x xs)
  then obtain y ys0 where ys: "ys = y # ys0" "f x = Inr y" "map f xs = map Inr ys0" by (cases ys) auto
  obtain y' where "g x = Inr y'" "h y' = h y" using Cons.prems(2) ys(2) by force
  moreover obtain ys' where "map g xs = map Inr ys'" "map h ys' = map h ys0" using Cons.IH[OF ys(3)] Cons.prems(2) by auto
  ultimately show ?case using ys by (intro exI[of _ "y' # ys'"]) simp
qed simp

lemma compiled_rule_matches:
  fixes r :: "'a headlessRule"
  assumes "v \<noteq> 1"
  shows "NewHeadlessRule E L nm opts = Inr r \<Longrightarrow> source_rule opts \<Longrightarrow>
    \<exists>r' :: 'a headlessRule. NewHeadlessRule E L nm (compiled_rule L v opts) = Inr r' \<and> rule_Match r' = rule_Match r"
proof (induction opts arbitrary: r)
  case (DefaultOptions opts)
  then obtain q where r: "r = DefaultHeadlessRule q" "default_IsValid opts"
    and q: "run_steps (headless_steps E L nm opts) (new_rule (dh_Invert opts) None) = Inr q"
    by (auto simp: NewDefaultHeadlessRule_def split: if_splits)
  have src: "source_options opts" using DefaultOptions.prems(2) by simp
  obtain q' where q': "run_steps (headless_steps E L nm (compiled L v opts)) (new_rule (dh_Invert opts) None) = Inr q'"
    "anon_rule q' = anon_rule q"
    using run_same_steps[OF same_headless_steps[OF src assms] q refl] by blast
  have "NewHeadlessRule E L nm (compiled_rule L v (DefaultOptions opts)) = Inr (DefaultHeadlessRule q')"
    using r(2) q'(1) compiled_valid[OF src, of L v] by (simp add: NewDefaultHeadlessRule_def)
  moreover have "rule_Match (DefaultHeadlessRule q') = rule_Match r"
    using default_Match_eqI[OF q'(2)] unfolding r(1) by simp
  ultimately show ?case by blast
next
  case (LogicalOptions md rs ivt)
  then obtain ys where ys: "map (NewHeadlessRule E L nm) rs = map Inr ys"
    and r: "r = LogicalHeadlessRule (AbstractLogicalRule ys md ivt None)"
    and ok: "headless_IsValid (LogicalOptions md rs ivt) = Some True" "md = ''and'' \<or> md = ''or''"
    unfolding NewHeadlessRule_logical by blast
  have sub: "\<exists>y' :: 'a headlessRule. NewHeadlessRule E L nm (compiled_rule L v x) = Inr y' \<and> rule_Match y' = rule_Match y"
    if "x \<in> set rs" "NewHeadlessRule E L nm x = Inr y" for x and y :: "'a headlessRule"
    using LogicalOptions.IH[OF that] LogicalOptions.prems(2) that(1) by (auto simp: list_all_iff)
  have "\<exists>ys' :: 'a headlessRule list. map (\<lambda>x. NewHeadlessRule E L nm (compiled_rule L v x)) rs = map Inr ys' \<and>
      map rule_Match ys' = map rule_Match ys"
    by (rule map_Inr_related[OF ys]) (rule sub)
  then obtain ys' :: "'a headlessRule list"
    where ys': "map (\<lambda>x. NewHeadlessRule E L nm (compiled_rule L v x)) rs = map Inr ys'" "map rule_Match ys' = map rule_Match ys"
    by blast
  have ok': "headless_IsValid (LogicalOptions md (map (compiled_rule L v) rs) ivt) = Some True"
    using headless_IsValid_compiled[OF LogicalOptions.prems(2), of L v] ok(1) by (simp only: compiled_rule.simps)
  have "NewHeadlessRule E L nm (LogicalOptions md (map (compiled_rule L v) rs) ivt) =
      Inr (LogicalHeadlessRule (AbstractLogicalRule ys' md ivt None))"
    unfolding NewHeadlessRule_logical using ok' ok(2) ys'(1) by (simp add: comp_def)
  then show ?case using ys'(2) unfolding r compiled_rule.simps by (intro exI conjI) (assumption, simp)
qed simp

text \<open>C22. Compiling a rule set changes no match. If a source rule set is written in a version other
  than 1 and read back, every rule that can be built from the source can be built from the binary
  form, and both answer every connection the same way and leave the same metadata. Version 1 stores
  domain suffixes in another form, so it is left out.\<close>

theorem compiled_rules_match_the_same:
  fixes r :: "'a headlessRule"
  assumes "srs_laws L S" "srs_Write L S rs v = Some (Inr file)" "v \<le> RuleSetVersionCurrent" "v \<noteq> 1"
    and "short rs" "list_all writable_rule rs" "list_all (\<lambda>r. nesting r \<le> maxLogicalRuleDepth) rs"
    and "list_all source_rule rs" "i < length rs" "NewHeadlessRule E L nm (rs ! i) = Inr r"
  shows "\<exists>rs' (r' :: 'a headlessRule). srs_Read S fmt itoa False file = Some (Inr (v, rs')) \<and> length rs' = length rs \<and>
    NewHeadlessRule E L nm (rs' ! i) = Inr r' \<and> (\<forall>E' m. rule_Match r' E' m = rule_Match r E' m)"
proof -
  have "source_rule (rs ! i)" using assms(8,9) by (simp add: list_all_length)
  then obtain r' :: "'a headlessRule"
    where "NewHeadlessRule E L nm (compiled_rule L v (rs ! i)) = Inr r'" "rule_Match r' = rule_Match r"
    using compiled_rule_matches[OF assms(4,10)] by blast
  moreover have "srs_Read S fmt itoa False file = Some (Inr (v, map (compiled_rule L v) rs))"
    using file_reads_back[OF assms(1,2,5,6,3), of fmt itoa] assms(7) by simp
  ultimately show ?thesis using assms(9) by (intro exI[of _ "map (compiled_rule L v) rs"] exI[of _ r']) simp
qed

definition example_lookup :: rule_env where
  "example_lookup =
     \<lparr>M_IsIP = (\<lambda>d. False), M_IsIPv6 = (\<lambda>d. False), M_AddrFromIP = (\<lambda>_. NoAddr), N_IsPublicAddr = (\<lambda>_. True),
      F_ToString = (\<lambda>_. []), strings_ToLower = id, strings_EqualFold = (=), filepath_Base = id,
      net_ParseMAC = (\<lambda>_. None), mac_String = (\<lambda>_. []), prefix_String = (\<lambda>_. []), dns_IsDuplicate = (\<lambda>_ _. False),
      dns_CanonicalName = id, rr_String = (\<lambda>_. []), IsAndroid = False, DefaultNetworkInterface = None,
      WIFIState_SSID = [], WIFIState_BSSID = [], Interfaces = [], NetworkInterfaces = [], InterfaceMonitor = None,
      ClashMode_Mode = [], Outbound_PreferredDomain = (\<lambda>_ _. False), Outbound_PreferredAddress = (\<lambda>_ _ _. False),
      Transport_PreferredDomain = (\<lambda>_ _. False)\<rparr>"

lemma example_built:
  "\<exists>r :: unit headlessRule. NewHeadlessRule example_lookup store_rules True (example_rules ! 1) = Inr r"
  by (simp add: example_rules_def default_IsValid_def noHeadlessOptions_def NewLogicalHeadlessRule_def
      NewDefaultHeadlessRule_def headless_steps_def item_when_def)

theorem compiled_rules_match_the_same_witness:
  "\<exists>file rs' (r' :: unit headlessRule). srs_Write store_rules store_srs example_rules 5 = Some (Inr file) \<and>
     srs_Read store_srs (\<lambda>_. []) (\<lambda>_. []) False file = Some (Inr (5, rs')) \<and>
     NewHeadlessRule example_lookup store_rules True (rs' ! 1) = Inr r'"
proof -
  obtain fl where w: "srs_Write store_rules store_srs example_rules 5 = Some (Inr fl)" using example_written by blast
  obtain r :: "unit headlessRule" where r: "NewHeadlessRule example_lookup store_rules True (example_rules ! 1) = Inr r"
    using example_built by blast
  have wr: "short example_rules" "list_all writable_rule example_rules" "1 < length example_rules"
    by (simp add: example_rules_def short_def) (auto simp only: list_all_iff intro: example_writable, simp add: example_rules_def)
  have nest: "list_all (\<lambda>r. nesting r \<le> maxLogicalRuleDepth) example_rules" by code_simp
  have src: "list_all source_rule example_rules" by code_simp
  have v: "(5 :: u8) \<le> RuleSetVersionCurrent" "(5 :: u8) \<noteq> 1" by (simp_all add: RuleSetVersionCurrent_def)
  show ?thesis using compiled_rules_match_the_same[OF store_laws w v wr(1,2) nest src wr(3) r] w by blast
qed

section \<open>Built rules\<close>

text \<open>What the constructors build: a default rule has at least one item, lists each item of its groups and
  no other, and has neither a rule-set item nor an action; a logical rule has at least one rule and
  one of the two modes.\<close>

inductive well_built :: "'a headlessRule \<Rightarrow> bool" where
  default: "built_items r \<Longrightarrow> allItems r \<noteq> [] \<Longrightarrow> well_built (DefaultHeadlessRule r)"
| logical: "rs \<noteq> [] \<Longrightarrow> \<forall>r \<in> set rs. well_built r \<Longrightarrow> md = ''and'' \<or> md = ''or'' \<Longrightarrow>
    well_built (LogicalHeadlessRule (AbstractLogicalRule rs md ivt None))"

inductive_cases well_built_defaultE: "well_built (DefaultHeadlessRule r)"








end
