(* ===== verification/Noise_Messages.thy ===== *)
theory Noise_Messages
  imports Byte_Codec
begin

text \<open>
  The messages of the WireGuard handshake and their form on the wire
  (\<open>submodules/wireguard-go/device/noise-protocol.go\<close>): the constants, the three message types with
  \<open>marshal\<close> and \<open>unmarshal\<close>, and the timestamps of \<open>tai64n/tai64n.go\<close>. A Go array is a list of its length.
\<close>

section \<open>Little-endian integers and copies\<close>

definition le_bytes :: "nat \<Rightarrow> 'a::len word \<Rightarrow> bytes" where
  "le_bytes k w = rev (be_bytes k w)"

definition of_le :: "bytes \<Rightarrow> nat" where
  "of_le bs = of_be (rev bs)"

text \<open>\<open>copy(b[off:], src)\<close>, and one copy after the other, each behind the last.\<close>

definition put_at :: "nat \<Rightarrow> bytes \<Rightarrow> bytes \<Rightarrow> bytes" where
  "put_at off src b = take off b @ take (length b - off) src @ drop (off + length src) b"

fun put_fields :: "nat \<Rightarrow> bytes list \<Rightarrow> bytes \<Rightarrow> bytes" where
  "put_fields off [] b = b"
| "put_fields off (src # srcs) b = put_fields (off + length src) srcs (put_at off src b)"

section \<open>Messages\<close>

definition MessageUnknownType :: u32 where "MessageUnknownType = 0"
definition MessageInitiationType :: u32 where "MessageInitiationType = 1"
definition MessageResponseType :: u32 where "MessageResponseType = 2"
definition MessageCookieReplyType :: u32 where "MessageCookieReplyType = 3"
definition MessageTransportType :: u32 where "MessageTransportType = 4"

definition MessageInitiationSize :: nat where "MessageInitiationSize = 148"
definition MessageResponseSize :: nat where "MessageResponseSize = 92"
definition MessageCookieReplySize :: nat where "MessageCookieReplySize = 64"
definition MessageTransportHeaderSize :: nat where "MessageTransportHeaderSize = 16"
definition MessageTransportSize :: nat where "MessageTransportSize = MessageTransportHeaderSize + 16"

record messageInitiation =
  mi_Type :: u32
  mi_Sender :: u32
  mi_Ephemeral :: bytes
  mi_Static :: bytes
  mi_Timestamp :: bytes
  mi_MAC1 :: bytes
  mi_MAC2 :: bytes

record messageResponse =
  mr_Type :: u32
  mr_Sender :: u32
  mr_Receiver :: u32
  mr_Ephemeral :: bytes
  mr_Empty :: bytes
  mr_MAC1 :: bytes
  mr_MAC2 :: bytes

record messageCookieReply =
  mc_Type :: u32
  mc_Receiver :: u32
  mc_Nonce :: bytes
  mc_Cookie :: bytes

definition errMessageLengthMismatch :: error where
  "errMessageLengthMismatch = ErrNew ''message length mismatch''"

definition Initiation_unmarshal :: "bytes \<Rightarrow> messageInitiation result" where
  "Initiation_unmarshal b =
     (if length b \<noteq> MessageInitiationSize then Inl errMessageLengthMismatch
      else Inr \<lparr>mi_Type = of_nat (of_le (take 4 b)), mi_Sender = of_nat (of_le (take 4 (drop 4 b))),
                mi_Ephemeral = take 32 (drop 8 b), mi_Static = take 48 (drop (8 + 32) b),
                mi_Timestamp = take 28 (drop (8 + 32 + 48) b), mi_MAC1 = take 16 (drop (8 + 32 + 48 + 28) b),
                mi_MAC2 = take 16 (drop (8 + 32 + 48 + 28 + 16) b)\<rparr>)"

definition Initiation_marshal :: "messageInitiation \<Rightarrow> bytes \<Rightarrow> bytes result" where
  "Initiation_marshal msg b =
     (if length b \<noteq> MessageInitiationSize then Inl errMessageLengthMismatch
      else Inr (put_fields 0 [le_bytes 4 (mi_Type msg), le_bytes 4 (mi_Sender msg), mi_Ephemeral msg, mi_Static msg,
                              mi_Timestamp msg, mi_MAC1 msg, mi_MAC2 msg] b))"

definition Response_unmarshal :: "bytes \<Rightarrow> messageResponse result" where
  "Response_unmarshal b =
     (if length b \<noteq> MessageResponseSize then Inl errMessageLengthMismatch
      else Inr \<lparr>mr_Type = of_nat (of_le (take 4 b)), mr_Sender = of_nat (of_le (take 4 (drop 4 b))),
                mr_Receiver = of_nat (of_le (take 4 (drop 8 b))), mr_Ephemeral = take 32 (drop 12 b),
                mr_Empty = take 16 (drop (12 + 32) b), mr_MAC1 = take 16 (drop (12 + 32 + 16) b),
                mr_MAC2 = take 16 (drop (12 + 32 + 16 + 16) b)\<rparr>)"

definition Response_marshal :: "messageResponse \<Rightarrow> bytes \<Rightarrow> bytes result" where
  "Response_marshal msg b =
     (if length b \<noteq> MessageResponseSize then Inl errMessageLengthMismatch
      else Inr (put_fields 0 [le_bytes 4 (mr_Type msg), le_bytes 4 (mr_Sender msg), le_bytes 4 (mr_Receiver msg),
                              mr_Ephemeral msg, mr_Empty msg, mr_MAC1 msg, mr_MAC2 msg] b))"

definition CookieReply_unmarshal :: "bytes \<Rightarrow> messageCookieReply result" where
  "CookieReply_unmarshal b =
     (if length b \<noteq> MessageCookieReplySize then Inl errMessageLengthMismatch
      else Inr \<lparr>mc_Type = of_nat (of_le (take 4 b)), mc_Receiver = of_nat (of_le (take 4 (drop 4 b))),
                mc_Nonce = take 24 (drop 8 b), mc_Cookie = take 32 (drop (8 + 24) b)\<rparr>)"

definition CookieReply_marshal :: "messageCookieReply \<Rightarrow> bytes \<Rightarrow> bytes result" where
  "CookieReply_marshal msg b =
     (if length b \<noteq> MessageCookieReplySize then Inl errMessageLengthMismatch
      else Inr (put_fields 0 [le_bytes 4 (mc_Type msg), le_bytes 4 (mc_Receiver msg), mc_Nonce msg, mc_Cookie msg] b))"

text \<open>The lengths of the array fields.\<close>

definition initiation_ok :: "messageInitiation \<Rightarrow> bool" where
  "initiation_ok msg \<longleftrightarrow> length (mi_Ephemeral msg) = 32 \<and> length (mi_Static msg) = 48 \<and> length (mi_Timestamp msg) = 28 \<and>
     length (mi_MAC1 msg) = 16 \<and> length (mi_MAC2 msg) = 16"

definition response_ok :: "messageResponse \<Rightarrow> bool" where
  "response_ok msg \<longleftrightarrow> length (mr_Ephemeral msg) = 32 \<and> length (mr_Empty msg) = 16 \<and>
     length (mr_MAC1 msg) = 16 \<and> length (mr_MAC2 msg) = 16"

definition cookie_reply_ok :: "messageCookieReply \<Rightarrow> bool" where
  "cookie_reply_ok msg \<longleftrightarrow> length (mc_Nonce msg) = 24 \<and> length (mc_Cookie msg) = 32"

section \<open>Timestamps\<close>

text \<open>\<open>tai64n.stamp\<close> of a time in nanoseconds since 1970: seconds on eight bytes, and the nanoseconds
  with the low 24 bits cleared on four. \<open>After\<close> compares the bytes.\<close>

definition tai64n_base :: u64 where "tai64n_base = 0x400000000000000a"
definition whitenerMask :: u32 where "whitenerMask = 0x1000000 - 1"

definition stamp :: "int \<Rightarrow> bytes" where
  "stamp t =
     (let secs = tai64n_base + of_int (t div 1000000000);
          nano = (of_int (t mod 1000000000) :: u32) AND NOT whitenerMask
      in be_bytes 8 secs @ be_bytes 4 nano)"

fun bytes_Compare :: "bytes \<Rightarrow> bytes \<Rightarrow> int" where
  "bytes_Compare [] [] = 0"
| "bytes_Compare [] (b # bs) = - 1"
| "bytes_Compare (a # as) [] = 1"
| "bytes_Compare (a # as) (b # bs) = (if a < b then - 1 else if a > b then 1 else bytes_Compare as bs)"

definition Timestamp_After :: "bytes \<Rightarrow> bytes \<Rightarrow> bool" where
  "Timestamp_After t1 t2 \<longleftrightarrow> bytes_Compare t1 t2 > 0"

lemma length_stamp [simp]: "length (stamp t) = 12"
  by (simp add: stamp_def Let_def)

lemma bytes_Compare_swap: "bytes_Compare b a = - bytes_Compare a b"
  by (induction a b rule: bytes_Compare.induct) auto

lemma bytes_Compare_eq: "bytes_Compare a b = 0 \<longleftrightarrow> a = b"
  by (induction a b rule: bytes_Compare.induct) auto

lemma bytes_Compare_trans: "bytes_Compare a b > 0 \<Longrightarrow> bytes_Compare b c > 0 \<Longrightarrow> bytes_Compare a c > 0"
proof (induction a b arbitrary: c rule: bytes_Compare.induct)
  case (3 a as)
  then show ?case by (cases c) auto
next
  case (4 a as b bs)
  then show ?case by (cases c) (auto split: if_splits)
qed auto

lemma After_irrefl: "\<not> Timestamp_After t t"
  by (simp add: Timestamp_After_def bytes_Compare_eq[THEN iffD2])

lemma After_trans: "Timestamp_After a b \<Longrightarrow> Timestamp_After b c \<Longrightarrow> Timestamp_After a c"
  unfolding Timestamp_After_def by (rule bytes_Compare_trans)

lemma After_total: "Timestamp_After a b \<or> a = b \<or> Timestamp_After b a"
  using bytes_Compare_swap[of b a] bytes_Compare_eq[of a b] by (auto simp: Timestamp_After_def)

section \<open>Round trips\<close>

lemma length_le_bytes [simp]: "length (le_bytes k w) = k"
  by (simp add: le_bytes_def)

lemma le_bytes_round_trip: "LENGTH('a) \<le> 8 * k \<Longrightarrow> of_nat (of_le (le_bytes k w)) = w" for w :: "'a::len word"
  by (simp add: of_le_def le_bytes_def be_bytes_round_trip)

lemma of_be_inject: "length a = length b \<Longrightarrow> of_be a = of_be b \<Longrightarrow> a = b"
proof (induction a b rule: list_induct2)
  case (Cons x xs y ys)
  let ?n = "(256::nat) ^ length ys"
  have eq: "unat x * ?n + of_be xs = unat y * ?n + of_be ys" using Cons.prems Cons.hyps by simp
  have lt: "of_be xs < ?n" "of_be ys < ?n" using of_be_lt[of xs] of_be_lt[of ys] Cons.hyps by simp_all
  have "unat x = (unat x * ?n + of_be xs) div ?n" "unat y = (unat y * ?n + of_be ys) div ?n" using lt by simp_all
  then have u: "unat x = unat y" using eq by simp
  then have "of_be xs = of_be ys" using eq by simp
  then show ?case using u Cons.IH by (simp add: word_unat_eq_iff)
qed simp

lemma le_bytes_of_le: "length b = k \<Longrightarrow> LENGTH('a) = 8 * k \<Longrightarrow> le_bytes k (of_nat (of_le b) :: 'a::len word) = b"
proof -
  assume k: "length b = k" "LENGTH('a) = 8 * k"
  have lt: "of_be (rev b) < 256 ^ k" using of_be_lt[of "rev b"] k by simp
  have "of_be (be_bytes k (of_nat (of_le b) :: 'a word)) = of_be (rev b)"
    using lt k by (simp add: of_be_bytes of_le_def unat_of_nat power_mult)
  from of_be_inject[OF _ this] show ?thesis using k by (simp add: le_bytes_def)
qed

lemma put_at_inside: "off + length src \<le> length b \<Longrightarrow> put_at off src b = take off b @ src @ drop (off + length src) b"
  by (simp add: put_at_def)

lemma put_fields_eq:
  "off + length (concat srcs) \<le> length b \<Longrightarrow>
   put_fields off srcs b = take off b @ concat srcs @ drop (off + length (concat srcs)) b"
proof (induction srcs arbitrary: off b)
  case (Cons src srcs)
  have at: "put_at off src b = take off b @ src @ drop (off + length src) b" and off: "off \<le> length b" "length src \<le> length b - off"
    using Cons.prems by (simp_all add: put_at_inside)
  have "put_fields (off + length src) srcs (put_at off src b) =
      take (off + length src) (put_at off src b) @ concat srcs @ drop (off + length src + length (concat srcs)) (put_at off src b)"
    using Cons.prems off by (intro Cons.IH) (simp add: at)
  also have "take (off + length src) (put_at off src b) = take off b @ src" using off by (simp add: at)
  also have "drop (off + length src + length (concat srcs)) (put_at off src b) = drop (off + length (concat (src # srcs))) b"
    using off by (simp add: at ac_simps)
  finally show ?case by simp
qed simp

lemma put_all: "length b = length (concat srcs) \<Longrightarrow> put_fields 0 srcs b = concat srcs"
  by (simp add: put_fields_eq)

lemmas size_defs = MessageInitiationSize_def MessageResponseSize_def MessageCookieReplySize_def

fun slices :: "nat \<Rightarrow> nat list \<Rightarrow> bytes \<Rightarrow> bytes list" where
  "slices off [] w = []"
| "slices off (n # ns) w = take n (drop off w) # slices (off + n) ns w"

lemma concat_slices: "off + sum_list ns = length w \<Longrightarrow> concat (slices off ns w) = drop off w"
proof (induction ns arbitrary: off)
  case (Cons n ns)
  then have "concat (slices (off + n) ns w) = drop n (drop off w)" by (simp add: add.commute)
  then show ?case by (simp del: drop_drop)
qed simp

lemma put_slices: "sum_list ns = length w \<Longrightarrow> length b = length w \<Longrightarrow> put_fields 0 (slices 0 ns w) b = w"
  using concat_slices[of 0 ns w] put_all[of b "slices 0 ns w"] by simp

lemma Initiation_round_trip:
  assumes "initiation_ok msg" "length b = MessageInitiationSize"
  shows "\<exists>w. Initiation_marshal msg b = Inr w \<and> length w = MessageInitiationSize \<and> Initiation_unmarshal w = Inr msg"
proof -
  let ?fs = "[le_bytes 4 (mi_Type msg), le_bytes 4 (mi_Sender msg), mi_Ephemeral msg, mi_Static msg, mi_Timestamp msg, mi_MAC1 msg, mi_MAC2 msg]"
  have len: "length b = length (concat ?fs)" using assms by (simp add: initiation_ok_def size_defs)
  then have "Initiation_marshal msg b = Inr (concat ?fs)" using put_all[OF len] assms(2) by (simp add: Initiation_marshal_def)
  moreover have "Initiation_unmarshal (concat ?fs) = Inr msg"
    using assms(1) by (simp add: Initiation_unmarshal_def initiation_ok_def size_defs le_bytes_round_trip)
  ultimately show ?thesis using len assms(2) by simp
qed

lemma Response_round_trip:
  assumes "response_ok msg" "length b = MessageResponseSize"
  shows "\<exists>w. Response_marshal msg b = Inr w \<and> length w = MessageResponseSize \<and> Response_unmarshal w = Inr msg"
proof -
  let ?fs = "[le_bytes 4 (mr_Type msg), le_bytes 4 (mr_Sender msg), le_bytes 4 (mr_Receiver msg), mr_Ephemeral msg, mr_Empty msg, mr_MAC1 msg, mr_MAC2 msg]"
  have len: "length b = length (concat ?fs)" using assms by (simp add: response_ok_def size_defs)
  then have "Response_marshal msg b = Inr (concat ?fs)" using put_all[OF len] assms(2) by (simp add: Response_marshal_def)
  moreover have "Response_unmarshal (concat ?fs) = Inr msg"
    using assms(1) by (simp add: Response_unmarshal_def response_ok_def size_defs le_bytes_round_trip)
  ultimately show ?thesis using len assms(2) by simp
qed

lemma CookieReply_round_trip:
  assumes "cookie_reply_ok msg" "length b = MessageCookieReplySize"
  shows "\<exists>w. CookieReply_marshal msg b = Inr w \<and> length w = MessageCookieReplySize \<and> CookieReply_unmarshal w = Inr msg"
proof -
  let ?fs = "[le_bytes 4 (mc_Type msg), le_bytes 4 (mc_Receiver msg), mc_Nonce msg, mc_Cookie msg]"
  have len: "length b = length (concat ?fs)" using assms by (simp add: cookie_reply_ok_def size_defs)
  then have "CookieReply_marshal msg b = Inr (concat ?fs)" using put_all[OF len] assms(2) by (simp add: CookieReply_marshal_def)
  moreover have "CookieReply_unmarshal (concat ?fs) = Inr msg"
    using assms(1) by (simp add: CookieReply_unmarshal_def cookie_reply_ok_def size_defs le_bytes_round_trip)
  ultimately show ?thesis using len assms(2) by simp
qed

text \<open>The bytes determine the message, and the message the bytes.\<close>

lemma Initiation_bytes:
  assumes "length w = MessageInitiationSize" "length b = MessageInitiationSize"
  shows "\<exists>msg. Initiation_unmarshal w = Inr msg \<and> initiation_ok msg \<and> Initiation_marshal msg b = Inr w"
  using assms put_slices[of "[4, 4, 32, 48, 28, 16, 16]" w b]
  by (simp add: Initiation_unmarshal_def Initiation_marshal_def initiation_ok_def size_defs le_bytes_of_le del: put_fields.simps)

lemma Response_bytes:
  assumes "length w = MessageResponseSize" "length b = MessageResponseSize"
  shows "\<exists>msg. Response_unmarshal w = Inr msg \<and> response_ok msg \<and> Response_marshal msg b = Inr w"
  using assms put_slices[of "[4, 4, 4, 32, 16, 16, 16]" w b]
  by (simp add: Response_unmarshal_def Response_marshal_def response_ok_def size_defs le_bytes_of_le del: put_fields.simps)

lemma CookieReply_bytes:
  assumes "length w = MessageCookieReplySize" "length b = MessageCookieReplySize"
  shows "\<exists>msg. CookieReply_unmarshal w = Inr msg \<and> cookie_reply_ok msg \<and> CookieReply_marshal msg b = Inr w"
  using assms put_slices[of "[4, 4, 24, 32]" w b]
  by (simp add: CookieReply_unmarshal_def CookieReply_marshal_def cookie_reply_ok_def size_defs le_bytes_of_le del: put_fields.simps)

text \<open>C31. The three messages have a unique form on the wire: a message marshalled into a buffer of its
  size is unmarshalled to itself, a packet of that size is unmarshalled to a message that marshals to
  the packet, and both refuse every other length.\<close>

theorem handshake_messages_round_trip:
  assumes "initiation_ok i" "response_ok r" "cookie_reply_ok c"
    and "length bi = MessageInitiationSize" "length br = MessageResponseSize" "length bc = MessageCookieReplySize"
  shows "(\<exists>w. Initiation_marshal i bi = Inr w \<and> Initiation_unmarshal w = Inr i) \<and>
    (\<exists>w. Response_marshal r br = Inr w \<and> Response_unmarshal w = Inr r) \<and>
    (\<exists>w. CookieReply_marshal c bc = Inr w \<and> CookieReply_unmarshal w = Inr c) \<and>
    (\<forall>w. if length w = MessageInitiationSize then \<exists>m. Initiation_unmarshal w = Inr m \<and> Initiation_marshal m bi = Inr w
         else Initiation_unmarshal w = Inl errMessageLengthMismatch \<and> Initiation_marshal i w = Inl errMessageLengthMismatch) \<and>
    (\<forall>w. if length w = MessageResponseSize then \<exists>m. Response_unmarshal w = Inr m \<and> Response_marshal m br = Inr w
         else Response_unmarshal w = Inl errMessageLengthMismatch \<and> Response_marshal r w = Inl errMessageLengthMismatch) \<and>
    (\<forall>w. if length w = MessageCookieReplySize then \<exists>m. CookieReply_unmarshal w = Inr m \<and> CookieReply_marshal m bc = Inr w
         else CookieReply_unmarshal w = Inl errMessageLengthMismatch \<and> CookieReply_marshal c w = Inl errMessageLengthMismatch)"
proof (intro conjI allI)
  show "\<exists>w. Initiation_marshal i bi = Inr w \<and> Initiation_unmarshal w = Inr i" using Initiation_round_trip[OF assms(1,4)] by blast
  show "\<exists>w. Response_marshal r br = Inr w \<and> Response_unmarshal w = Inr r" using Response_round_trip[OF assms(2,5)] by blast
  show "\<exists>w. CookieReply_marshal c bc = Inr w \<and> CookieReply_unmarshal w = Inr c" using CookieReply_round_trip[OF assms(3,6)] by blast
next
  fix w :: bytes
  show "if length w = MessageInitiationSize then \<exists>m. Initiation_unmarshal w = Inr m \<and> Initiation_marshal m bi = Inr w
      else Initiation_unmarshal w = Inl errMessageLengthMismatch \<and> Initiation_marshal i w = Inl errMessageLengthMismatch"
    using Initiation_bytes[OF _ assms(4), of w] by (auto simp: Initiation_unmarshal_def Initiation_marshal_def)
  show "if length w = MessageResponseSize then \<exists>m. Response_unmarshal w = Inr m \<and> Response_marshal m br = Inr w
      else Response_unmarshal w = Inl errMessageLengthMismatch \<and> Response_marshal r w = Inl errMessageLengthMismatch"
    using Response_bytes[OF _ assms(5), of w] by (auto simp: Response_unmarshal_def Response_marshal_def)
  show "if length w = MessageCookieReplySize then \<exists>m. CookieReply_unmarshal w = Inr m \<and> CookieReply_marshal m bc = Inr w
      else CookieReply_unmarshal w = Inl errMessageLengthMismatch \<and> CookieReply_marshal c w = Inl errMessageLengthMismatch"
    using CookieReply_bytes[OF _ assms(6), of w] by (auto simp: CookieReply_unmarshal_def CookieReply_marshal_def)
qed

definition example_initiation :: messageInitiation where
  "example_initiation = \<lparr>mi_Type = 1, mi_Sender = 7, mi_Ephemeral = replicate 32 1, mi_Static = replicate 48 2,
     mi_Timestamp = replicate 28 3, mi_MAC1 = replicate 16 4, mi_MAC2 = replicate 16 5\<rparr>"

theorem handshake_messages_round_trip_witness:
  "\<exists>w. Initiation_marshal example_initiation (replicate 148 0) = Inr w \<and> Initiation_unmarshal w = Inr example_initiation"
  using handshake_messages_round_trip[of example_initiation
      "\<lparr>mr_Type = 2, mr_Sender = 7, mr_Receiver = 8, mr_Ephemeral = replicate 32 1, mr_Empty = replicate 16 2, mr_MAC1 = replicate 16 3, mr_MAC2 = replicate 16 4\<rparr>"
      "\<lparr>mc_Type = 3, mc_Receiver = 8, mc_Nonce = replicate 24 1, mc_Cookie = replicate 32 2\<rparr>"
      "replicate 148 0" "replicate 92 0" "replicate 64 0"]
  by (simp add: example_initiation_def initiation_ok_def response_ok_def cookie_reply_ok_def size_defs)

end
