(* ===== verification/Noise_Crypto.thy ===== *)
theory Noise_Crypto
  imports Noise_Messages
begin

text \<open>
  The primitives of the WireGuard handshake and the helpers of \<open>noise-helpers.go\<close> and \<open>noise-protocol.go\<close>
  (\<open>submodules/wireguard-go/device\<close>) that combine them. The primitives of \<open>golang.org/x/crypto\<close> are the
  fields of \<open>crypto\<close>, and \<open>crypto_laws\<close> is what the code relies on.
\<close>

section \<open>Cryptographic primitives\<close>

record crypto =
  ScalarMult :: "bytes \<Rightarrow> bytes \<Rightarrow> bytes"
  ScalarBaseMult :: "bytes \<Rightarrow> bytes"
  blake2s_Sum256 :: "bytes \<Rightarrow> bytes"
  blake2s_Mac128 :: "bytes \<Rightarrow> bytes \<Rightarrow> bytes"
  aead_Seal :: "bytes \<Rightarrow> bytes \<Rightarrow> bytes \<Rightarrow> bytes \<Rightarrow> bytes"
  aead_Open :: "bytes \<Rightarrow> bytes \<Rightarrow> bytes \<Rightarrow> bytes \<Rightarrow> bytes option"
  xaead_Seal :: "bytes \<Rightarrow> bytes \<Rightarrow> bytes \<Rightarrow> bytes \<Rightarrow> bytes"
  xaead_Open :: "bytes \<Rightarrow> bytes \<Rightarrow> bytes \<Rightarrow> bytes \<Rightarrow> bytes option"
  chacha20_KeyStream :: "bytes \<Rightarrow> bytes \<Rightarrow> nat \<Rightarrow> u8"

text \<open>What the code relies on: scalar multiplication commutes, an authenticated cipher opens what it
  sealed, and the lengths of the results.\<close>

definition crypto_laws :: "crypto \<Rightarrow> bool" where
  "crypto_laws C \<longleftrightarrow>
     (\<forall>a b. length a = 32 \<longrightarrow> length b = 32 \<longrightarrow> ScalarMult C a (ScalarBaseMult C b) = ScalarMult C b (ScalarBaseMult C a)) \<and>
     (\<forall>a. length (ScalarBaseMult C a) = 32) \<and>
     (\<forall>x. length (blake2s_Sum256 C x) = 32) \<and> (\<forall>k x. length (blake2s_Mac128 C k x) = 16) \<and>
     (\<forall>k n p ad. aead_Open C k n (aead_Seal C k n p ad) ad = Some p \<and> length (aead_Seal C k n p ad) = length p + 16) \<and>
     (\<forall>k n p ad. xaead_Open C k n (xaead_Seal C k n p ad) ad = Some p \<and> length (xaead_Seal C k n p ad) = length p + 16)"

text \<open>\<open>crypto/hmac\<close> over BLAKE2s, whose block is 64 bytes.\<close>

definition hmac :: "crypto \<Rightarrow> bytes \<Rightarrow> bytes \<Rightarrow> bytes" where
  "hmac C key msg =
     (let k = (if length key > 64 then blake2s_Sum256 C key else key);
          padded = k @ replicate (64 - length k) 0
      in blake2s_Sum256 C (map (\<lambda>b. b XOR 0x5c) padded @ blake2s_Sum256 C (map (\<lambda>b. b XOR 0x36) padded @ msg)))"

definition HMAC1 :: "crypto \<Rightarrow> bytes \<Rightarrow> bytes \<Rightarrow> bytes" where
  "HMAC1 C key in0 = hmac C key in0"

definition HMAC2 :: "crypto \<Rightarrow> bytes \<Rightarrow> bytes \<Rightarrow> bytes \<Rightarrow> bytes" where
  "HMAC2 C key in0 in1 = hmac C key (in0 @ in1)"

definition KDF1 :: "crypto \<Rightarrow> bytes \<Rightarrow> bytes \<Rightarrow> bytes" where
  "KDF1 C key input = HMAC1 C (HMAC1 C key input) [1]"

definition KDF2 :: "crypto \<Rightarrow> bytes \<Rightarrow> bytes \<Rightarrow> bytes \<times> bytes" where
  "KDF2 C key input =
     (let prk = HMAC1 C key input; t0 = HMAC1 C prk [1]; t1 = HMAC2 C prk t0 [2] in (t0, t1))"

definition KDF3 :: "crypto \<Rightarrow> bytes \<Rightarrow> bytes \<Rightarrow> bytes \<times> bytes \<times> bytes" where
  "KDF3 C key input =
     (let prk = HMAC1 C key input; t0 = HMAC1 C prk [1]; t1 = HMAC2 C prk t0 [2]; t2 = HMAC2 C prk t1 [3] in (t0, t1, t2))"

definition isZero :: "bytes \<Rightarrow> bool" where
  "isZero val = list_all (\<lambda>b. b = 0) val"

definition setZero :: "bytes \<Rightarrow> bytes" where
  "setZero arr = map (\<lambda>_. 0) arr"

definition clamp :: "bytes \<Rightarrow> bytes" where
  "clamp sk = sk[0 := sk ! 0 AND 248, 31 := ((sk ! 31) AND 127) OR 64]"

text \<open>The 32 bytes \<open>rand.Read\<close> leaves in the key, and its error.\<close>

definition newPrivateKey :: "bytes \<times> error option \<Rightarrow> bytes \<times> error option" where
  "newPrivateKey r = (clamp (fst r), snd r)"

definition errInvalidPublicKey :: error where
  "errInvalidPublicKey = ErrNew ''invalid public key''"

definition sharedSecret :: "crypto \<Rightarrow> bytes \<Rightarrow> bytes \<Rightarrow> bytes \<times> error option" where
  "sharedSecret C sk pk =
     (let ss = ScalarMult C sk pk in (ss, if isZero ss then Some errInvalidPublicKey else None))"

definition mixKey :: "crypto \<Rightarrow> bytes \<Rightarrow> bytes \<Rightarrow> bytes" where
  "mixKey C c data = KDF1 C c data"

definition mixHash :: "crypto \<Rightarrow> bytes \<Rightarrow> bytes \<Rightarrow> bytes" where
  "mixHash C h data = blake2s_Sum256 C (h @ data)"

definition NoiseConstruction :: string where "NoiseConstruction = ''Noise_IKpsk2_25519_ChaChaPoly_BLAKE2s''"
definition WGIdentifier :: string where "WGIdentifier = ''WireGuard v1 zx2c4 Jason@zx2c4.com''"
definition WGLabelMAC1 :: string where "WGLabelMAC1 = ''mac1----''"
definition WGLabelCookie :: string where "WGLabelCookie = ''cookie--''"

definition InitialChainKey :: "crypto \<Rightarrow> bytes" where
  "InitialChainKey C = blake2s_Sum256 C (string_bytes NoiseConstruction)"

definition InitialHash :: "crypto \<Rightarrow> bytes" where
  "InitialHash C = mixHash C (InitialChainKey C) (string_bytes WGIdentifier)"

definition ZeroNonce :: bytes where "ZeroNonce = replicate 12 0"

lemma crypto_lawsD:
  assumes "crypto_laws C"
  shows "length a = 32 \<Longrightarrow> length b = 32 \<Longrightarrow> ScalarMult C a (ScalarBaseMult C b) = ScalarMult C b (ScalarBaseMult C a)"
    "aead_Open C k n (aead_Seal C k n m ad) ad = Some m" "length (aead_Seal C k n m ad) = length m + 16"
    "xaead_Open C k n (xaead_Seal C k n m ad) ad = Some m" "length (xaead_Seal C k n m ad) = length m + 16"
    "length (ScalarBaseMult C a) = 32" "length (blake2s_Sum256 C x) = 32" "length (blake2s_Mac128 C k x) = 16"
  using assms unfolding crypto_laws_def by blast+

lemma length_clamp [simp]: "length (clamp sk) = length sk"
  by (simp add: clamp_def)

section \<open>Example\<close>

text \<open>Primitives with the laws, for examples: addition for the curve, sums for the hashes.\<close>

definition byte_sum :: "bytes \<Rightarrow> u8" where
  "byte_sum x = foldl (+) 1 x"

definition example_open :: "bytes \<Rightarrow> bytes \<Rightarrow> bytes \<Rightarrow> bytes \<Rightarrow> bytes option" where
  "example_open k n c ad =
     (let p = take (length c - 16) c in if drop (length c - 16) c = replicate 16 (byte_sum (k @ p @ ad)) then Some p else None)"

definition example_crypto :: crypto where
  "example_crypto = \<lparr>ScalarMult = (\<lambda>a b. map2 (+) a b), ScalarBaseMult = (\<lambda>a. take 32 (a @ replicate 32 0)),
     blake2s_Sum256 = (\<lambda>x. replicate 32 (byte_sum x)), blake2s_Mac128 = (\<lambda>k x. replicate 16 (byte_sum (k @ x))),
     aead_Seal = (\<lambda>k n p ad. p @ replicate 16 (byte_sum (k @ p @ ad))), aead_Open = example_open,
     xaead_Seal = (\<lambda>k n p ad. p @ replicate 16 (byte_sum (k @ p @ ad))), xaead_Open = example_open,
     chacha20_KeyStream = (\<lambda>k n i. byte_sum (k @ n) + of_nat i)\<rparr>"

lemma example_crypto_laws: "crypto_laws example_crypto"
proof -
  have "map2 (+) a b = map2 (+) b a" for a b :: bytes by (induction a b rule: list_induct2') (simp_all add: add.commute)
  then show ?thesis by (auto simp: crypto_laws_def example_crypto_def example_open_def min_def)
qed

end
