(* ===== verification/Rate_Limiter.thy ===== *)
theory Rate_Limiter
  imports Net_Addr
begin

text \<open>
  The limiter of handshake messages (\<open>submodules/wireguard-go/ratelimiter/ratelimiter.go\<close>): a bucket of
  tokens per source address. Times are nanoseconds; a difference of times saturates as
  \<open>time.Time.Sub\<close> does, and tokens are 64-bit signed integers that wrap around. The goroutine that
  collects garbage calls \<open>cleanup\<close> at times of its own, so a run is a sequence of both calls.
\<close>

section \<open>The limiter\<close>

definition i64 :: "int \<Rightarrow> int" where
  "i64 x = (x + 2 ^ 63) mod 2 ^ 64 - 2 ^ 63"

definition time_Sub :: "int \<Rightarrow> int \<Rightarrow> int" where
  "time_Sub t u = max (- (2 ^ 63)) (min (2 ^ 63 - 1) (t - u))"

definition packetsPerSecond :: int where "packetsPerSecond = 20"
definition packetsBurstable :: int where "packetsBurstable = 5"
definition garbageCollectTime :: int where "garbageCollectTime = 1000000000"
definition packetCost :: int where "packetCost = 1000000000 div packetsPerSecond"
definition maxTokens :: int where "maxTokens = packetCost * packetsBurstable"

record ratelimiterEntry =
  lastTime :: int
  tokens :: int

type_synonym ratelimiter = "addr \<rightharpoonup> ratelimiterEntry"

definition ratelimiter_Init :: ratelimiter where
  "ratelimiter_Init = Map.empty"

definition cleanup :: "int \<Rightarrow> ratelimiter \<Rightarrow> ratelimiter" where
  "cleanup now table =
     (\<lambda>key. case table key of
        None \<Rightarrow> None
      | Some entry \<Rightarrow> if time_Sub now (lastTime entry) > garbageCollectTime then None else Some entry)"

definition Allow :: "int \<Rightarrow> addr \<Rightarrow> ratelimiter \<Rightarrow> bool \<times> ratelimiter" where
  "Allow now ip table =
     (case table ip of
        None \<Rightarrow> (True, table(ip \<mapsto> \<lparr>lastTime = now, tokens = maxTokens - packetCost\<rparr>))
      | Some entry \<Rightarrow>
          let filled = i64 (tokens entry + time_Sub now (lastTime entry));
              capped = (if filled > maxTokens then maxTokens else filled)
          in if capped > packetCost then (True, table(ip \<mapsto> \<lparr>lastTime = now, tokens = i64 (capped - packetCost)\<rparr>))
             else (False, table(ip \<mapsto> \<lparr>lastTime = now, tokens = capped\<rparr>)))"

section \<open>Runs\<close>

datatype limiter_event = AllowAt (ev_time: int) (ev_ip: addr) | CleanupAt (ev_time: int)

fun limiter_step :: "limiter_event \<Rightarrow> ratelimiter \<Rightarrow> bool \<times> ratelimiter" where
  "limiter_step (AllowAt now ip) table = Allow now ip table"
| "limiter_step (CleanupAt now) table = (False, cleanup now table)"

definition limiter_after :: "limiter_event list \<Rightarrow> ratelimiter \<Rightarrow> ratelimiter" where
  "limiter_after evs table = fold (\<lambda>ev s. snd (limiter_step ev s)) evs table"

text \<open>How many messages of an address a run lets through.\<close>

fun allowed_count :: "addr \<Rightarrow> limiter_event list \<Rightarrow> ratelimiter \<Rightarrow> int" where
  "allowed_count ip [] table = 0"
| "allowed_count ip (ev # evs) table =
     (if (case ev of AllowAt now a \<Rightarrow> a = ip | CleanupAt now \<Rightarrow> False) \<and> fst (limiter_step ev table) then 1 else 0) +
     allowed_count ip evs (snd (limiter_step ev table))"

section \<open>The bucket\<close>

lemmas limiter_consts = packetsPerSecond_def packetsBurstable_def garbageCollectTime_def packetCost_def maxTokens_def

lemma i64_id: "- (2 ^ 63) \<le> x \<Longrightarrow> x < 2 ^ 63 \<Longrightarrow> i64 x = x"
  by (simp add: i64_def)

text \<open>The tokens an address has at a time, with those it would be given then.\<close>

definition level :: "int \<Rightarrow> addr \<Rightarrow> ratelimiter \<Rightarrow> int" where
  "level t ip table =
     (case table ip of None \<Rightarrow> maxTokens | Some entry \<Rightarrow> min maxTokens (tokens entry + (t - lastTime entry)))"

text \<open>Entries between two times: tokens within the bucket, and no entry from the future.\<close>

definition limiter_ok :: "int \<Rightarrow> ratelimiter \<Rightarrow> bool" where
  "limiter_ok t table \<longleftrightarrow>
     (\<forall>ip entry. table ip = Some entry \<longrightarrow>
        0 \<le> tokens entry \<and> tokens entry \<le> maxTokens \<and> 0 \<le> lastTime entry \<and> lastTime entry \<le> t)"

lemma limiter_ok_mono: "limiter_ok t table \<Longrightarrow> t \<le> u \<Longrightarrow> limiter_ok u table"
  by (force simp: limiter_ok_def)

lemma level_mono: "t \<le> u \<Longrightarrow> level u ip table \<le> level t ip table + (u - t)"
  by (auto simp: level_def split: option.splits)

lemma level_range: "limiter_ok t table \<Longrightarrow> 0 \<le> level t ip table \<and> level t ip table \<le> maxTokens"
  by (force simp: level_def limiter_ok_def limiter_consts split: option.splits)

lemma elapsed: "0 \<le> u \<Longrightarrow> u \<le> t \<Longrightarrow> t \<le> 2 ^ 62 \<Longrightarrow> time_Sub t u = t - u"
  by (simp add: time_Sub_def)

lemma cleanup_ok:
  assumes "limiter_ok t table" "t \<le> 2 ^ 62"
  shows "limiter_ok t (cleanup t table)" "level t ip (cleanup t table) = level t ip table"
proof -
  show "limiter_ok t (cleanup t table)" using assms(1) by (auto simp: limiter_ok_def cleanup_def split: option.splits if_splits)
  show "level t ip (cleanup t table) = level t ip table"
  proof (cases "table ip")
    case (Some entry)
    then have e: "0 \<le> tokens entry" "0 \<le> lastTime entry" "lastTime entry \<le> t" using assms(1) by (auto simp: limiter_ok_def)
    show ?thesis using Some e elapsed[OF e(2,3) assms(2)] by (auto simp: level_def cleanup_def limiter_consts)
  qed (simp add: level_def cleanup_def)
qed

lemma Allow_ok:
  assumes "limiter_ok t table" "0 \<le> t" "t \<le> 2 ^ 62"
  shows "limiter_ok t (snd (Allow t ip table))"
    "level t ip (snd (Allow t ip table)) = level t ip table - (if fst (Allow t ip table) then packetCost else 0)"
    "a \<noteq> ip \<Longrightarrow> level t a (snd (Allow t ip table)) = level t a table"
proof -
  have "limiter_ok t (snd (Allow t ip table)) \<and>
    level t ip (snd (Allow t ip table)) = level t ip table - (if fst (Allow t ip table) then packetCost else 0)"
  proof (cases "table ip")
    case None
    then show ?thesis using assms by (auto simp: Allow_def limiter_ok_def level_def limiter_consts)
  next
    case (Some entry)
    then have e: "0 \<le> tokens entry" "tokens entry \<le> maxTokens" "0 \<le> lastTime entry" "lastTime entry \<le> t"
      using assms(1) by (auto simp: limiter_ok_def)
    have fill: "i64 (tokens entry + time_Sub t (lastTime entry)) = tokens entry + (t - lastTime entry)"
      using e assms(3) elapsed[OF e(3,4) assms(3)] by (simp add: limiter_consts i64_id)
    have spend: "i64 (x - packetCost) = x - packetCost" if "packetCost < x" "x \<le> maxTokens" for x
      using that by (simp add: limiter_consts i64_id)
    show ?thesis using Some e assms(1) spend
      by (auto simp: assms(2) Allow_def fill limiter_ok_def level_def Let_def limiter_consts)
  qed
  then show "limiter_ok t (snd (Allow t ip table))"
    "level t ip (snd (Allow t ip table)) = level t ip table - (if fst (Allow t ip table) then packetCost else 0)"
    by simp_all
  show "a \<noteq> ip \<Longrightarrow> level t a (snd (Allow t ip table)) = level t a table"
    by (auto simp: Allow_def level_def Let_def split: option.splits)
qed


lemma step_level:
  assumes "limiter_ok t table" "0 \<le> t" "t \<le> ev_time ev" "ev_time ev \<le> 2 ^ 62"
  shows "limiter_ok (ev_time ev) (snd (limiter_step ev table))"
    "level (ev_time ev) ip (snd (limiter_step ev table)) +
       (if (case ev of AllowAt now a \<Rightarrow> a = ip | CleanupAt now \<Rightarrow> False) \<and> fst (limiter_step ev table) then packetCost else 0)
     \<le> level t ip table + (ev_time ev - t)"
proof -
  have ok: "limiter_ok (ev_time ev) table" by (rule limiter_ok_mono[OF assms(1,3)])
  have pos: "0 \<le> ev_time ev" using assms(2,3) by simp
  note lm = level_mono[OF assms(3), of ip table]
  show "limiter_ok (ev_time ev) (snd (limiter_step ev table))"
    using ok pos assms(4) cleanup_ok(1) Allow_ok(1) by (cases ev) auto
  show "level (ev_time ev) ip (snd (limiter_step ev table)) +
       (if (case ev of AllowAt now a \<Rightarrow> a = ip | CleanupAt now \<Rightarrow> False) \<and> fst (limiter_step ev table) then packetCost else 0)
     \<le> level t ip table + (ev_time ev - t)"
  proof (cases ev)
    case (AllowAt now a)
    have n: "limiter_ok now table" "0 \<le> now" "now \<le> 2 ^ 62" using ok pos assms(4) AllowAt by simp_all
    show ?thesis using lm Allow_ok(2)[OF n, of ip] Allow_ok(3)[OF n, of ip a] AllowAt by (cases "a = ip") auto
  next
    case (CleanupAt now)
    then show ?thesis using lm cleanup_ok(2)[of now table ip] ok assms(4) by simp
  qed
qed

lemma run_level:
  "limiter_ok t table \<Longrightarrow> 0 \<le> t \<Longrightarrow> sorted (t # map ev_time evs) \<Longrightarrow> \<forall>ev \<in> set evs. ev_time ev \<le> 2 ^ 62 \<Longrightarrow>
   limiter_ok (List.last (t # map ev_time evs)) (limiter_after evs table) \<and>
   allowed_count ip evs table * packetCost + level (List.last (t # map ev_time evs)) ip (limiter_after evs table)
     \<le> level t ip table + (List.last (t # map ev_time evs) - t)"
proof (induction evs arbitrary: t table)
  case (Cons ev evs)
  have t: "t \<le> ev_time ev" "ev_time ev \<le> 2 ^ 62" "0 \<le> ev_time ev" using Cons.prems by auto
  note st = step_level[OF Cons.prems(1,2) t(1,2)]
  have "sorted (ev_time ev # map ev_time evs)" "\<forall>ev \<in> set evs. ev_time ev \<le> 2 ^ 62" using Cons.prems(3,4) by auto
  note IH = Cons.IH[OF st(1) t(3) this]
  show ?case using IH st(2)[of ip] by (auto simp: limiter_after_def algebra_simps split: if_splits)
qed (simp add: limiter_after_def)

text \<open>C27. No source gets more than its share: however calls of \<open>Allow\<close> for many addresses and garbage
  collections interleave, in any stretch of a run an address is allowed at most the burst of five
  messages and one more for each 50 milliseconds that the stretch lasts. Deleting an idle entry and
  making it anew gives an address nothing. Times start at zero and stay below \<open>2 ^ 62\<close> nanoseconds, so
  that no sum of tokens and elapsed time wraps around.\<close>

theorem rate_limit:
  assumes "sorted (map ev_time (pre @ ev # evs))" "\<forall>e \<in> set (pre @ ev # evs). 0 \<le> ev_time e \<and> ev_time e \<le> 2 ^ 62"
  shows "allowed_count ip (ev # evs) (limiter_after pre ratelimiter_Init) * packetCost \<le>
    maxTokens + (ev_time (List.last (ev # evs)) - ev_time ev)"
proof -
  have ok0: "limiter_ok 0 ratelimiter_Init" by (simp add: limiter_ok_def ratelimiter_Init_def)
  have "sorted (0 # map ev_time pre)" "\<forall>e \<in> set pre. ev_time e \<le> 2 ^ 62" using assms by (auto simp: sorted_append)
  from run_level[OF ok0 order_refl this]
  have ok: "limiter_ok (List.last (0 # map ev_time pre)) (limiter_after pre ratelimiter_Init)" by blast
  have "List.last (0 # map ev_time pre) \<le> ev_time ev" using assms by (auto simp: sorted_append last_map)
  then have ok: "limiter_ok (ev_time ev) (limiter_after pre ratelimiter_Init)" by (rule limiter_ok_mono[OF ok])
  have srt: "sorted (ev_time ev # map ev_time (ev # evs))" "\<forall>e \<in> set (ev # evs). ev_time e \<le> 2 ^ 62" "0 \<le> ev_time ev"
    using assms by (auto simp: sorted_append)
  note run = run_level[OF ok srt(3,1,2), of ip]
  have lst: "List.last (ev_time ev # map ev_time (ev # evs)) = ev_time (List.last (ev # evs))"
    by (simp add: last_map)
  show ?thesis using run level_range[of _ _ ip] level_range[OF ok, of ip] unfolding lst by fastforce
qed

theorem rate_limit_witness:
  "allowed_count (Addr4 7) [AllowAt 0 (Addr4 7), AllowAt 1 (Addr4 7), AllowAt 2 (Addr4 7), AllowAt 3 (Addr4 7), AllowAt 4 (Addr4 7), AllowAt 5 (Addr4 7)]
     (limiter_after [] ratelimiter_Init) * packetCost \<le> maxTokens + 5"
  using rate_limit[of "[]" "AllowAt 0 (Addr4 7)"
      "[AllowAt 1 (Addr4 7), AllowAt 2 (Addr4 7), AllowAt 3 (Addr4 7), AllowAt 4 (Addr4 7), AllowAt 5 (Addr4 7)]" "Addr4 7"]
  by simp

end
