(* ===== verification/Cookie_Mac.thy ===== *)
theory Cookie_Mac
  imports Noise_Crypto Rate_Limiter
begin

text \<open>
  The two authentication codes of a handshake message (\<open>submodules/wireguard-go/device/cookie.go\<close>): every
  message carries a first code under a key that the public key of the receiver gives, and a device under
  load asks for a second one under a cookie that it sends to the address of the sender. What the clock
  and the random source return are arguments; \<open>None\<close> is the panic of a slice out of range.
\<close>

section \<open>State\<close>

text \<open>The zero \<open>time.Time\<close>, the first day of the year 1, in nanoseconds since 1970.\<close>

definition zero_time :: int where
  "zero_time = - 62135596800 * 1000000000"

text \<open>\<open>time.Since\<close> of a time is \<open>time_Sub\<close> of the clock and it.\<close>

definition CookieRefreshTime :: int where "CookieRefreshTime = 120 * 1000000000"

record cookie_checker =
  cc_mac1_key :: bytes
  cc_secret :: bytes
  cc_secretSet :: int
  cc_encryptionKey :: bytes

record cookie_generator =
  cg_mac1_key :: bytes
  cg_cookie :: bytes
  cg_cookieSet :: int
  hasLastMAC1 :: bool
  lastMAC1 :: bytes
  cg_encryptionKey :: bytes

definition no_checker :: cookie_checker where
  "no_checker = \<lparr>cc_mac1_key = replicate 32 0, cc_secret = replicate 32 0, cc_secretSet = zero_time, cc_encryptionKey = replicate 32 0\<rparr>"

definition no_generator :: cookie_generator where
  "no_generator = \<lparr>cg_mac1_key = replicate 32 0, cg_cookie = replicate 16 0, cg_cookieSet = zero_time, hasLastMAC1 = False,
     lastMAC1 = replicate 16 0, cg_encryptionKey = replicate 32 0\<rparr>"

section \<open>The checker\<close>

definition CookieChecker_Init :: "crypto \<Rightarrow> bytes \<Rightarrow> cookie_checker \<Rightarrow> cookie_checker" where
  "CookieChecker_Init C pk st =
     st\<lparr>cc_mac1_key := blake2s_Sum256 C (string_bytes WGLabelMAC1 @ pk),
        cc_encryptionKey := blake2s_Sum256 C (string_bytes WGLabelCookie @ pk), cc_secretSet := zero_time\<rparr>"

definition CheckMAC1 :: "crypto \<Rightarrow> cookie_checker \<Rightarrow> bytes \<Rightarrow> bool option" where
  "CheckMAC1 C st msg =
     (let smac1 = length msg - 32
      in if length msg < 32 then None
         else Some (blake2s_Mac128 C (cc_mac1_key st) (take smac1 msg) = take 16 (drop smac1 msg)))"

definition CheckMAC2 :: "crypto \<Rightarrow> int \<Rightarrow> cookie_checker \<Rightarrow> bytes \<Rightarrow> bytes \<Rightarrow> bool option" where
  "CheckMAC2 C now st msg src =
     (if time_Sub now (cc_secretSet st) > CookieRefreshTime then Some False
      else if length msg < 16 then None
      else
        let cookie = blake2s_Mac128 C (cc_secret st) src;
            smac2 = length msg - 16
        in Some (blake2s_Mac128 C cookie (take smac2 msg) = drop smac2 msg))"

text \<open>The two readings of the random source are the secret, when it is refreshed, and the nonce; the
  second reading of the clock is the time the secret was set.\<close>

definition CreateReply ::
  "crypto \<Rightarrow> int \<Rightarrow> int \<Rightarrow> bytes \<times> error option \<Rightarrow> bytes \<times> error option \<Rightarrow> bytes \<Rightarrow> u32 \<Rightarrow> bytes \<Rightarrow> u32 \<Rightarrow> cookie_checker \<Rightarrow>
   (messageCookieReply result \<times> cookie_checker) option" where
  "CreateReply C now1 now2 rsecret rnonce msg recv src msgType st =
     (let stale = (time_Sub now1 (cc_secretSet st) > CookieRefreshTime);
          st1 = (if stale then st\<lparr>cc_secret := fst rsecret\<rparr> else st)
      in if stale \<and> snd rsecret \<noteq> None then Some (Inl (the (snd rsecret)), st1)
         else
           let st2 = (if stale then st1\<lparr>cc_secretSet := now2\<rparr> else st1);
               cookie = blake2s_Mac128 C (cc_secret st2) src
           in case snd rnonce of
                Some e \<Rightarrow> Some (Inl e, st2)
              | None \<Rightarrow>
                  if length msg < 32 then None
                  else Some (Inr \<lparr>mc_Type = msgType, mc_Receiver = recv, mc_Nonce = fst rnonce,
                                  mc_Cookie = xaead_Seal C (cc_encryptionKey st2) (fst rnonce) cookie (take 16 (drop (length msg - 32) msg))\<rparr>,
                             st2))"

section \<open>The generator\<close>

definition CookieGenerator_Init :: "crypto \<Rightarrow> bytes \<Rightarrow> cookie_generator \<Rightarrow> cookie_generator" where
  "CookieGenerator_Init C pk st =
     st\<lparr>cg_mac1_key := blake2s_Sum256 C (string_bytes WGLabelMAC1 @ pk),
        cg_encryptionKey := blake2s_Sum256 C (string_bytes WGLabelCookie @ pk), cg_cookieSet := zero_time\<rparr>"

definition ConsumeReply :: "crypto \<Rightarrow> int \<Rightarrow> messageCookieReply \<Rightarrow> cookie_generator \<Rightarrow> bool \<times> cookie_generator" where
  "ConsumeReply C now msg st =
     (if \<not> hasLastMAC1 st then (False, st)
      else case xaead_Open C (cg_encryptionKey st) (mc_Nonce msg) (mc_Cookie msg) (lastMAC1 st) of
             None \<Rightarrow> (False, st)
           | Some cookie \<Rightarrow> (True, st\<lparr>cg_cookieSet := now, cg_cookie := cookie\<rparr>))"

definition AddMacs :: "crypto \<Rightarrow> int \<Rightarrow> bytes \<Rightarrow> cookie_generator \<Rightarrow> (bytes \<times> cookie_generator) option" where
  "AddMacs C now msg st =
     (let smac2 = length msg - 16; smac1 = length msg - 32
      in if length msg < 32 then None
         else
           let mac1 = blake2s_Mac128 C (cg_mac1_key st) (take smac1 msg);
               msg1 = put_at smac1 mac1 msg;
               st1 = st\<lparr>lastMAC1 := mac1, hasLastMAC1 := True\<rparr>
           in if time_Sub now (cg_cookieSet st) > CookieRefreshTime then Some (msg1, st1)
              else Some (put_at smac2 (blake2s_Mac128 C (cg_cookie st1) (take smac2 msg1)) msg1, st1))"

section \<open>Lemmas\<close>

text \<open>A message with its codes is its body and the two codes.\<close>

lemma AddMacs_eq:
  fixes st :: cookie_generator
  assumes "crypto_laws C" "length msg \<ge> 32"
  defines "body \<equiv> take (length msg - 32) msg"
  defines "mac1 \<equiv> blake2s_Mac128 C (cg_mac1_key st) body"
  shows "AddMacs C now msg st =
    Some (body @ mac1 @ (if time_Sub now (cg_cookieSet st) > CookieRefreshTime then drop (length msg - 16) msg
                         else blake2s_Mac128 C (cg_cookie st) (body @ mac1)), st\<lparr>lastMAC1 := mac1, hasLastMAC1 := True\<rparr>)"
proof -
  have l: "length (blake2s_Mac128 C k x) = 16" for k x using crypto_lawsD(8)[OF assms(1)] .
  have e: "length msg - 32 + 16 = length msg - 16" "length msg - 16 + 16 = length msg" using assms(2) by simp_all
  have one: "put_at (length msg - 32) (blake2s_Mac128 C k x) msg = body @ blake2s_Mac128 C k x @ drop (length msg - 16) msg" for k x
    using assms(2) e by (subst put_at_inside) (simp_all add: l body_def)
  have t: "take (length msg - 16) (body @ blake2s_Mac128 C k x @ drop (length msg - 16) msg) = body @ blake2s_Mac128 C k x" for k x
    using assms(2) by (simp add: body_def l)
  have two: "put_at (length msg - 16) y (body @ blake2s_Mac128 C k x @ drop (length msg - 16) msg) = body @ blake2s_Mac128 C k x @ y" if "length y = 16" for k x y
    using assms(2) that by (subst put_at_inside) (simp_all add: l body_def)
  show ?thesis
    using assms(2) by (simp add: AddMacs_def Let_def one t two l mac1_def) (simp add: body_def l)
qed

lemma length_AddMacs: "crypto_laws C \<Longrightarrow> AddMacs C now msg st = Some (msg', st') \<Longrightarrow> length msg' = length msg"
  using AddMacs_eq[of C msg now st] crypto_lawsD(8)[of C]
  by (cases "length msg < 32") (auto simp: AddMacs_def split: if_splits)

lemma CheckMAC1_of: "length mac1 = 16 \<Longrightarrow> length mac2 = 16 \<Longrightarrow> CheckMAC1 C st (body @ mac1 @ mac2) = Some (blake2s_Mac128 C (cc_mac1_key st) body = mac1)"
  by (simp add: CheckMAC1_def)

lemma CheckMAC2_of:
  "length mac1 = 16 \<Longrightarrow> length mac2 = 16 \<Longrightarrow> time_Sub now (cc_secretSet st) \<le> CookieRefreshTime \<Longrightarrow>
   CheckMAC2 C now st (body @ mac1 @ mac2) src = Some (blake2s_Mac128 C (blake2s_Mac128 C (cc_secret st) src) (body @ mac1) = mac2)"
  by (simp add: CheckMAC2_def Let_def)

section \<open>Properties\<close>

text \<open>A generator and a checker that were set up for the same public key.\<close>

definition same_owner :: "crypto \<Rightarrow> bytes \<Rightarrow> cookie_generator \<Rightarrow> cookie_checker \<Rightarrow> bool" where
  "same_owner C pk g c \<longleftrightarrow> (\<exists>g0 c0. cg_mac1_key g = cg_mac1_key (CookieGenerator_Init C pk g0) \<and>
     cg_encryptionKey g = cg_encryptionKey (CookieGenerator_Init C pk g0) \<and>
     cc_mac1_key c = cc_mac1_key (CookieChecker_Init C pk c0) \<and> cc_encryptionKey c = cc_encryptionKey (CookieChecker_Init C pk c0))"

lemma same_owner_keys: "same_owner C pk g c \<Longrightarrow> cc_mac1_key c = cg_mac1_key g \<and> cc_encryptionKey c = cg_encryptionKey g"
  by (auto simp: same_owner_def CookieGenerator_Init_def CookieChecker_Init_def)

lemma AddMacs_first:
  assumes "crypto_laws C" "same_owner C pk g c" "AddMacs C now msg g = Some (msg', g')"
  shows "CheckMAC1 C c msg' = Some True"
proof -
  have "length msg \<ge> 32" using assms(3) by (auto simp: AddMacs_def Let_def split: if_splits)
  note eq = AddMacs_eq[OF assms(1) this, of now g]
  show ?thesis using assms(3) same_owner_keys[OF assms(2)] crypto_lawsD(8)[OF assms(1)] \<open>length msg \<ge> 32\<close>
    unfolding eq by (auto simp: CheckMAC1_of)
qed

text \<open>C36. A message with the codes of the generator of a peer passes the first check of that peer. When the
  peer answers it with a cookie, the generator takes the cookie, and the next message within two
  minutes passes both checks at the address the cookie was made for, as long as the peer has not
  renewed its secret.\<close>

theorem cookie_exchange:
  assumes "crypto_laws C" "same_owner C pk g c"
    and "AddMacs C t0 m1 g = Some (m1', g1)"
    and "CreateReply C t1 t2 rs rn m1' recv src ty c = Some (Inr reply, c1)"
    and "length m2 \<ge> 32" "time_Sub t4 t3 \<le> CookieRefreshTime" "time_Sub t5 (cc_secretSet c1) \<le> CookieRefreshTime"
  shows "CheckMAC1 C c m1' = Some True \<and>
    (\<exists>g2 m2' g3. ConsumeReply C t3 reply g1 = (True, g2) \<and> AddMacs C t4 m2 g2 = Some (m2', g3) \<and>
       CheckMAC1 C c1 m2' = Some True \<and> CheckMAC2 C t5 c1 m2' src = Some True)"
proof
  show "CheckMAC1 C c m1' = Some True" by (rule AddMacs_first[OF assms(1-3)])
  note l = crypto_lawsD(8)[OF assms(1)] and keys = same_owner_keys[OF assms(2)]
  have m1: "length m1 \<ge> 32" using assms(3) by (auto simp: AddMacs_def Let_def split: if_splits)
  define mac1 where "mac1 = blake2s_Mac128 C (cg_mac1_key g) (take (length m1 - 32) m1)"
  have g1: "g1 = g\<lparr>lastMAC1 := mac1, hasLastMAC1 := True\<rparr>" "take 16 (drop (length m1' - 32) m1') = mac1"
    using assms(3) m1 unfolding AddMacs_eq[OF assms(1) m1] mac1_def by (auto simp: l)
  have c1: "cc_mac1_key c1 = cc_mac1_key c" "cc_encryptionKey c1 = cc_encryptionKey c"
    "mc_Cookie reply = xaead_Seal C (cc_encryptionKey c) (mc_Nonce reply) (blake2s_Mac128 C (cc_secret c1) src) mac1"
    using assms(4) g1(2) by (auto simp: CreateReply_def Let_def split: if_splits option.splits)
  define g2 where "g2 = g1\<lparr>cg_cookieSet := t3, cg_cookie := blake2s_Mac128 C (cc_secret c1) src\<rparr>"
  have "ConsumeReply C t3 reply g1 = (True, g2)"
    using g1(1) c1(3) keys crypto_lawsD(4)[OF assms(1)] by (simp add: ConsumeReply_def g2_def)
  moreover have "cg_mac1_key g2 = cc_mac1_key c1" "cg_cookieSet g2 = t3" "cg_cookie g2 = blake2s_Mac128 C (cc_secret c1) src"
    using g1(1) c1 keys by (simp_all add: g2_def)
  ultimately show "\<exists>g2 m2' g3. ConsumeReply C t3 reply g1 = (True, g2) \<and> AddMacs C t4 m2 g2 = Some (m2', g3) \<and>
      CheckMAC1 C c1 m2' = Some True \<and> CheckMAC2 C t5 c1 m2' src = Some True"
    using assms(5-7) by (simp add: AddMacs_eq[OF assms(1,5)] CheckMAC1_of CheckMAC2_of l)
qed

theorem cookie_exchange_witness:
  "let g = CookieGenerator_Init example_crypto (replicate 32 7) no_generator; c = CookieChecker_Init example_crypto (replicate 32 7) no_checker;
       m = replicate 40 1
   in \<exists>m' g1 reply c1. AddMacs example_crypto 0 m g = Some (m', g1) \<and>
        CreateReply example_crypto 0 0 (replicate 32 5, None) (replicate 24 6, None) m' 9 [1, 2, 3, 4] 3 c = Some (Inr reply, c1) \<and>
        (\<exists>g2 m2 g3. ConsumeReply example_crypto 1000 reply g1 = (True, g2) \<and> AddMacs example_crypto 2000 m g2 = Some (m2, g3) \<and>
           CheckMAC2 example_crypto 3000 c1 m2 [1, 2, 3, 4] = Some True)"
proof -
  let ?g = "CookieGenerator_Init example_crypto (replicate 32 7) no_generator"
  let ?c = "CookieChecker_Init example_crypto (replicate 32 7) no_checker"
  have own: "same_owner example_crypto (replicate 32 7) ?g ?c" unfolding same_owner_def by blast
  obtain m' g1 where a: "AddMacs example_crypto 0 (replicate 40 1) ?g = Some (m', g1)"
    using AddMacs_eq[OF example_crypto_laws, of "replicate 40 1" 0 ?g] by simp
  have m': "length m' = 40" using length_AddMacs[OF example_crypto_laws a] by simp
  have stale: "time_Sub 0 (cc_secretSet ?c) > CookieRefreshTime"
    by (simp add: time_Sub_def CookieChecker_Init_def zero_time_def CookieRefreshTime_def)
  obtain reply c1 where r: "CreateReply example_crypto 0 0 (replicate 32 5, None) (replicate 24 6, None) m' 9 [1, 2, 3, 4] 3 ?c = Some (Inr reply, c1)"
      "cc_secretSet c1 = 0"
    using stale m' by (auto simp: CreateReply_def Let_def)
  show ?thesis
    using a r cookie_exchange[OF example_crypto_laws own a r(1), of "replicate 40 1" 2000 1000 3000]
    by (simp add: Let_def time_Sub_def CookieRefreshTime_def) blast
qed

end
