(* ===== verification/Peer_Timers.thy ===== *)
theory Peer_Timers
  imports Cookie_Mac
begin

text \<open>
  The timers of a peer and the session state it reports (\<open>submodules/wireguard-go/device/timers.go\<close> and
  the functions on \<open>sessionState\<close> of \<open>peer.go\<close>). A timer is the time it fires at, \<open>None\<close> while it is not
  pending. \<open>active\<close> is what \<open>timersActive\<close> returns: the peer runs and the device is up. The callback that
  observes the session state is not modelled.
\<close>

definition RekeyAfterTime :: int where "RekeyAfterTime = 120 * 1000000000"
definition RekeyTimeout :: int where "RekeyTimeout = 5 * 1000000000"
definition MaxTimerHandshakes :: u32 where "MaxTimerHandshakes = 90 div 5"
definition RekeyTimeoutJitterMaxMs :: u32 where "RekeyTimeoutJitterMaxMs = 334"
definition RejectAfterTime :: int where "RejectAfterTime = 180 * 1000000000"
definition KeepaliveTimeout :: int where "KeepaliveTimeout = 10 * 1000000000"

section \<open>State\<close>

record peer_timers =
  retransmitHandshake :: "int option"
  sendKeepalive :: "int option"
  newHandshake :: "int option"
  sessionExpired :: "int option"
  zeroKeyMaterial :: "int option"
  persistentKeepalive :: "int option"
  handshakeAttempts :: u32
  needAnotherKeepalive :: bool
  sentLastMinuteHandshake :: bool

definition timersInit :: peer_timers where
  "timersInit = \<lparr>retransmitHandshake = None, sendKeepalive = None, newHandshake = None, sessionExpired = None,
     zeroKeyMaterial = None, persistentKeepalive = None, handshakeAttempts = 0, needAnotherKeepalive = False,
     sentLastMinuteHandshake = False\<rparr>"

datatype peerSessionState = PeerSessionNone | PeerSessionHandshake | PeerSessionEstablished | PeerSessionExpired

record peer_session =
  session_current :: peerSessionState
  sessionExpires :: int

definition no_session :: peer_session where
  "no_session = \<lparr>session_current = PeerSessionNone, sessionExpires = zero_time\<rparr>"

section \<open>Timers\<close>

text \<open>\<open>jitter\<close> is the random number of milliseconds.\<close>

definition milliseconds :: "u32 \<Rightarrow> int" where
  "milliseconds n = 1000000 * uint n"

definition timersDataSent :: "bool \<Rightarrow> int \<Rightarrow> u32 \<Rightarrow> peer_timers \<Rightarrow> peer_timers" where
  "timersDataSent active now jitter t =
     (if active \<and> newHandshake t = None
      then t\<lparr>newHandshake := Some (now + (KeepaliveTimeout + RekeyTimeout + milliseconds jitter))\<rparr> else t)"

definition timersDataReceived :: "bool \<Rightarrow> int \<Rightarrow> peer_timers \<Rightarrow> peer_timers" where
  "timersDataReceived active now t =
     (if \<not> active then t
      else if sendKeepalive t = None then t\<lparr>sendKeepalive := Some (now + KeepaliveTimeout)\<rparr>
      else t\<lparr>needAnotherKeepalive := True\<rparr>)"

definition timersAnyAuthenticatedPacketSent :: "bool \<Rightarrow> peer_timers \<Rightarrow> peer_timers" where
  "timersAnyAuthenticatedPacketSent active t = (if active then t\<lparr>sendKeepalive := None\<rparr> else t)"

definition timersAnyAuthenticatedPacketReceived :: "bool \<Rightarrow> peer_timers \<Rightarrow> peer_timers" where
  "timersAnyAuthenticatedPacketReceived active t = (if active then t\<lparr>newHandshake := None\<rparr> else t)"

definition timersAnyAuthenticatedPacketTraversal :: "bool \<Rightarrow> int \<Rightarrow> u32 \<Rightarrow> peer_timers \<Rightarrow> peer_timers" where
  "timersAnyAuthenticatedPacketTraversal active now keepalive t =
     (if keepalive > 0 \<and> active then t\<lparr>persistentKeepalive := Some (now + 1000000000 * uint keepalive)\<rparr> else t)"

definition timersStart :: "peer_timers \<Rightarrow> peer_timers" where
  "timersStart t = t\<lparr>handshakeAttempts := 0, sentLastMinuteHandshake := False, needAnotherKeepalive := False\<rparr>"

definition timersStop :: "peer_timers \<Rightarrow> peer_timers" where
  "timersStop t = t\<lparr>retransmitHandshake := None, sendKeepalive := None, newHandshake := None, sessionExpired := None,
     zeroKeyMaterial := None, persistentKeepalive := None\<rparr>"

section \<open>Session state\<close>

definition noteSessionStateLocked :: "peerSessionState \<Rightarrow> peer_session \<Rightarrow> peer_session" where
  "noteSessionStateLocked state s = (if session_current s = state then s else s\<lparr>session_current := state\<rparr>)"

definition noteSessionHandshakeStarted :: "peer_session \<Rightarrow> peer_session" where
  "noteSessionHandshakeStarted s =
     (if session_current s = PeerSessionEstablished then s else noteSessionStateLocked PeerSessionHandshake s)"

definition noteSessionHandshakeStopped :: "bool \<Rightarrow> peer_session \<Rightarrow> peer_session" where
  "noteSessionHandshakeStopped hasKeyMaterial s =
     noteSessionStateLocked (if hasKeyMaterial then PeerSessionExpired else PeerSessionNone) s"

definition timersHandshakeInitiated :: "bool \<Rightarrow> int \<Rightarrow> u32 \<Rightarrow> peer_timers \<times> peer_session \<Rightarrow> peer_timers \<times> peer_session" where
  "timersHandshakeInitiated active now jitter = (\<lambda>(t, s).
     (if active then t\<lparr>retransmitHandshake := Some (now + (RekeyTimeout + milliseconds jitter))\<rparr> else t, noteSessionHandshakeStarted s))"

definition timersHandshakeComplete :: "bool \<Rightarrow> peer_timers \<Rightarrow> peer_timers" where
  "timersHandshakeComplete active t =
     (if active then t\<lparr>retransmitHandshake := None\<rparr> else t)\<lparr>handshakeAttempts := 0, sentLastMinuteHandshake := False\<rparr>"

definition timersSessionDerived :: "bool \<Rightarrow> int \<Rightarrow> peer_timers \<times> peer_session \<Rightarrow> peer_timers \<times> peer_session" where
  "timersSessionDerived active now = (\<lambda>(t, s).
     if active
     then (t\<lparr>sessionExpired := Some (now + RejectAfterTime), zeroKeyMaterial := Some (now + RejectAfterTime * 3)\<rparr>,
           noteSessionStateLocked PeerSessionEstablished (s\<lparr>sessionExpires := now + RejectAfterTime\<rparr>))
     else (t, noteSessionStateLocked PeerSessionEstablished s))"

definition expiredSession :: "int \<Rightarrow> peer_session \<Rightarrow> peer_session" where
  "expiredSession now s =
     (if sessionExpires s = zero_time \<or> now < sessionExpires s then s else noteSessionStateLocked PeerSessionExpired s)"

end
