(* ===== verification/Awg_Config.thy ===== *)
theory Awg_Config
  imports Noise_Crypto
begin

text \<open>
  The configuration of the AmneziaWG framing (\<open>submodules/wireguard-go/device\<close>): the ranges of message
  headers (\<open>magic-header.go\<close>), the ranges of integers and the header protection (\<open>noise-types.go\<close>,
  \<open>device.go\<close>), the size limits (\<open>send.go\<close>) and the merge of a configuration into the device (\<open>uapi.go\<close>).
  A number that the random source gives below a bound is the value of an argument at the bound.
\<close>

section \<open>Decimal numbers and splitting\<close>

text \<open>\<open>strings.Split\<close> with a separator of one character, and \<open>%d\<close> of an unsigned integer.\<close>

fun split_on :: "char \<Rightarrow> string \<Rightarrow> string list" where
  "split_on c [] = [[]]"
| "split_on c (x # xs) = (if x = c then [] # split_on c xs
                          else case split_on c xs of [] \<Rightarrow> [[x]] | y # ys \<Rightarrow> (x # y) # ys)"

definition digit_char :: "nat \<Rightarrow> char" where
  "digit_char n = char_of (48 + n)"

fun decimal :: "nat \<Rightarrow> string" where
  "decimal n = (if n < 10 then [digit_char n] else decimal (n div 10) @ [digit_char (n mod 10)])"

declare decimal.simps [simp del]

section \<open>Message headers\<close>

record magicHeader =
  mh_start :: u32
  mh_end :: u32

definition newMagicHeader :: "string \<Rightarrow> magicHeader result" where
  "newMagicHeader spec =
     (let parts = split_on CHR ''-'' spec
      in if length parts < 1 \<or> length parts > 2 then Inl (ErrNew ''bad format'')
         else
           rbind (with_cause (''failed to parse '' @ parts ! 0) (parse_uint 32 (parts ! 0))) (\<lambda>start.
           rbind (if length parts > 1 then with_cause (''failed to parse '' @ parts ! 1) (parse_uint 32 (parts ! 1)) else Inr start) (\<lambda>end'.
             if end' < start then Inl (ErrNew ''wrong range specified'')
             else Inr \<lparr>mh_start = of_nat start, mh_end = of_nat end'\<rparr>)))"

definition GenSpec :: "magicHeader \<Rightarrow> string" where
  "GenSpec h =
     (if mh_start h = mh_end h then decimal (unat (mh_start h))
      else decimal (unat (mh_start h)) @ ''-'' @ decimal (unat (mh_end h)))"

definition Validate :: "magicHeader \<Rightarrow> u32 \<Rightarrow> bool" where
  "Validate h val \<longleftrightarrow> mh_start h \<le> val \<and> val \<le> mh_end h"

text \<open>\<open>rand.Int\<close> panics for a bound of 0, and a failed read leaves a nil pointer.\<close>

definition Generate :: "(nat \<Rightarrow> nat option) \<Rightarrow> magicHeader \<Rightarrow> u32 option" where
  "Generate r h =
     (let high = unat (mh_end h - mh_start h + 1)
      in if high = 0 then None
         else case r high of None \<Rightarrow> None | Some n \<Rightarrow> Some (mh_start h + of_nat n))"

section \<open>Ranges of integers\<close>

definition FromUint32 :: "u32 \<Rightarrow> u32 \<Rightarrow> u64" where
  "FromUint32 lo hi = push_bit 32 (ucast hi) OR ucast lo"

definition range_Lo :: "u64 \<Rightarrow> u32" where "range_Lo r = ucast r"
definition range_Hi :: "u64 \<Rightarrow> u32" where "range_Hi r = ucast (drop_bit 32 r)"
definition range_IsZero :: "u64 \<Rightarrow> bool" where "range_IsZero r \<longleftrightarrow> r = 0"

definition range_FromString :: "string \<Rightarrow> u64 result" where
  "range_FromString str =
     (let parts = split_on CHR ''-'' str
      in if length parts < 1 \<or> length parts > 2 then Inl (ErrNew ''wrong format'')
         else
           rbind (parse_uint 32 (parts ! 0)) (\<lambda>lo.
           rbind (if length parts > 1 then parse_uint 32 (parts ! 1) else Inr lo) (\<lambda>hi.
             if hi < lo then Inl (ErrNew ''wrong range specified'') else Inr (FromUint32 (of_nat lo) (of_nat hi)))))"

definition range_Contains :: "u64 \<Rightarrow> u32 \<Rightarrow> bool" where
  "range_Contains r num \<longleftrightarrow> range_Lo r \<le> num \<and> num \<le> range_Hi r"

definition range_PickOne :: "(u32 \<Rightarrow> u32) \<Rightarrow> u64 \<Rightarrow> u32" where
  "range_PickOne fastrandn r =
     (if range_Hi r \<le> range_Lo r then range_Lo r else range_Lo r + fastrandn (range_Hi r - range_Lo r + 1))"

definition range_ToString :: "u64 \<Rightarrow> string" where
  "range_ToString r =
     (if range_Lo r = range_Hi r then decimal (unat (range_Lo r))
      else decimal (unat (range_Lo r)) @ ''-'' @ decimal (unat (range_Hi r)))"

section \<open>The state of the framing\<close>

definition HeaderCipherNonceSize :: nat where "HeaderCipherNonceSize = 12"

definition key_IsZero :: "bytes \<Rightarrow> bool" where
  "key_IsZero key \<longleftrightarrow> key = replicate 32 0"

record wire_state =
  hdr_init :: "magicHeader option"
  hdr_response :: "magicHeader option"
  hdr_cookie :: "magicHeader option"
  hdr_transport :: "magicHeader option"
  pad_init :: int
  pad_response :: int
  pad_cookie :: int
  pad_transport :: int
  hp_key :: "bytes option"
  contentPaddingAddition :: u64
  rekeyAfterTimeSec :: u64
  randomTrailers :: bool
  disableCookies :: bool
  junk_min :: int
  junk_max :: int
  junk_count :: int

text \<open>The headers that \<open>NewDevice\<close> sets.\<close>

definition one_header :: "u32 \<Rightarrow> magicHeader" where
  "one_header t = \<lparr>mh_start = t, mh_end = t\<rparr>"

definition new_wire :: wire_state where
  "new_wire = \<lparr>hdr_init = Some (one_header MessageInitiationType), hdr_response = Some (one_header MessageResponseType),
     hdr_cookie = Some (one_header MessageCookieReplyType), hdr_transport = Some (one_header MessageTransportType),
     pad_init = 0, pad_response = 0, pad_cookie = 0, pad_transport = 0, hp_key = None, contentPaddingAddition = 0, rekeyAfterTimeSec = 0,
     randomTrailers = False, disableCookies = False, junk_min = 0, junk_max = 0, junk_count = 0\<rparr>"

text \<open>A stream cipher is its key stream; \<open>None\<close> is the nil cipher of a device without a key.\<close>

definition NewUnauthenticatedCipher :: "crypto \<Rightarrow> bytes \<Rightarrow> bytes \<Rightarrow> (nat \<Rightarrow> u8) result" where
  "NewUnauthenticatedCipher C key nonce =
     (if length key \<noteq> 32 then Inl (ErrLib ''chacha20: wrong key size'')
      else if length nonce \<noteq> 12 \<and> length nonce \<noteq> 24 then Inl (ErrLib ''chacha20: wrong nonce size'')
      else Inr (chacha20_KeyStream C key nonce))"

definition XORKeyStream :: "(nat \<Rightarrow> u8) \<Rightarrow> bytes \<Rightarrow> bytes" where
  "XORKeyStream ks src = map2 (\<lambda>i b. b XOR ks i) [0..<length src] src"

definition HeaderProtectionCipher :: "crypto \<Rightarrow> wire_state \<Rightarrow> bytes \<Rightarrow> (nat \<Rightarrow> u8) option result" where
  "HeaderProtectionCipher C w salt =
     (case hp_key w of
        None \<Rightarrow> Inr None
      | Some key \<Rightarrow>
          if key_IsZero key then Inr None
          else rbind (NewUnauthenticatedCipher C key salt) (\<lambda>ks. Inr (Some ks)))"

section \<open>Sizes\<close>

definition MaxMessageSize :: int where "MaxMessageSize = 2 ^ 16 - 1"
definition awgMaxPacketSize :: int where "awgMaxPacketSize = min MaxMessageSize 65507"

definition awgPacketSize :: "int \<Rightarrow> int \<Rightarrow> int \<Rightarrow> int \<times> bool" where
  "awgPacketSize prefix content overhead =
     (if prefix < 0 \<or> content < 0 \<or> overhead < 0 \<or> overhead > awgMaxPacketSize \<or> prefix > awgMaxPacketSize - overhead \<or>
         content > awgMaxPacketSize - overhead - prefix
      then (0, False) else (prefix + content + overhead, True))"

section \<open>Merging a configuration\<close>

record ipcSetDevice =
  ipc_pad_init :: int
  ipc_pad_response :: int
  ipc_pad_cookie :: int
  ipc_pad_transport :: int
  headerProtectionKey :: "bytes option"
  ipc_hdr_init :: "magicHeader option"
  ipc_hdr_response :: "magicHeader option"
  ipc_hdr_cookie :: "magicHeader option"
  ipc_hdr_transport :: "magicHeader option"

fun check_prefixes :: "bool \<Rightarrow> nat \<Rightarrow> (int \<times> nat) list \<Rightarrow> unit result" where
  "check_prefixes protected i [] = Inr ()"
| "check_prefixes protected i ((prefix, core) # rest) =
     (if \<not> snd (awgPacketSize prefix (int core) 0) then Inl (ErrNew (''S'' @ decimal (i + 1) @ '' exceeds maximum packet size''))
      else if protected \<and> prefix < int HeaderCipherNonceSize
      then Inl (ErrNew (''S'' @ decimal (i + 1) @ '' must be at least '' @ decimal HeaderCipherNonceSize @ '' for header protection''))
      else check_prefixes protected (i + 1) rest)"

fun check_pairs :: "magicHeader \<Rightarrow> magicHeader option list \<Rightarrow> unit result" where
  "check_pairs left [] = Inr ()"
| "check_pairs left (None # rest) = Inl (ErrNew ''missing message header'')"
| "check_pairs left (Some right # rest) =
     (if mh_start left \<le> mh_end right \<and> mh_start right \<le> mh_end left then Inl (ErrNew ''headers must not overlap'')
      else check_pairs left rest)"

fun check_headers :: "magicHeader option list \<Rightarrow> unit result" where
  "check_headers [] = Inr ()"
| "check_headers (None # rest) = Inl (ErrNew ''invalid or full-width message header range'')"
| "check_headers (Some h # rest) =
     (if (ucast (mh_end h) :: u64) - ucast (mh_start h) + 1 = 2 ^ 32 then Inl (ErrNew ''invalid or full-width message header range'')
      else rbind (check_pairs h rest) (\<lambda>_. check_headers rest))"

definition or_else :: "'a option \<Rightarrow> 'a option \<Rightarrow> 'a option" where
  "or_else x y = (if x = None then y else x)"

definition mergeWithDevice :: "ipcSetDevice \<Rightarrow> wire_state \<Rightarrow> unit result \<times> ipcSetDevice \<times> wire_state" where
  "mergeWithDevice d w =
     (let protected = (case headerProtectionKey d of None \<Rightarrow> False | Some key \<Rightarrow> \<not> key_IsZero key)
      in case check_prefixes protected 0
            [(ipc_pad_init d, MessageInitiationSize), (ipc_pad_response d, MessageResponseSize),
             (ipc_pad_cookie d, MessageCookieReplySize), (ipc_pad_transport d, MessageTransportSize)] of
           Inl e \<Rightarrow> (Inl e, d, w)
         | Inr _ \<Rightarrow>
             let d1 = d\<lparr>ipc_hdr_init := or_else (ipc_hdr_init d) (hdr_init w), ipc_hdr_response := or_else (ipc_hdr_response d) (hdr_response w),
                        ipc_hdr_cookie := or_else (ipc_hdr_cookie d) (hdr_cookie w),
                        ipc_hdr_transport := or_else (ipc_hdr_transport d) (hdr_transport w)\<rparr>
             in case check_headers [ipc_hdr_init d1, ipc_hdr_response d1, ipc_hdr_cookie d1, ipc_hdr_transport d1] of
                  Inl e \<Rightarrow> (Inl e, d1, w)
                | Inr _ \<Rightarrow>
                    (Inr (), d1,
                     w\<lparr>hdr_init := ipc_hdr_init d1, hdr_response := ipc_hdr_response d1, hdr_cookie := ipc_hdr_cookie d1,
                       hdr_transport := ipc_hdr_transport d1, pad_init := ipc_pad_init d1, pad_response := ipc_pad_response d1,
                       pad_cookie := ipc_pad_cookie d1, pad_transport := ipc_pad_transport d1, hp_key := headerProtectionKey d1\<rparr>))"

section \<open>Lemmas on specifications\<close>

lemma of_char_digit: "n < 10 \<Longrightarrow> is_digit (digit_char n) \<and> (of_char (digit_char n) :: nat) = 48 + n"
  by (simp add: digit_char_def is_digit_def)

lemma parse_decimal: "n < 2 ^ w \<Longrightarrow> parse_uint_loop w 0 (decimal n @ t) = parse_uint_loop w n t"
proof (induction n arbitrary: t rule: decimal.induct)
  case (1 n)
  show ?case
  proof (cases "n < 10")
    case True
    then show ?thesis using 1(2) by (subst decimal.simps) (simp add: of_char_digit Let_def)
  next
    case False
    have "n div 10 < 2 ^ w" using 1(2) by (meson div_le_dividend le_less_trans)
    then have "parse_uint_loop w 0 (decimal n @ t) = parse_uint_loop w (n div 10) (digit_char (n mod 10) # t)"
      using False 1(1) by (subst decimal.simps) simp
    also have "\<dots> = parse_uint_loop w n t" using 1(2) of_char_digit[of "n mod 10"] by (simp add: Let_def)
    finally show ?thesis .
  qed
qed

lemma decimal_nonempty [simp]: "decimal n \<noteq> []"
  by (subst decimal.simps) simp

lemma parse_uint_decimal [simp]: "n < 2 ^ w \<Longrightarrow> parse_uint w (decimal n) = Inr n"
  using parse_decimal[of n w "[]"] by (simp add: parse_uint_def)

lemma decimal_digits: "c \<in> set (decimal n) \<Longrightarrow> is_digit c"
proof (induction n rule: decimal.induct)
  case (1 n)
  then show ?case using of_char_digit[of n] of_char_digit[of "n mod 10"] decimal.simps[of n] by (auto split: if_splits)
qed

lemma split_on_none: "c \<notin> set s \<Longrightarrow> split_on c s = [s]"
  by (induction s) auto

lemma split_on_one: "c \<notin> set s \<Longrightarrow> split_on c (s @ c # t) = s # split_on c t"
  by (induction s) auto

lemma dash_decimal [simp]: "CHR ''-'' \<notin> set (decimal n)"
  using decimal_digits[of "CHR ''-''" n] by (auto simp: is_digit_def)

lemma split_decimal [simp]:
  "split_on CHR ''-'' (decimal n) = [decimal n]" "split_on CHR ''-'' (decimal n @ CHR ''-'' # decimal m) = [decimal n, decimal m]"
  by (simp_all add: split_on_none split_on_one)

lemma unat_32: "unat (w :: u32) < 2 ^ 32"
  using unsigned_less[of w, where ?'a = nat] by simp

lemma newMagicHeader_ordered: "newMagicHeader spec = Inr h \<Longrightarrow> mh_start h \<le> mh_end h"
proof -
  assume "newMagicHeader spec = Inr h"
  then obtain a b where h: "h = \<lparr>mh_start = of_nat a, mh_end = of_nat b\<rparr>" "a \<le> b" "a < 2 ^ 32" "b < 2 ^ 32"
    by (auto simp: newMagicHeader_def Let_def rbind_eq_Inr with_cause_eq_Inr split: if_splits dest!: parse_uint_bound)
  then show ?thesis by (simp add: word_le_nat_alt unat_of_nat)
qed

lemma GenSpec_round_trip:
  assumes "mh_start h \<le> mh_end h"
  shows "newMagicHeader (GenSpec h) = Inr h"
  using assms unat_32[of "mh_start h"] unat_32[of "mh_end h"]
  by (cases h) (auto simp: newMagicHeader_def GenSpec_def Let_def word_le_nat_alt not_less)

lemma range_parts [simp]: "range_Lo (FromUint32 lo hi) = lo" "range_Hi (FromUint32 lo hi) = hi"
  by (rule bit_word_eqI; auto simp: range_Lo_def range_Hi_def FromUint32_def bit_simps dest: bit_imp_le_length)+

lemma range_of_parts: "FromUint32 (range_Lo r) (range_Hi r) = r"
  by (rule bit_word_eqI) (auto simp: range_Lo_def range_Hi_def FromUint32_def bit_simps)

lemma range_round_trip:
  assumes "range_Lo r \<le> range_Hi r"
  shows "range_FromString (range_ToString r) = Inr r"
  using assms unat_32[of "range_Lo r"] unat_32[of "range_Hi r"] range_of_parts[of r]
  by (auto simp: range_FromString_def range_ToString_def Let_def word_le_nat_alt not_less)

section \<open>Well-formed framing\<close>

definition header_ok :: "magicHeader \<Rightarrow> bool" where
  "header_ok h \<longleftrightarrow> mh_start h \<le> mh_end h \<and> mh_end h - mh_start h \<noteq> - 1"

definition apart :: "magicHeader \<Rightarrow> magicHeader \<Rightarrow> bool" where
  "apart a b \<longleftrightarrow> \<not> (mh_start a \<le> mh_end b \<and> mh_start b \<le> mh_end a)"

definition protected :: "wire_state \<Rightarrow> bool" where
  "protected w \<longleftrightarrow> (case hp_key w of None \<Rightarrow> False | Some key \<Rightarrow> \<not> key_IsZero key)"

definition pad_ok :: "bool \<Rightarrow> int \<Rightarrow> nat \<Rightarrow> bool" where
  "pad_ok prot p core \<longleftrightarrow> 0 \<le> p \<and> p + int core \<le> awgMaxPacketSize \<and> (prot \<longrightarrow> int HeaderCipherNonceSize \<le> p)"

definition wire_ok :: "wire_state \<Rightarrow> bool" where
  "wire_ok w \<longleftrightarrow>
     (\<exists>hs. [hdr_init w, hdr_response w, hdr_cookie w, hdr_transport w] = map Some hs \<and> list_all header_ok hs \<and> sorted_wrt apart hs) \<and>
     pad_ok (protected w) (pad_init w) MessageInitiationSize \<and> pad_ok (protected w) (pad_response w) MessageResponseSize \<and>
     pad_ok (protected w) (pad_cookie w) MessageCookieReplySize \<and> pad_ok (protected w) (pad_transport w) MessageTransportSize \<and>
     (\<forall>key. hp_key w = Some key \<longrightarrow> length key = 32)"

definition ipc_ok :: "ipcSetDevice \<Rightarrow> bool" where
  "ipc_ok d \<longleftrightarrow>
     (\<forall>h. Some h \<in> set [ipc_hdr_init d, ipc_hdr_response d, ipc_hdr_cookie d, ipc_hdr_transport d] \<longrightarrow> mh_start h \<le> mh_end h) \<and>
     (\<forall>key. headerProtectionKey d = Some key \<longrightarrow> length key = 32)"

lemma awgPacketSize_ok: "snd (awgPacketSize p (int core) 0) \<longleftrightarrow> 0 \<le> p \<and> p + int core \<le> awgMaxPacketSize"
  by (auto simp: awgPacketSize_def awgMaxPacketSize_def MaxMessageSize_def)

lemma check_prefixes_ok: "check_prefixes prot i ps = Inr () \<longleftrightarrow> (\<forall>(p, core) \<in> set ps. pad_ok prot p core)"
  by (induction prot i ps rule: check_prefixes.induct) (auto simp: awgPacketSize_ok pad_ok_def)

lemma check_pairs_ok: "check_pairs h hs = Inr () \<longleftrightarrow> (\<exists>gs. hs = map Some gs \<and> list_all (apart h) gs)"
proof (induction h hs rule: check_pairs.induct)
  case (3 left right rest)
  have "(\<exists>gs. Some right # rest = map Some gs \<and> list_all (apart left) gs) \<longleftrightarrow> apart left right \<and> (\<exists>gs. rest = map Some gs \<and> list_all (apart left) gs)"
    by (auto simp: Cons_eq_map_conv)
  with 3 show ?case by (simp add: apart_def[of left right])
qed auto

lemma full_width: "a \<le> b \<Longrightarrow> (ucast (b :: u32) :: u64) - ucast a + 1 = 2 ^ 32 \<longleftrightarrow> b - a = - 1"
proof -
  assume "a \<le> b"
  then have r: "uint a \<le> uint b" "uint b < 4294967296" "0 \<le> uint a" using uint_lt2p[of b] by (simp_all add: word_le_def)
  have u: "uint (ucast w :: u64) = uint w" for w :: u32 using uint_lt2p[of w] by (simp add: unsigned_ucast_eq take_bit_int_eq_self)
  have "uint ((ucast b :: u64) - ucast a + 1) = uint b - uint a + 1"
  proof -
    have "uint ((ucast b :: u64) - ucast a + 1) = (uint b - uint a + 1) mod 18446744073709551616" by (simp add: uint_word_ariths u mod_simps)
    also have "\<dots> = uint b - uint a + 1" by (rule mod_pos_pos_trivial) (use r in linarith)+
    finally show ?thesis .
  qed
  moreover have "uint (b - a) = uint b - uint a"
  proof -
    have "uint (b - a) = (uint b - uint a) mod 4294967296" by (simp add: uint_word_ariths)
    also have "\<dots> = uint b - uint a" by (rule mod_pos_pos_trivial) (use r in linarith)+
    finally show ?thesis .
  qed
  moreover have "uint (- 1 :: u32) = 4294967295" by code_simp
  ultimately show ?thesis by (auto simp: word_uint_eq_iff)
qed

lemma check_headers_ok:
  assumes "\<forall>h. Some h \<in> set hs \<longrightarrow> mh_start h \<le> mh_end h" "check_headers hs = Inr ()"
  shows "\<exists>gs. hs = map Some gs \<and> list_all header_ok gs \<and> sorted_wrt apart gs"
  using assms
proof (induction hs rule: check_headers.induct)
  case (3 h rest)
  then obtain gs where "rest = map Some gs" "list_all header_ok gs" "sorted_wrt apart gs"
    by (fastforce simp: rbind_eq_Inr split: if_splits)
  moreover have "header_ok h" using 3(2,3) full_width[of "mh_start h" "mh_end h"] by (auto simp: header_ok_def split: if_splits)
  moreover obtain gs' where "rest = map Some gs'" "list_all (apart h) gs'"
    using 3(3) check_pairs_ok[of h rest] by (auto simp: rbind_eq_Inr split: if_splits)
  ultimately show ?case by (intro exI[of _ "h # gs"]) (auto simp: list_all_iff dest: map_injective)
qed auto

lemma wire_ok_headers: "wire_ok w \<Longrightarrow> Some h \<in> set [hdr_init w, hdr_response w, hdr_cookie w, hdr_transport w] \<Longrightarrow> header_ok h"
  unfolding wire_ok_def by (auto simp: list_all_iff)

lemma or_else_cases: "or_else x y = Some h \<Longrightarrow> x = Some h \<or> y = Some h"
  by (auto simp: or_else_def split: if_splits)

text \<open>Whatever is merged, the framing stays well-formed.\<close>

lemma mergeWithDevice_ok:
  assumes "wire_ok w" "ipc_ok d" "mergeWithDevice d w = (res, d', w')"
  shows "wire_ok w' \<and> ipc_ok d'"
proof -
  define d1 where "d1 = d\<lparr>ipc_hdr_init := or_else (ipc_hdr_init d) (hdr_init w), ipc_hdr_response := or_else (ipc_hdr_response d) (hdr_response w),
    ipc_hdr_cookie := or_else (ipc_hdr_cookie d) (hdr_cookie w), ipc_hdr_transport := or_else (ipc_hdr_transport d) (hdr_transport w)\<rparr>"
  have "mh_start h \<le> mh_end h" if "Some h \<in> set [ipc_hdr_init d1, ipc_hdr_response d1, ipc_hdr_cookie d1, ipc_hdr_transport d1]" for h
    using that assms(2) wire_ok_headers[OF assms(1), of h]
    by (auto simp: d1_def ipc_ok_def header_ok_def or_else_def split: if_splits)
  then have d1: "ipc_ok d1" using assms(2) by (simp add: ipc_ok_def d1_def)
  let ?w = "w\<lparr>hdr_init := ipc_hdr_init d1, hdr_response := ipc_hdr_response d1, hdr_cookie := ipc_hdr_cookie d1,
    hdr_transport := ipc_hdr_transport d1, pad_init := ipc_pad_init d1, pad_response := ipc_pad_response d1,
    pad_cookie := ipc_pad_cookie d1, pad_transport := ipc_pad_transport d1, hp_key := headerProtectionKey d1\<rparr>"
  have "wire_ok ?w"
    if "check_prefixes (case headerProtectionKey d of None \<Rightarrow> False | Some key \<Rightarrow> \<not> key_IsZero key) 0
          [(ipc_pad_init d, MessageInitiationSize), (ipc_pad_response d, MessageResponseSize),
           (ipc_pad_cookie d, MessageCookieReplySize), (ipc_pad_transport d, MessageTransportSize)] = Inr ()"
      "check_headers [ipc_hdr_init d1, ipc_hdr_response d1, ipc_hdr_cookie d1, ipc_hdr_transport d1] = Inr ()"
  proof -
    note checks = that
    obtain hs where hs: "[ipc_hdr_init d1, ipc_hdr_response d1, ipc_hdr_cookie d1, ipc_hdr_transport d1] = map Some hs"
        "list_all header_ok hs" "sorted_wrt apart hs"
      using check_headers_ok[OF conjunct1[OF d1[unfolded ipc_ok_def]] checks(2)] by (elim exE conjE) (rule that)
    have "protected ?w \<longleftrightarrow> (case headerProtectionKey d of None \<Rightarrow> False | Some key \<Rightarrow> \<not> key_IsZero key)" by (simp add: protected_def d1_def)
    moreover have "\<exists>hs. [hdr_init ?w, hdr_response ?w, hdr_cookie ?w, hdr_transport ?w] = map Some hs \<and> list_all header_ok hs \<and> sorted_wrt apart hs"
      using hs by (intro exI[of _ hs]) simp
    moreover have "\<forall>key. hp_key ?w = Some key \<longrightarrow> length key = 32" using d1 by (simp add: ipc_ok_def)
    ultimately show ?thesis using checks(1) unfolding check_prefixes_ok wire_ok_def by (simp add: d1_def)
  qed
  then show ?thesis
    using assms d1 by (auto simp: mergeWithDevice_def Let_def d1_def[symmetric] split: sum.splits)
qed

lemma new_wire_ok: "wire_ok new_wire"
  by (auto simp: word_le_def wire_ok_def new_wire_def one_header_def header_ok_def apart_def protected_def pad_ok_def awgMaxPacketSize_def MaxMessageSize_def
      MessageInitiationType_def MessageResponseType_def MessageCookieReplyType_def MessageTransportType_def
      MessageInitiationSize_def MessageResponseSize_def MessageCookieReplySize_def MessageTransportSize_def MessageTransportHeaderSize_def
      intro!: exI[of _ "[_, _, _, _]"])

text \<open>A random source that gives numbers below the bound.\<close>

definition random_below :: "(nat \<Rightarrow> nat option) \<Rightarrow> bool" where
  "random_below r \<longleftrightarrow> (\<forall>n > 0. \<exists>k < n. r n = Some k)"

lemma Validate_plus: "mh_start h \<le> mh_end h \<Longrightarrow> k \<le> mh_end h - mh_start h \<Longrightarrow> Validate h (mh_start h + k)"
proof -
  assume a: "mh_start h \<le> mh_end h" "k \<le> mh_end h - mh_start h"
  then have "unat k \<le> unat (mh_end h) - unat (mh_start h)" "unat (mh_start h) \<le> unat (mh_end h)" by (simp_all add: word_le_nat_alt unat_sub)
  moreover have "unat (mh_end h) < 2 ^ 32" by (rule unat_32)
  ultimately have "unat (mh_start h + k) = unat (mh_start h) + unat k" by (simp add: unat_plus_if')
  with a \<open>unat k \<le> unat (mh_end h) - unat (mh_start h)\<close> show ?thesis by (simp add: Validate_def word_le_nat_alt)
qed

lemma Generate_valid:
  assumes "header_ok h" "random_below r"
  shows "\<exists>v. Generate r h = Some v \<and> Validate h v"
proof -
  define n where "n = unat (mh_end h - mh_start h + 1)"
  have "mh_end h - mh_start h + 1 \<noteq> 0" using assms(1) by (auto simp: header_ok_def eq_neg_iff_add_eq_0)
  then have "n > 0" by (simp add: n_def unat_gt_0)
  then obtain k where k: "k < n" "r n = Some k" using assms(2) by (auto simp: random_below_def)
  have "n = unat (mh_end h - mh_start h) + 1"
    using \<open>n > 0\<close> unat_plus_if'[of "mh_end h - mh_start h" 1] unsigned_less[of "mh_end h - mh_start h", where ?'a = nat]
    by (auto simp: n_def split: if_splits)
  then have "of_nat k \<le> mh_end h - mh_start h" using k(1) by (simp add: word_le_nat_alt unat_of_nat)
  then have "Validate h (mh_start h + of_nat k)" using assms(1) by (rule_tac Validate_plus) (simp_all add: header_ok_def)
  then show ?thesis using k \<open>n > 0\<close> by (auto simp: Generate_def n_def Let_def)
qed

end
