(* ===== verification/Bit_Strings.thy ===== *)
theory Bit_Strings
  imports Byte_Codec
begin

text \<open>
  Byte strings as lists of bits, the most significant first: the reading in which a network prefix is
  a prefix of a list. \<open>bits.LeadingZeros\<close> of the standard library is modelled here.
\<close>

section \<open>Bits\<close>

definition word_bits :: "'a::len word \<Rightarrow> bool list" where
  "word_bits w = map (bit w) (rev [0..<LENGTH('a)])"

definition bytes_bits :: "bytes \<Rightarrow> bool list" where
  "bytes_bits bs = concat (map word_bits bs)"

definition LeadingZeros :: "'a::len word \<Rightarrow> nat" where
  "LeadingZeros w = length (takeWhile Not (word_bits w))"

lemma length_word_bits [simp]: "length (word_bits (w :: 'a::len word)) = LENGTH('a)"
  by (simp add: word_bits_def)

lemma word_bits_nth: "i < LENGTH('a) \<Longrightarrow> word_bits w ! i = bit w (LENGTH('a) - 1 - i)" for w :: "'a::len word"
  by (simp add: word_bits_def rev_nth)

lemma bytes_bits_simps [simp]:
  "bytes_bits [] = []" "bytes_bits (b # bs) = word_bits b @ bytes_bits bs"
  "bytes_bits (xs @ ys) = bytes_bits xs @ bytes_bits ys"
  by (simp_all add: bytes_bits_def)

lemma length_bytes_bits [simp]: "length (bytes_bits bs) = 8 * length bs"
  by (induction bs) simp_all

lemma bit_above: "r < 2 ^ m \<Longrightarrow> m \<le> i \<Longrightarrow> bit (a * 2 ^ m + r) i = bit a (i - m)" for a r :: nat
proof -
  assume r: "r < 2 ^ m" and i: "m \<le> i"
  have "(a * 2 ^ m + r) div 2 ^ i = (a * 2 ^ m + r) div 2 ^ m div 2 ^ (i - m)"
    using i by (simp only: div_mult2_eq[symmetric] power_add[symmetric] le_add_diff_inverse)
  also have "\<dots> = a div 2 ^ (i - m)" using r by simp
  finally show ?thesis by (simp add: bit_iff_odd)
qed

lemma bit_below: "i < m \<Longrightarrow> bit (a * 2 ^ m + r) i = bit r i" for a r :: nat
proof -
  assume "i < m"
  then obtain d where d: "m = i + Suc d" using less_iff_Suc_add[of i m] by auto
  have eq: "a * 2 ^ m + r = r + 2 ^ i * (a * 2 ^ d * 2)" by (simp add: d power_add)
  have "(a * 2 ^ m + r) div 2 ^ i = a * 2 ^ d * 2 + r div 2 ^ i" unfolding eq by (subst div_mult_self2) auto
  then show ?thesis by (simp add: bit_iff_odd)
qed

lemma bytes_bits_nth: "i < 8 * length bs \<Longrightarrow> bytes_bits bs ! i = bit (of_be bs) (8 * length bs - 1 - i)"
proof (induction bs arbitrary: i)
  case (Cons b bs)
  have lt: "of_be bs < 2 ^ (8 * length bs)" using of_be_lt[of bs] by (simp add: power_mult)
  have be: "of_be (b # bs) = unat b * 2 ^ (8 * length bs) + of_be bs" by (simp add: power_mult)
  show ?case
  proof (cases "i < 8")
    case True
    then have "bit (of_be (b # bs)) (8 * length (b # bs) - 1 - i) = bit (unat b) (7 - i)"
      unfolding be by (subst bit_above[OF lt]) (auto intro: arg_cong[of _ _ "bit (unat b)"])
    then show ?thesis using True by (simp add: nth_append word_bits_nth bit_unsigned_iff)
  next
    case False
    then have "bit (of_be (b # bs)) (8 * length (b # bs) - 1 - i) = bit (of_be bs) (8 * length bs - 1 - (i - 8))"
      unfolding be using Cons.prems by (subst bit_below) auto
    then show ?thesis using False Cons by (simp add: nth_append)
  qed
qed simp

lemma word_bits_of_be:
  assumes "8 * length bs = LENGTH('a)"
  shows "word_bits (of_nat (of_be bs) :: 'a::len word) = bytes_bits bs"
proof (rule nth_equalityI)
  fix i assume "i < length (word_bits (of_nat (of_be bs) :: 'a word))"
  then show "word_bits (of_nat (of_be bs) :: 'a word) ! i = bytes_bits bs ! i"
    using assms by (simp add: word_bits_nth bytes_bits_nth bit_of_nat_iff)
qed (simp add: assms)

section \<open>Common prefixes\<close>

fun common_len :: "'a list \<Rightarrow> 'a list \<Rightarrow> nat" where
  "common_len (x # xs) (y # ys) = (if x = y then Suc (common_len xs ys) else 0)"
| "common_len _ _ = 0"

lemma common_len_take: "n \<le> length xs \<Longrightarrow> n \<le> length ys \<Longrightarrow> n \<le> common_len xs ys \<longleftrightarrow> take n xs = take n ys"
proof (induction xs ys arbitrary: n rule: common_len.induct)
  case (1 x xs y ys)
  then show ?case by (cases n) auto
qed auto

lemma common_len_le: "common_len xs ys \<le> length xs" "common_len xs ys \<le> length ys"
  by (induction xs ys rule: common_len.induct) auto

lemma common_len_differ: "common_len xs ys < length xs \<Longrightarrow> common_len xs ys < length ys \<Longrightarrow>
  xs ! common_len xs ys \<noteq> ys ! common_len xs ys"
  by (induction xs ys rule: common_len.induct) auto

lemma common_len_same: "take (common_len xs ys) xs = take (common_len xs ys) ys"
  using common_len_take[of "common_len xs ys" xs ys] common_len_le[of xs ys] by simp

lemma common_len_append:
  "length xs = length ys \<Longrightarrow>
   common_len (xs @ xs') (ys @ ys') = (if xs = ys then length xs + common_len xs' ys' else common_len xs ys)"
  by (induction xs ys rule: list_induct2) auto

lemma LeadingZeros_xor: "LeadingZeros (a XOR b) = common_len (word_bits a) (word_bits b)" for a b :: "'a::len word"
proof -
  have "takeWhile Not (map (bit (a XOR b)) is) = map (bit (a XOR b)) (take (common_len (map (bit a) is) (map (bit b) is)) is)" for "is"
    by (induction "is") (auto simp: bit_xor_iff)
  from arg_cong[OF this[of "rev [0..<LENGTH('a)]"], of length]
  show ?thesis unfolding LeadingZeros_def word_bits_def
    using common_len_le(1)[of "map (bit a) (rev [0..<LENGTH('a)])" "map (bit b) (rev [0..<LENGTH('a)])"] by simp
qed

lemma word_bits_inject: "word_bits a = word_bits b \<longleftrightarrow> a = b" for a b :: "'a::len word"
proof
  assume eq: "word_bits a = word_bits b"
  show "a = b"
  proof (rule bit_word_eqI)
    fix n assume "n < LENGTH('a)"
    then show "bit a n = bit b n" using arg_cong[OF eq, of "\<lambda>l. l ! (LENGTH('a) - 1 - n)"] by (simp add: word_bits_nth)
  qed
qed simp

end
