(* ===== verification/Allowed_IPs.thy ===== *)
theory Allowed_IPs
  imports Bit_Strings
begin

text \<open>
  The table of allowed IPs of WireGuard (\<open>submodules/wireguard-go/device/allowedips.go\<close>): two
  path-compressed tries, one per address family. A trie is a tree here: the pointer to a node, which
  the source keeps in \<open>parent\<close> to be able to replace the node, is the place in the tree that a
  recursive function rebuilds, and \<open>bitAtByte\<close> and \<open>bitAtShift\<close> are computed from \<open>cidr\<close>, which is how
  every node is made. All bit strings have 4 or 16 bytes, so the panic of \<open>commonBits\<close> for other sizes
  does not occur. A peer is any value that can be compared, as a pointer is.
\<close>

section \<open>Nodes\<close>

datatype 'p trie =
    NoNode
  | TrieEntry (t_peer: "'p option") (t_cidr: nat) (t_bits: bytes) (t_child0: "'p trie") (t_child1: "'p trie")

definition commonBits :: "bytes \<Rightarrow> bytes \<Rightarrow> nat" where
  "commonBits ip1 ip2 =
     (if length ip1 = 4 then
        LeadingZeros ((of_nat (of_be (take 4 ip1)) :: u32) XOR of_nat (of_be (take 4 ip2)))
      else
        let x = (of_nat (of_be (take 8 ip1)) :: u64) XOR of_nat (of_be (take 8 ip2))
        in if x \<noteq> 0 then LeadingZeros x
           else 64 + LeadingZeros ((of_nat (of_be (take 8 (drop 8 ip1))) :: u64) XOR of_nat (of_be (take 8 (drop 8 ip2)))))"

definition commonBits4 :: "bytes \<Rightarrow> bytes \<Rightarrow> nat" where
  "commonBits4 ip1 ip2 = LeadingZeros ((of_nat (of_be (take 4 ip1)) :: u32) XOR of_nat (of_be (take 4 ip2)))"

definition commonBits6 :: "bytes \<Rightarrow> bytes \<Rightarrow> nat" where
  "commonBits6 ip1 ip2 =
     (let x = (of_nat (of_be (take 8 ip1)) :: u64) XOR of_nat (of_be (take 8 ip2))
      in if x \<noteq> 0 then LeadingZeros x
         else 64 + LeadingZeros ((of_nat (of_be (take 8 (drop 8 ip1))) :: u64) XOR of_nat (of_be (take 8 (drop 8 ip2)))))"

text \<open>\<open>choose\<close> on a node with the given \<open>cidr\<close>: true for the second child.\<close>

definition bit_at :: "nat \<Rightarrow> bytes \<Rightarrow> bool" where
  "bit_at cidr ip = (drop_bit (7 - cidr mod 8) (ip ! (cidr div 8)) AND 1 = 1)"

text \<open>\<open>net.CIDRMask\<close> by its bytes, and \<open>maskSelf\<close>.\<close>

definition mask_byte :: "nat \<Rightarrow> nat \<Rightarrow> u8" where
  "mask_byte ones i =
     (if 8 * i + 8 \<le> ones then 0xff else if ones \<le> 8 * i then 0 else NOT (drop_bit (ones - 8 * i) 0xff))"

definition maskSelf :: "nat \<Rightarrow> bytes \<Rightarrow> bytes" where
  "maskSelf cidr ip = map2 (\<lambda>i b. b AND mask_byte cidr i) [0..<length ip] ip"

definition new_node :: "'p option \<Rightarrow> nat \<Rightarrow> bytes \<Rightarrow> 'p trie" where
  "new_node peer cidr ip = TrieEntry peer cidr (maskSelf cidr ip) NoNode NoNode"

definition set_child :: "bool \<Rightarrow> 'p trie \<Rightarrow> 'p trie \<Rightarrow> 'p trie" where
  "set_child b c t =
     (case t of NoNode \<Rightarrow> NoNode
      | TrieEntry peer cidr bs l r \<Rightarrow> if b then TrieEntry peer cidr bs l c else TrieEntry peer cidr bs c r)"

section \<open>Operations on a trie\<close>

text \<open>The node at which \<open>nodePlacement\<close> ends, and whether it is exact.\<close>

fun nodePlacement :: "'p trie \<Rightarrow> bytes \<Rightarrow> nat \<Rightarrow> 'p trie \<Rightarrow> 'p trie \<times> bool" where
  "nodePlacement NoNode ip cidr parent = (parent, False)"
| "nodePlacement (TrieEntry p c bs l r) ip cidr parent =
     (if c \<le> cidr \<and> commonBits bs ip \<ge> c then
        if c = cidr then (TrieEntry p c bs l r, True)
        else nodePlacement (if bit_at c ip then r else l) ip cidr (TrieEntry p c bs l r)
      else (parent, False))"

text \<open>\<open>insert\<close>: it goes down as \<open>nodePlacement\<close> does. At an exact node it sets the peer; where it finds no
  node it adds one; and above the node \<open>down\<close> it puts the new node, or a node without a peer for the
  bits that both have in common, with the two below it.\<close>

definition insert_above :: "bytes \<Rightarrow> nat \<Rightarrow> 'p \<Rightarrow> 'p trie \<Rightarrow> 'p trie" where
  "insert_above ip cidr peer down =
     (let newNode = new_node (Some peer) cidr ip;
          common = commonBits (t_bits down) ip;
          cidr' = (if common < cidr then common else cidr)
      in if cidr = cidr' then set_child (bit_at cidr (t_bits down)) down newNode
         else let node = new_node None cidr' (t_bits newNode)
              in set_child (bit_at cidr' (t_bits newNode)) newNode (set_child (bit_at cidr' (t_bits down)) down node))"

fun trie_insert :: "bytes \<Rightarrow> nat \<Rightarrow> 'p \<Rightarrow> 'p trie \<Rightarrow> 'p trie" where
  "trie_insert ip cidr peer NoNode = new_node (Some peer) cidr ip"
| "trie_insert ip cidr peer (TrieEntry p c bs l r) =
     (if c \<le> cidr \<and> commonBits bs ip \<ge> c then
        if c = cidr then TrieEntry (Some peer) c bs l r
        else if bit_at c ip then TrieEntry p c bs l (trie_insert ip cidr peer r)
        else TrieEntry p c bs (trie_insert ip cidr peer l) r
      else insert_above ip cidr peer (TrieEntry p c bs l r))"

fun lookup4 :: "'p option \<Rightarrow> 'p trie \<Rightarrow> bytes \<Rightarrow> 'p option" where
  "lookup4 found NoNode ip = found"
| "lookup4 found (TrieEntry p c bs l r) ip =
     (if commonBits4 bs ip \<ge> c then
        let found' = (if p \<noteq> None then p else found)
        in if c div 8 = 4 then found' else lookup4 found' (if bit_at c ip then r else l) ip
      else found)"

fun lookup6 :: "'p option \<Rightarrow> 'p trie \<Rightarrow> bytes \<Rightarrow> 'p option" where
  "lookup6 found NoNode ip = found"
| "lookup6 found (TrieEntry p c bs l r) ip =
     (if commonBits6 bs ip \<ge> c then
        let found' = (if p \<noteq> None then p else found)
        in if c div 8 = 16 then found' else lookup6 found' (if bit_at c ip then r else l) ip
      else found)"

fun trie_lookup :: "'p option \<Rightarrow> 'p trie \<Rightarrow> bytes \<Rightarrow> 'p option" where
  "trie_lookup found NoNode ip = found"
| "trie_lookup found (TrieEntry p c bs l r) ip =
     (if commonBits bs ip \<ge> c then
        let found' = (if p \<noteq> None then p else found)
        in if c div 8 = length ip then found' else trie_lookup found' (if bit_at c ip then r else l) ip
      else found)"

text \<open>\<open>remove\<close> on the exact node of a prefix, when its peer is the given one: the node loses its peer, and
  stays if it has two children; else its child takes its place. When it has no child, its parent goes
  as well if it has no peer, and the other child of the parent takes the place. The flag tells the
  parent that the node was removed and had no child.\<close>

definition remove_here :: "'p trie \<Rightarrow> 'p trie \<times> bool" where
  "remove_here t =
     (case t of
        NoNode \<Rightarrow> (NoNode, False)
      | TrieEntry p c bs l r \<Rightarrow>
          if l \<noteq> NoNode \<and> r \<noteq> NoNode then (TrieEntry None c bs l r, False)
          else let child = (if l = NoNode then r else l) in (child, child = NoNode))"

definition collapse :: "'p option \<Rightarrow> nat \<Rightarrow> bytes \<Rightarrow> bool \<Rightarrow> 'p trie \<times> bool \<Rightarrow> 'p trie \<Rightarrow> 'p trie \<times> bool" where
  "collapse p c bs b child' sibling =
     (let (t, gone) = child'
      in if gone \<and> p = None then (sibling, False)
         else (if b then TrieEntry p c bs sibling t else TrieEntry p c bs t sibling, False))"

fun remove_at :: "bytes \<Rightarrow> nat \<Rightarrow> 'p \<Rightarrow> 'p trie \<Rightarrow> 'p trie \<times> bool" where
  "remove_at ip cidr peer NoNode = (NoNode, False)"
| "remove_at ip cidr peer (TrieEntry p c bs l r) =
     (if c \<le> cidr \<and> commonBits bs ip \<ge> c then
        if c = cidr then
          if p = Some peer then remove_here (TrieEntry p c bs l r) else (TrieEntry p c bs l r, False)
        else if bit_at c ip then collapse p c bs True (remove_at ip cidr peer r) l
        else collapse p c bs False (remove_at ip cidr peer l) r
      else (TrieEntry p c bs l r, False))"

definition trie_remove :: "bytes \<Rightarrow> nat \<Rightarrow> 'p \<Rightarrow> 'p trie \<Rightarrow> 'p trie" where
  "trie_remove ip cidr peer t = fst (remove_at ip cidr peer t)"

section \<open>Addresses as lists of bits\<close>

lemma bytes_bits_split: "i < 8 * length ip \<Longrightarrow> bytes_bits ip ! i = word_bits (ip ! (i div 8)) ! (i mod 8)"
proof (induction ip arbitrary: i)
  case (Cons b ip)
  show ?case
  proof (cases "i < 8")
    case False
    then have "i = (i - 8) + 8" by simp
    then have "i div 8 = Suc ((i - 8) div 8)" "i mod 8 = (i - 8) mod 8" by (metis div_add_self2 zero_neq_numeral Suc_eq_plus1, metis mod_add_self2)
    then show ?thesis using False Cons by (simp add: nth_append)
  qed (simp add: nth_append)
qed simp

lemma bit_at_eq: "cidr < 8 * length ip \<Longrightarrow> bit_at cidr ip = bytes_bits ip ! cidr"
  by (simp add: bytes_bits_split word_bits_nth bit_at_def and_one_eq bit_iff_odd_drop_bit odd_iff_mod_2_eq_one)

lemma word_xor_0: "a XOR b = 0 \<longleftrightarrow> a = b" for a b :: "'a::len word"
  by (metis xor.assoc xor.left_neutral xor_self_eq)

lemma commonBits4_eq:
  "length a = 4 \<Longrightarrow> length b = 4 \<Longrightarrow> commonBits4 a b = common_len (bytes_bits a) (bytes_bits b)"
  by (simp add: commonBits4_def LeadingZeros_xor word_bits_of_be)

lemma commonBits6_eq:
  assumes "length a = 16" "length b = 16"
  shows "commonBits6 a b = common_len (bytes_bits a) (bytes_bits b)"
proof -
  have split: "bytes_bits x = bytes_bits (take 8 x) @ bytes_bits (take 8 (drop 8 x))" if "length x = 16" for x
    using that by (simp flip: bytes_bits_simps(3))
  let ?hi = "\<lambda>x. of_nat (of_be (take 8 x)) :: u64"
  have "?hi a XOR ?hi b = 0 \<longleftrightarrow> bytes_bits (take 8 a) = bytes_bits (take 8 b)"
    using word_bits_inject[of "?hi a" "?hi b"] assms by (simp add: word_bits_of_be word_xor_0)
  then show ?thesis unfolding split[OF assms(1)] split[OF assms(2)]
    using assms by (simp add: commonBits6_def Let_def LeadingZeros_xor word_bits_of_be common_len_append del: bytes_bits_simps(3))
qed

lemma commonBits_eq:
  assumes "length a = length b" "length a = 4 \<or> length a = 16"
  shows "commonBits a b = common_len (bytes_bits a) (bytes_bits b)"
proof -
  have "commonBits a b = (if length a = 4 then commonBits4 a b else commonBits6 a b)"
    by (simp add: commonBits_def commonBits4_def commonBits6_def)
  then show ?thesis using assms by (auto simp: commonBits4_eq commonBits6_eq)
qed

lemma bit_mask_byte:
  assumes "j < 8"
  shows "bit (mask_byte ones i) (7 - j) \<longleftrightarrow> 8 * i + j < ones"
proof -
  have ff: "(0xff :: u8) = mask 8" by (simp add: mask_eq_decr_exp)
  show ?thesis using assms unfolding mask_byte_def ff by (auto simp: bit_simps)
qed

lemma length_maskSelf [simp]: "length (maskSelf cidr ip) = length ip"
  by (simp add: maskSelf_def)

lemma maskSelf_bits:
  assumes "cidr \<le> 8 * length ip"
  shows "bytes_bits (maskSelf cidr ip) = take cidr (bytes_bits ip) @ replicate (8 * length ip - cidr) False"
proof (rule nth_equalityI)
  fix i assume "i < length (bytes_bits (maskSelf cidr ip))"
  then have i: "i < 8 * length ip" by simp
  then have "i div 8 < length ip" by simp
  then have "bytes_bits (maskSelf cidr ip) ! i = word_bits (ip ! (i div 8) AND mask_byte cidr (i div 8)) ! (i mod 8)"
    using i by (simp add: bytes_bits_split maskSelf_def)
  also have "\<dots> = (bytes_bits ip ! i \<and> i < cidr)"
    using i by (simp add: word_bits_nth bit_and_iff bit_mask_byte bytes_bits_split)
  finally show "bytes_bits (maskSelf cidr ip) ! i = (take cidr (bytes_bits ip) @ replicate (8 * length ip - cidr) False) ! i"
    using i assms by (simp add: nth_append)
qed (use assms in simp)

end
