(* ===== verification/Allowed_Routes.thy ===== *)
theory Allowed_Routes
  imports Allowed_IPs
begin

text \<open>
  What a trie of allowed IPs stands for: a finite map from network prefixes, as lists of bits, to
  peers. Insertion and removal update the map at one prefix, and a lookup finds the peer of the
  longest prefix of the address.
\<close>

section \<open>The map of a trie\<close>

fun routes :: "'p trie \<Rightarrow> bool list \<Rightarrow> 'p option" where
  "routes NoNode k = None"
| "routes (TrieEntry p c bs l r) k =
     (if length k < c \<or> take c k \<noteq> take c (bytes_bits bs) then None
      else if length k = c then p
      else routes (if k ! c then r else l) k)"

text \<open>Well-formed tries for addresses of \<open>n\<close> bytes whose bits start with \<open>pre\<close>: each node has the bits of
  its parent and the bit of its side, the bits beyond \<open>cidr\<close> are clear, and a node without a peer has
  two children.\<close>

fun trie_ok :: "nat \<Rightarrow> bool list \<Rightarrow> 'p trie \<Rightarrow> bool" where
  "trie_ok n pre NoNode \<longleftrightarrow> True"
| "trie_ok n pre (TrieEntry p c bs l r) \<longleftrightarrow>
     length bs = n \<and> length pre \<le> c \<and> c \<le> 8 * n \<and> take (length pre) (bytes_bits bs) = pre \<and>
     bytes_bits bs = take c (bytes_bits bs) @ replicate (8 * n - c) False \<and>
     trie_ok n (take c (bytes_bits bs) @ [False]) l \<and> trie_ok n (take c (bytes_bits bs) @ [True]) r \<and>
     (p = None \<longrightarrow> l \<noteq> NoNode \<and> r \<noteq> NoNode)"

definition address_size :: "nat \<Rightarrow> bool" where
  "address_size n \<longleftrightarrow> n = 4 \<or> n = 16"

lemma trie_ok_weaken:
  assumes "trie_ok n pre t" "take k pre = pre'" "k \<le> length pre"
  shows "trie_ok n pre' t"
proof (cases t)
  case (TrieEntry p c bs l r)
  have "take k (bytes_bits bs) = pre'" using assms TrieEntry by (metis take_take min.absorb1 trie_ok.simps(2))
  then show ?thesis using assms TrieEntry by auto
qed simp

lemma routes_prefix: "trie_ok n pre t \<Longrightarrow> routes t k \<noteq> None \<Longrightarrow> length pre \<le> length k \<and> take (length pre) k = pre"
proof (cases t)
  case (TrieEntry p c bs l r)
  assume ok: "trie_ok n pre t" and k: "routes t k \<noteq> None"
  then have "c \<le> length k" "take c k = take c (bytes_bits bs)" "length pre \<le> c" "take (length pre) (bytes_bits bs) = pre"
    using TrieEntry by (auto split: if_splits)
  then show ?thesis by (metis le_trans min.absorb1 take_take)
qed simp

lemma routes_length: "trie_ok n pre t \<Longrightarrow> routes t k \<noteq> None \<Longrightarrow> length k \<le> 8 * n"
proof (induction t arbitrary: pre)
  case (TrieEntry p c bs l r)
  then show ?case by (auto split: if_splits)
qed simp

text \<open>A trie below a bit has no route that has the other bit, and none as short as the bits above it.\<close>

lemma routes_other_side: "trie_ok n (pre @ [b]) t \<Longrightarrow> k ! length pre \<noteq> b \<or> length k \<le> length pre \<Longrightarrow> routes t k = None"
  using routes_prefix[of n "pre @ [b]" t k] by (cases "routes t k") (auto simp: take_Suc_conv_app_nth)

lemma bit_bytes_at: "length ip = n \<Longrightarrow> c < 8 * n \<Longrightarrow> bit_at c ip = bytes_bits ip ! c"
  by (simp add: bit_at_eq)

lemma common_ge:
  assumes "address_size n" "length bs = n" "length ip = n" "c \<le> 8 * n"
  shows "c \<le> commonBits bs ip \<longleftrightarrow> take c (bytes_bits bs) = take c (bytes_bits ip)"
  using assms commonBits_eq[of bs ip] common_len_take[of c "bytes_bits bs" "bytes_bits ip"]
  by (auto simp: address_size_def)

section \<open>Insertion\<close>

lemma new_node_ok:
  assumes "length ip = n" "cidr \<le> 8 * n" "length pre \<le> cidr" "take (length pre) (bytes_bits ip) = pre" "length pre \<le> 8 * n"
  shows "trie_ok n pre (new_node (Some peer) cidr ip)"
  using assms by (auto simp: new_node_def maskSelf_bits min_def)

lemma new_node_routes:
  assumes "length ip = n" "cidr \<le> 8 * n"
  shows "routes (new_node (Some peer) cidr ip) = (\<lambda>_. None)(take cidr (bytes_bits ip) := Some peer)"
  using assms by (auto simp: new_node_def maskSelf_bits fun_eq_iff)

lemma trie_ok_rebase:
  "trie_ok n pre (TrieEntry p c bs l r) \<Longrightarrow> length pre' \<le> c \<Longrightarrow> take (length pre') (bytes_bits bs) = pre' \<Longrightarrow>
   trie_ok n pre' (TrieEntry p c bs l r)"
  by simp

lemma take_Suc_bits: "m < 8 * length bs \<Longrightarrow> take m (bytes_bits bs) @ [bytes_bits bs ! m] = take (Suc m) (bytes_bits bs)"
  by (simp add: take_Suc_conv_app_nth)

text \<open>A node above two tries that differ at its bit, and its map.\<close>

lemma routes_above:
  assumes "trie_ok n (pre @ [False]) l" "trie_ok n (pre @ [True]) r" "length pre = m" "take m (bytes_bits bs) = pre"
  shows "routes (TrieEntry p m bs l r) k =
    (if k = pre then p else if length k > m \<and> take m k = pre then routes (if k ! m then r else l) k else None)"
  using assms by auto

lemma routes_under: "trie_ok n pre t \<Longrightarrow> routes t k = (if length pre \<le> length k \<and> take (length pre) k = pre then routes t k else None)"
  using routes_prefix[of n pre t k] by (cases "routes t k") auto

lemma insert_new_above:
  assumes len: "length ip = n" and cidr: "cidr \<le> 8 * n" "length pre \<le> cidr" and pre: "take (length pre) (bytes_bits ip) = pre"
    and ok: "trie_ok n pre (TrieEntry p c bs l r)" and lt: "cidr < c" and eq: "take cidr (bytes_bits bs) = take cidr (bytes_bits ip)"
  shows "trie_ok n pre (set_child (bytes_bits bs ! cidr) (TrieEntry p c bs l r) (new_node (Some peer) cidr ip)) \<and>
    routes (set_child (bytes_bits bs ! cidr) (TrieEntry p c bs l r) (new_node (Some peer) cidr ip)) =
      (routes (TrieEntry p c bs l r))(take cidr (bytes_bits ip) := Some peer)"
proof -
  let ?down = "TrieEntry p c bs l r" and ?B = "bytes_bits ip" and ?D = "bytes_bits bs"
  let ?b = "?D ! cidr"
  have c: "c \<le> 8 * n" "length bs = n" using ok by auto
  have down: "trie_ok n (take cidr ?B @ [?b]) ?down"
    by (rule trie_ok_rebase[OF ok]) (use lt c eq take_Suc_bits[of cidr bs] in \<open>auto simp: min_def\<close>)
  have mask: "take cidr (bytes_bits (maskSelf cidr ip)) = take cidr ?B" using cidr len by (simp add: maskSelf_bits)
  define l' where "l' = (if ?b then NoNode else ?down)"
  define r' where "r' = (if ?b then ?down else NoNode)"
  have t: "set_child ?b ?down (new_node (Some peer) cidr ip) = TrieEntry (Some peer) cidr (maskSelf cidr ip) l' r'"
    by (simp add: set_child_def new_node_def l'_def r'_def)
  have oks: "trie_ok n (take cidr ?B @ [False]) l'" "trie_ok n (take cidr ?B @ [True]) r'"
    using down by (auto simp: l'_def r'_def)
  have "length (take cidr ?B) = cidr" using cidr len by simp
  have "routes (TrieEntry (Some peer) cidr (maskSelf cidr ip) l' r') k = ((routes ?down)(take cidr ?B := Some peer)) k" for k
    unfolding routes_above[OF oks \<open>length (take cidr ?B) = cidr\<close> mask] fun_upd_apply
    using routes_prefix[OF down, of k] \<open>length (take cidr ?B) = cidr\<close>
    by (cases "routes ?down k") (auto simp: l'_def r'_def take_Suc_conv_app_nth simp del: routes.simps(2))
  moreover have "trie_ok n pre (TrieEntry (Some peer) cidr (maskSelf cidr ip) l' r')"
    using oks mask len cidr pre by (auto simp: maskSelf_bits min_def)
  ultimately show ?thesis unfolding t by blast
qed

lemma insert_fork:
  fixes peer :: 'p
  assumes len: "length ip = n" and cidr: "cidr \<le> 8 * n" "length pre \<le> m" and pre: "take (length pre) (bytes_bits ip) = pre"
    and ok: "trie_ok n pre (TrieEntry p c bs l r)" and lt: "m < c" "m < cidr" and eq: "take m (bytes_bits bs) = take m (bytes_bits ip)"
    and differ: "bytes_bits bs ! m \<noteq> bytes_bits ip ! m"
  defines "newNode \<equiv> new_node (Some peer) cidr ip"
  shows "trie_ok n pre (set_child (bytes_bits ip ! m) newNode (set_child (bytes_bits bs ! m) (TrieEntry p c bs l r) (new_node None m (t_bits newNode)))) \<and>
    routes (set_child (bytes_bits ip ! m) newNode (set_child (bytes_bits bs ! m) (TrieEntry p c bs l r) (new_node None m (t_bits newNode)))) =
      (routes (TrieEntry p c bs l r))(take cidr (bytes_bits ip) := Some peer)"
proof -
  let ?down = "TrieEntry p c bs l r" and ?B = "bytes_bits ip" and ?D = "bytes_bits bs"
  have c: "c \<le> 8 * n" "length bs = n" using ok by auto
  have lenB: "length (take m ?B) = m" using lt cidr len by simp
  have down: "trie_ok n (take m ?B @ [?D ! m]) ?down"
    by (rule trie_ok_rebase[OF ok]) (use lt c eq take_Suc_bits[of m bs] in \<open>auto simp: min_def\<close>)
  have newok: "trie_ok n (take m ?B @ [?B ! m]) newNode" unfolding newNode_def
    by (rule new_node_ok) (use lt cidr len take_Suc_bits[of m ip] in \<open>auto simp: min_def\<close>)
  have newr: "routes newNode = (\<lambda>_. None)(take cidr ?B := Some peer)" unfolding newNode_def by (rule new_node_routes[OF len cidr(1)])
  define bits' where "bits' = maskSelf m (maskSelf cidr ip)"
  have len': "length bits' = n" using len by (simp add: bits'_def)
  have mask: "take m (bytes_bits bits') = take m ?B" and full: "bytes_bits bits' = take m (bytes_bits bits') @ replicate (8 * n - m) False"
    using cidr lt len by (simp_all add: bits'_def maskSelf_bits min_def)
  define l' where "l' = (if ?B ! m then ?down else newNode)"
  define r' where "r' = (if ?B ! m then newNode else ?down)"
  have t: "set_child (?B ! m) newNode (set_child (?D ! m) ?down (new_node None m (t_bits newNode))) = TrieEntry None m bits' l' r'"
    using differ by (auto simp: set_child_def new_node_def l'_def r'_def bits'_def newNode_def)
  have oks: "trie_ok n (take m ?B @ [False]) l'" "trie_ok n (take m ?B @ [True]) r'"
    using down newok differ by (auto simp: l'_def r'_def simp del: trie_ok.simps(2))
  have "routes (TrieEntry None m bits' l' r') k = ((routes ?down)(take cidr ?B := Some peer)) k" for k
  proof -
    have side: "take m (take cidr ?B) = take m ?B" "take cidr ?B ! m = ?B ! m" "m < length (take cidr ?B)"
      using lt cidr len by simp_all
    have ne: "take cidr ?B \<noteq> take m ?B" using side(3) lenB by force
    show ?thesis
      unfolding routes_above[OF oks lenB mask] fun_upd_apply
      using routes_prefix[OF down, of k] lenB side ne differ newr
      by (cases "routes ?down k") (auto simp: l'_def r'_def take_Suc_conv_app_nth simp del: routes.simps(2))
  qed
  moreover have "trie_ok n pre (TrieEntry None m bits' l' r')"
  proof -
    have "take (length pre) (bytes_bits bits') = pre" using mask pre cidr(2) by (metis min.absorb1 take_take)
    moreover have "l' \<noteq> NoNode" "r' \<noteq> NoNode" by (auto simp: l'_def r'_def newNode_def new_node_def)
    ultimately show ?thesis using oks mask full len' lt cidr by (simp add: min_def)
  qed
  ultimately show ?thesis unfolding t by blast
qed

lemma insert_above_correct:
  assumes size: "address_size n" and len: "length ip = n" and cidr: "cidr \<le> 8 * n" "length pre \<le> cidr"
    and pre: "take (length pre) (bytes_bits ip) = pre"
    and ok: "trie_ok n pre (TrieEntry p c bs l r)" and stop: "\<not> (c \<le> cidr \<and> c \<le> commonBits bs ip)"
  shows "trie_ok n pre (insert_above ip cidr peer (TrieEntry p c bs l r)) \<and>
    routes (insert_above ip cidr peer (TrieEntry p c bs l r)) = (routes (TrieEntry p c bs l r))(take cidr (bytes_bits ip) := Some peer)"
proof -
  have c: "c \<le> 8 * n" "length bs = n" "length pre \<le> c" "take (length pre) (bytes_bits bs) = pre" using ok by auto
  let ?m = "commonBits bs ip"
  have m: "?m = common_len (bytes_bits bs) (bytes_bits ip)" using commonBits_eq[of bs ip] size c len by (auto simp: address_size_def)
  have eqm: "take ?m (bytes_bits bs) = take ?m (bytes_bits ip)" unfolding m by (rule common_len_same)
  show ?thesis
  proof (cases "?m < cidr")
    case True
    have mc: "?m < c" using stop True by linarith
    have ml: "?m < length (bytes_bits bs)" "?m < length (bytes_bits ip)" using True cidr c len by simp_all
    have differ: "bytes_bits bs ! ?m \<noteq> bytes_bits ip ! ?m" using common_len_differ ml unfolding m by blast
    have pm: "length pre \<le> ?m" using common_ge[OF size c(2) len, of "length pre"] c pre by simp
    have bits: "bit_at ?m bs = bytes_bits bs ! ?m" "bit_at ?m (maskSelf cidr ip) = bytes_bits ip ! ?m"
      using ml c len cidr(1) True by (simp_all add: bit_at_eq maskSelf_bits nth_append)
    have run: "insert_above ip cidr peer (TrieEntry p c bs l r) =
      set_child (bytes_bits ip ! ?m) (new_node (Some peer) cidr ip)
        (set_child (bytes_bits bs ! ?m) (TrieEntry p c bs l r) (new_node None ?m (t_bits (new_node (Some peer) cidr ip))))"
      using True bits by (simp add: insert_above_def Let_def new_node_def)
    show ?thesis unfolding run by (rule insert_fork[OF len cidr(1) pm pre ok mc True eqm differ])
  next
    case False
    then have lt: "cidr < c" using stop by linarith
    have eq: "take cidr (bytes_bits bs) = take cidr (bytes_bits ip)" using common_ge[OF size c(2) len cidr(1)] False by simp
    have "insert_above ip cidr peer (TrieEntry p c bs l r) = set_child (bytes_bits bs ! cidr) (TrieEntry p c bs l r) (new_node (Some peer) cidr ip)"
      using False lt c by (simp add: insert_above_def Let_def bit_at_eq)
    then show ?thesis using insert_new_above[OF len cidr pre ok lt eq] by simp
  qed
qed

lemma trie_insert_node: "trie_insert ip cidr peer t \<noteq> NoNode"
  by (cases t) (auto simp: insert_above_def set_child_def new_node_def Let_def)

lemma trie_insert_correct:
  assumes size: "address_size n" and len: "length ip = n" and cidr: "cidr \<le> 8 * n"
  shows "trie_ok n pre t \<Longrightarrow> length pre \<le> cidr \<Longrightarrow> take (length pre) (bytes_bits ip) = pre \<Longrightarrow>
    trie_ok n pre (trie_insert ip cidr peer t) \<and> routes (trie_insert ip cidr peer t) = (routes t)(take cidr (bytes_bits ip) := Some peer)"
proof (induction t arbitrary: pre)
  case NoNode
  then show ?case using new_node_ok[OF len cidr, of pre peer] cidr by (auto simp: new_node_routes[OF len cidr] fun_eq_iff)
next
  case (TrieEntry p c bs l r)
  note ok = TrieEntry.prems(1)
  have c: "c \<le> 8 * n" "length bs = n" using ok by auto
  note ge = common_ge[OF size c(2) len c(1)]
  show ?case
  proof (cases "c \<le> cidr \<and> c \<le> commonBits bs ip")
    case False
    have "trie_insert ip cidr peer (TrieEntry p c bs l r) = insert_above ip cidr peer (TrieEntry p c bs l r)"
      by (simp only: trie_insert.simps False if_False)
    then show ?thesis using insert_above_correct[OF size len cidr TrieEntry.prems(2,3) ok False, of peer] by (simp only:)
  next
    case True
    then have eq: "take c (bytes_bits bs) = take c (bytes_bits ip)" using ge by simp
    show ?thesis
    proof (cases "c = cidr")
      case here: True
      then show ?thesis using True ok eq cidr len by (auto simp: fun_eq_iff)
    next
      case False
      then have lt: "c < cidr" using True by simp
      then have b: "bit_at c ip = bytes_bits ip ! c" using cidr len by (simp add: bit_at_eq)
      let ?pre = "take c (bytes_bits bs) @ [bytes_bits ip ! c]"
      have pre: "length ?pre \<le> cidr" "take (length ?pre) (bytes_bits ip) = ?pre"
        using lt cidr c len eq by (simp_all add: take_Suc_conv_app_nth)
      have side: "take c (take cidr (bytes_bits ip)) = take c (bytes_bits bs)" "take cidr (bytes_bits ip) ! c = bytes_bits ip ! c"
        "c < length (take cidr (bytes_bits ip))" using lt cidr len eq by simp_all
      show ?thesis
      proof (cases "bytes_bits ip ! c")
        case right: True
        have okr: "trie_ok n ?pre r" using ok right by simp
        note IH = TrieEntry.IH(2)[OF okr pre]
        show ?thesis using True False b right IH ok side by (auto simp: fun_eq_iff trie_insert_node)
      next
        case left: False
        have okl: "trie_ok n ?pre l" using ok left by simp
        note IH = TrieEntry.IH(1)[OF okl pre]
        show ?thesis using True False b left IH ok side by (auto simp: fun_eq_iff trie_insert_node)
      qed
    qed
  qed
qed

section \<open>Lookup\<close>

text \<open>The longest-prefix match of a map: the peer of the longest prefix of \<open>k\<close> that the map has.\<close>

fun lpm_upto :: "nat \<Rightarrow> (bool list \<Rightarrow> 'p option) \<Rightarrow> bool list \<Rightarrow> 'p option" where
  "lpm_upto 0 m k = m []"
| "lpm_upto (Suc i) m k = (case m (take (Suc i) k) of Some p \<Rightarrow> Some p | None \<Rightarrow> lpm_upto i m k)"

definition lpm :: "(bool list \<Rightarrow> 'p option) \<Rightarrow> bool list \<Rightarrow> 'p option" where
  "lpm m k = lpm_upto (length k) m k"

lemma lpm_upto_cong: "(\<And>j. j \<le> i \<Longrightarrow> m (take j k) = m' (take j k)) \<Longrightarrow> lpm_upto i m k = lpm_upto i m' k"
  by (induction i) (auto split: option.splits)

lemma lpm_upto_short: "(\<And>j. j \<le> i \<Longrightarrow> m (take j k) = None) \<Longrightarrow> lpm_upto i m k = None"
  using lpm_upto_cong[of i m k "\<lambda>_. None"] by (induction i) auto

lemma lpm_node:
  assumes "c \<le> i" "\<And>j. j \<le> i \<Longrightarrow> m (take j k) = (if j < c then None else if j = c then p else m' (take j k))"
    and "\<And>j. j \<le> c \<Longrightarrow> m' (take j k) = None"
  shows "lpm_upto i m k = (case lpm_upto i m' k of Some q \<Rightarrow> Some q | None \<Rightarrow> p)"
  using assms(1,2)
proof (induction rule: dec_induct)
  case base
  have below: "lpm_upto c m' k = None" by (rule lpm_upto_short) (rule assms(3))
  show ?case
  proof (cases c)
    case 0
    then show ?thesis using base[of 0] below by simp
  next
    case (Suc c')
    then have "lpm_upto c' m k = None" using base by (intro lpm_upto_short) simp
    then show ?thesis using Suc base[of c] below by (auto split: option.splits)
  qed
next
  case (step i)
  have "m (take (Suc i) k) = m' (take (Suc i) k)" using step.prems[of "Suc i"] step.hyps by simp
  then show ?case using step by (auto split: option.splits)
qed

lemma trie_lookup_correct:
  assumes size: "address_size n" and len: "length ip = n"
  shows "trie_ok n pre t \<Longrightarrow> trie_lookup found t ip = (case lpm (routes t) (bytes_bits ip) of Some q \<Rightarrow> Some q | None \<Rightarrow> found)"
proof (induction t arbitrary: pre found)
  case NoNode
  then show ?case by (simp add: lpm_def lpm_upto_short)
next
  case (TrieEntry p c bs l r)
  note ok = TrieEntry.prems
  have c: "c \<le> 8 * n" "length bs = n" using ok by auto
  have lenB: "length (bytes_bits ip) = 8 * n" using len by simp
  show ?case
  proof (cases "c \<le> commonBits bs ip")
    case False
    then have "take c (bytes_bits bs) \<noteq> take c (bytes_bits ip)" using common_ge[OF size c(2) len c(1)] by simp
    then have "routes (TrieEntry p c bs l r) (take j (bytes_bits ip)) = None" for j
      by (cases "c \<le> j") (auto simp: min_def split: if_splits)
    then have "lpm (routes (TrieEntry p c bs l r)) (bytes_bits ip) = None" unfolding lpm_def by (intro lpm_upto_short)
    then show ?thesis using False by (simp del: routes.simps(2))
  next
    case True
    then have eq: "take c (bytes_bits bs) = take c (bytes_bits ip)" using common_ge[OF size c(2) len c(1)] by simp
    let ?found = "if p \<noteq> None then p else found"
    show ?thesis
    proof (cases "c = 8 * n")
      case full: True
      have "lpm_upto (8 * n) (routes (TrieEntry p c bs l r)) (bytes_bits ip) = (case lpm_upto (8 * n) (\<lambda>_. None) (bytes_bits ip) of Some q \<Rightarrow> Some q | None \<Rightarrow> p)"
        by (rule lpm_node[of c]) (use full eq lenB in \<open>auto simp: min_def\<close>)
      then have "lpm (routes (TrieEntry p c bs l r)) (bytes_bits ip) = p" using lenB by (simp add: lpm_def lpm_upto_short del: routes.simps(2))
      then show ?thesis using True full len by (auto simp del: routes.simps(2) split: option.splits)
    next
      case False
      then have lt: "c < 8 * n" using c by simp
      let ?b = "bytes_bits ip ! c" let ?ch = "if ?b then r else l"
      have b: "bit_at c ip = ?b" using lt len by (simp add: bit_at_eq)
      have okc: "trie_ok n (take c (bytes_bits ip) @ [?b]) ?ch" using ok eq by auto
      have "lpm_upto (8 * n) (routes (TrieEntry p c bs l r)) (bytes_bits ip) =
          (case lpm_upto (8 * n) (routes ?ch) (bytes_bits ip) of Some q \<Rightarrow> Some q | None \<Rightarrow> p)"
      proof (rule lpm_node[OF c(1)])
        fix j assume "j \<le> 8 * n"
        then show "routes (TrieEntry p c bs l r) (take j (bytes_bits ip)) =
            (if j < c then None else if j = c then p else routes ?ch (take j (bytes_bits ip)))"
          using lt eq lenB by (auto simp: min_def)
      next
        fix j assume "j \<le> c"
        then show "routes ?ch (take j (bytes_bits ip)) = None"
          using routes_other_side[OF okc, of "take j (bytes_bits ip)"] lt lenB by simp
      qed
      then have node: "lpm (routes (TrieEntry p c bs l r)) (bytes_bits ip) =
          (case lpm (routes ?ch) (bytes_bits ip) of Some q \<Rightarrow> Some q | None \<Rightarrow> p)" using lenB by (simp add: lpm_def del: routes.simps(2))
      have IH: "trie_lookup ?found ?ch ip = (case lpm (routes ?ch) (bytes_bits ip) of Some q \<Rightarrow> Some q | None \<Rightarrow> ?found)"
        using TrieEntry.IH okc by (cases ?b) auto
      have "trie_lookup found (TrieEntry p c bs l r) ip = trie_lookup ?found ?ch ip"
        using True lt len b by (auto simp: Let_def)
      then show ?thesis unfolding node IH by (auto split: option.splits)
    qed
  qed
qed

lemma lookup4_eq: "trie_ok 4 pre t \<Longrightarrow> length ip = 4 \<Longrightarrow> lookup4 found t ip = trie_lookup found t ip"
proof (induction t arbitrary: pre found)
  case (TrieEntry p c bs l r)
  have "commonBits4 bs ip = commonBits bs ip" using TrieEntry.prems by (simp add: commonBits4_def commonBits_def)
  then show ?case using TrieEntry by (auto simp: Let_def)
qed simp

lemma lookup6_eq: "trie_ok 16 pre t \<Longrightarrow> length ip = 16 \<Longrightarrow> lookup6 found t ip = trie_lookup found t ip"
proof (induction t arbitrary: pre found)
  case (TrieEntry p c bs l r)
  have "commonBits6 bs ip = commonBits bs ip" using TrieEntry.prems by (simp add: commonBits6_def commonBits_def)
  then show ?case using TrieEntry by (auto simp: Let_def)
qed simp

section \<open>Removal\<close>

definition drop_route :: "bool list \<Rightarrow> 'p \<Rightarrow> (bool list \<Rightarrow> 'p option) \<Rightarrow> bool list \<Rightarrow> 'p option" where
  "drop_route k peer m = (if m k = Some peer then m(k := None) else m)"

lemma remove_here_correct:
  assumes "trie_ok n pre (TrieEntry p c bs l r)"
  shows "trie_ok n pre (fst (remove_here (TrieEntry p c bs l r)))"
    "routes (fst (remove_here (TrieEntry p c bs l r))) = (routes (TrieEntry p c bs l r))(take c (bytes_bits bs) := None)"
    "snd (remove_here (TrieEntry p c bs l r)) \<longleftrightarrow> fst (remove_here (TrieEntry p c bs l r)) = NoNode"
proof -
  let ?D = "bytes_bits bs"
  have c: "length (take c ?D) = c" "length pre \<le> c" "take (length pre) ?D = pre"
    and l: "trie_ok n (take c ?D @ [False]) l" and r: "trie_ok n (take c ?D @ [True]) r" using assms by auto
  have pre: "take (length pre) (take c ?D @ [b]) = pre" for b using c by (simp add: take_append min_def)
  have okl: "trie_ok n pre l" and okr: "trie_ok n pre r"
    by (rule trie_ok_weaken[OF l pre], use c in simp) (rule trie_ok_weaken[OF r pre], use c in simp)
  show "trie_ok n pre (fst (remove_here (TrieEntry p c bs l r)))" using assms okl okr by (simp add: remove_here_def Let_def)
  show "snd (remove_here (TrieEntry p c bs l r)) \<longleftrightarrow> fst (remove_here (TrieEntry p c bs l r)) = NoNode" by (simp add: remove_here_def Let_def)
  have "routes (fst (remove_here (TrieEntry p c bs l r))) k = ((routes (TrieEntry p c bs l r))(take c ?D := None)) k" for k
    using routes_prefix[OF l, of k] routes_prefix[OF r, of k] c(1)
    by (cases "routes l k"; cases "routes r k") (auto simp: remove_here_def Let_def take_Suc_conv_app_nth)
  then show "routes (fst (remove_here (TrieEntry p c bs l r))) = (routes (TrieEntry p c bs l r))(take c (bytes_bits bs) := None)" by blast
qed

text \<open>Rebuilding the parent of a subtrie that has lost routes.\<close>

lemma collapse_correct:
  assumes ok: "trie_ok n pre (TrieEntry p c bs (if b then sib else ch) (if b then ch else sib))"
    and ch: "trie_ok n (take c (bytes_bits bs) @ [b]) (fst ch')" "snd ch' \<longrightarrow> fst ch' = NoNode" "fst ch' = NoNode \<longrightarrow> ch = NoNode \<or> snd ch'"
  shows "trie_ok n pre (fst (collapse p c bs b ch' sib))"
    "routes (fst (collapse p c bs b ch' sib)) =
       (\<lambda>k. if length k > c \<and> take c k = take c (bytes_bits bs) \<and> k ! c = b then routes (fst ch') k
            else routes (TrieEntry p c bs (if b then sib else ch) (if b then ch else sib)) k)"
    "\<not> snd (collapse p c bs b ch' sib)" "fst (collapse p c bs b ch' sib) \<noteq> NoNode"
proof -
  let ?D = "bytes_bits bs"
  obtain t gone where ch': "ch' = (t, gone)" by (cases ch')
  have c: "length (take c ?D) = c" "length pre \<le> c" "take (length pre) ?D = pre"
    and sib: "trie_ok n (take c ?D @ [\<not> b]) sib" and both: "p = None \<longrightarrow> ch \<noteq> NoNode \<and> sib \<noteq> NoNode" using ok by (auto split: if_splits)
  have pre: "take (length pre) (take c ?D @ [\<not> b]) = pre" using c by (simp add: take_append min_def)
  have sibok: "trie_ok n pre sib" by (rule trie_ok_weaken[OF sib pre]) (use c in simp)
  show "trie_ok n pre (fst (collapse p c bs b ch' sib))" using ok ch sibok both by (cases b) (auto simp: collapse_def ch')
  show "\<not> snd (collapse p c bs b ch' sib)" "fst (collapse p c bs b ch' sib) \<noteq> NoNode" using both by (auto simp: collapse_def ch')
  have "routes (fst (collapse p c bs b ch' sib)) k =
      (if length k > c \<and> take c k = take c ?D \<and> k ! c = b then routes t k
       else routes (TrieEntry p c bs (if b then sib else ch) (if b then ch else sib)) k)" for k
    using routes_prefix[OF sib, of k] c(1) ch(2)
    by (cases "routes sib k") (auto simp: collapse_def ch' take_Suc_conv_app_nth)
  then show "routes (fst (collapse p c bs b ch' sib)) =
       (\<lambda>k. if length k > c \<and> take c k = take c ?D \<and> k ! c = b then routes (fst ch') k
            else routes (TrieEntry p c bs (if b then sib else ch) (if b then ch else sib)) k)" by (simp add: ch' fun_eq_iff)
qed

lemma remove_at_correct:
  assumes size: "address_size n" and len: "length ip = n" and cidr: "cidr \<le> 8 * n"
  shows "trie_ok n pre t \<Longrightarrow> length pre \<le> cidr \<Longrightarrow> take (length pre) (bytes_bits ip) = pre \<Longrightarrow>
    trie_ok n pre (fst (remove_at ip cidr peer t)) \<and>
    routes (fst (remove_at ip cidr peer t)) = drop_route (take cidr (bytes_bits ip)) peer (routes t) \<and>
    (snd (remove_at ip cidr peer t) \<longrightarrow> fst (remove_at ip cidr peer t) = NoNode) \<and>
    (fst (remove_at ip cidr peer t) = NoNode \<longrightarrow> t = NoNode \<or> snd (remove_at ip cidr peer t))"
proof (induction t arbitrary: pre)
  case NoNode
  then show ?case by (simp add: drop_route_def fun_eq_iff)
next
  case (TrieEntry p c bs l r)
  note ok = TrieEntry.prems(1)
  let ?t = "TrieEntry p c bs l r" and ?K = "take cidr (bytes_bits ip)"
  have c: "c \<le> 8 * n" "length bs = n" using ok by auto
  have lenK: "length ?K = cidr" using cidr len by simp
  show ?case
  proof (cases "c \<le> cidr \<and> c \<le> commonBits bs ip")
    case False
    have "routes ?t ?K = None"
      using False common_ge[OF size c(2) len c(1)] lenK by (cases "c \<le> cidr") (auto simp: min_def)
    then have "drop_route ?K peer (routes ?t) = routes ?t" unfolding drop_route_def by (simp only: option.distinct if_False)
    moreover have "remove_at ip cidr peer ?t = (?t, False)" using False by (simp only: remove_at.simps if_False)
    ultimately show ?thesis using ok by (simp only: fst_conv snd_conv trie.distinct simp_thms)
  next
    case True
    then have eq: "take c (bytes_bits bs) = take c (bytes_bits ip)" using common_ge[OF size c(2) len c(1)] by simp
    show ?thesis
    proof (cases "c = cidr")
      case here: True
      have K: "routes ?t ?K = p" using here eq lenK by auto
      have run: "remove_at ip cidr peer ?t = (if p = Some peer then remove_here ?t else (?t, False))" using True here by simp
      note rh = remove_here_correct[OF ok]
      have KD: "take c (bytes_bits bs) = ?K" using here eq by simp
      show ?thesis
      proof (cases "p = Some peer")
        case True
        then show ?thesis unfolding run drop_route_def K using rh unfolding KD by (simp only: simp_thms if_True) blast
      next
        case False
        then show ?thesis unfolding run drop_route_def K using ok by (simp only: if_False fst_conv snd_conv trie.distinct simp_thms)
      qed
    next
      case False
      then have lt: "c < cidr" using True by simp
      let ?b = "bytes_bits ip ! c"
      have b: "bit_at c ip = ?b" using lt cidr len by (simp add: bit_at_eq)
      let ?pre = "take c (bytes_bits bs) @ [?b]"
      let ?ch = "if ?b then r else l" and ?sib = "if ?b then l else r"
      have pre: "length ?pre \<le> cidr" "take (length ?pre) (bytes_bits ip) = ?pre"
        using lt cidr c len eq by (simp_all add: take_Suc_conv_app_nth)
      have okc: "trie_ok n ?pre ?ch" using ok by auto
      have IH: "trie_ok n ?pre (fst (remove_at ip cidr peer ?ch)) \<and>
          routes (fst (remove_at ip cidr peer ?ch)) = drop_route ?K peer (routes ?ch) \<and>
          (snd (remove_at ip cidr peer ?ch) \<longrightarrow> fst (remove_at ip cidr peer ?ch) = NoNode) \<and>
          (fst (remove_at ip cidr peer ?ch) = NoNode \<longrightarrow> ?ch = NoNode \<or> snd (remove_at ip cidr peer ?ch))"
      proof (cases ?b)
        case right: True
        then have chr: "?ch = r" by simp
        show ?thesis using TrieEntry.IH(2)[OF _ pre] okc unfolding chr by blast
      next
        case left: False
        then have chl: "?ch = l" by simp
        show ?thesis using TrieEntry.IH(1)[OF _ pre] okc unfolding chl by blast
      qed
      have same: "TrieEntry p c bs (if ?b then ?sib else ?ch) (if ?b then ?ch else ?sib) = ?t" by simp
      have run: "remove_at ip cidr peer ?t = collapse p c bs ?b (remove_at ip cidr peer ?ch) ?sib"
        using True False b by simp
      have ih: "trie_ok n ?pre (fst (remove_at ip cidr peer ?ch))"
        "routes (fst (remove_at ip cidr peer ?ch)) = drop_route ?K peer (routes ?ch)"
        "snd (remove_at ip cidr peer ?ch) \<longrightarrow> fst (remove_at ip cidr peer ?ch) = NoNode"
        "fst (remove_at ip cidr peer ?ch) = NoNode \<longrightarrow> ?ch = NoNode \<or> snd (remove_at ip cidr peer ?ch)" using IH by blast+
      note col = collapse_correct[of n pre p c bs ?b ?sib ?ch "remove_at ip cidr peer ?ch", unfolded same, OF ok ih(1,3,4)]
      have K: "routes ?t ?K = routes ?ch ?K" "c < length ?K" "take c ?K = take c (bytes_bits bs)" "?K ! c = ?b"
        using lt lenK eq cidr len by auto
      have "(\<lambda>k. if length k > c \<and> take c k = take c (bytes_bits bs) \<and> k ! c = ?b
            then drop_route ?K peer (routes ?ch) k else routes ?t k) = drop_route ?K peer (routes ?t)"
        using K by (auto simp: drop_route_def fun_eq_iff)
      then have "routes (fst (remove_at ip cidr peer ?t)) = drop_route ?K peer (routes ?t)" unfolding run col(2) ih(2) .
      then show ?thesis using col(1,3,4) unfolding run by blast
    qed
  qed
qed

lemma trie_remove_correct:
  assumes "address_size n" "length ip = n" "cidr \<le> 8 * n" "trie_ok n [] t"
  shows "trie_ok n [] (trie_remove ip cidr peer t)"
    "routes (trie_remove ip cidr peer t) = drop_route (take cidr (bytes_bits ip)) peer (routes t)"
  using remove_at_correct[OF assms(1-4)] by (simp_all add: trie_remove_def)

end
