(* ===== verification/Allowed_Table.thy ===== *)
theory Allowed_Table
  imports Allowed_Routes
begin

text \<open>
  The methods of \<open>AllowedIPs\<close> on its two tries and on the list of nodes that each peer keeps
  (\<open>peer.trieEntries\<close>). A node is named by its bits and its length, which no other node of the
  table has. A panic is \<open>None\<close>.
\<close>

section \<open>The table\<close>

record 'p allowedIPs =
  ipv4 :: "'p trie"
  ipv6 :: "'p trie"
  trieEntries :: "'p \<Rightarrow> (bytes \<times> nat) list"

definition no_allowedIPs :: "'p allowedIPs" where
  "no_allowedIPs = \<lparr>ipv4 = NoNode, ipv6 = NoNode, trieEntries = (\<lambda>_. [])\<rparr>"

text \<open>\<open>Addr.As4\<close> of an IPv4 address and \<open>Addr.As16\<close>.\<close>

fun addr_As4 :: "addr \<Rightarrow> bytes" where
  "addr_As4 (Addr4 w) = be_bytes 4 w"
| "addr_As4 _ = replicate 4 0"

fun addr_As16 :: "addr \<Rightarrow> bytes" where
  "addr_As16 (Addr6 w z) = be_bytes 16 w"
| "addr_As16 (Addr4 w) = replicate 10 0 @ [0xff, 0xff] @ be_bytes 4 w"
| "addr_As16 NoAddr = replicate 16 0"

definition removeFromPeerEntries :: "'p trie \<Rightarrow> ('p \<Rightarrow> (bytes \<times> nat) list) \<Rightarrow> ('p \<Rightarrow> (bytes \<times> nat) list)" where
  "removeFromPeerEntries node es =
     (case t_peer node of None \<Rightarrow> es | Some p \<Rightarrow> es(p := remove1 (t_bits node, t_cidr node) (es p)))"

definition addToPeerEntries :: "'p \<Rightarrow> bytes \<times> nat \<Rightarrow> ('p \<Rightarrow> (bytes \<times> nat) list) \<Rightarrow> ('p \<Rightarrow> (bytes \<times> nat) list)" where
  "addToPeerEntries p e es = es(p := es p @ [e])"

text \<open>What \<open>insert\<close> does with the lists: an exact node moves to the new peer, a new node is added.\<close>

definition insert_entries :: "bytes \<Rightarrow> nat \<Rightarrow> 'p \<Rightarrow> 'p trie \<Rightarrow> ('p \<Rightarrow> (bytes \<times> nat) list) \<Rightarrow> ('p \<Rightarrow> (bytes \<times> nat) list)" where
  "insert_entries ip cidr peer t es =
     (let (node, exact) = nodePlacement t ip cidr NoNode
      in if exact then addToPeerEntries peer (t_bits node, t_cidr node) (removeFromPeerEntries node es)
         else addToPeerEntries peer (maskSelf cidr ip, cidr) es)"

definition insertLocked :: "prefix \<Rightarrow> 'p \<Rightarrow> 'p allowedIPs \<Rightarrow> 'p allowedIPs option" where
  "insertLocked p peer T =
     (let cidr = unat (of_int (prefix_Bits p) :: u8)
      in if addr_Is6 (prefix_Addr p) then
           let ip = addr_As16 (prefix_Addr p)
           in Some (T\<lparr>ipv6 := trie_insert ip cidr peer (ipv6 T), trieEntries := insert_entries ip cidr peer (ipv6 T) (trieEntries T)\<rparr>)
         else if addr_Is4 (prefix_Addr p) then
           let ip = addr_As4 (prefix_Addr p)
           in Some (T\<lparr>ipv4 := trie_insert ip cidr peer (ipv4 T), trieEntries := insert_entries ip cidr peer (ipv4 T) (trieEntries T)\<rparr>)
         else None)"

definition remove_entries :: "bytes \<Rightarrow> nat \<Rightarrow> 'p \<Rightarrow> 'p trie \<Rightarrow> ('p \<Rightarrow> (bytes \<times> nat) list) \<Rightarrow> ('p \<Rightarrow> (bytes \<times> nat) list)" where
  "remove_entries ip cidr peer t es =
     (let (node, exact) = nodePlacement t ip cidr NoNode
      in if exact \<and> t_peer node = Some peer then removeFromPeerEntries node es else es)"

definition Table_Remove :: "prefix \<Rightarrow> 'p \<Rightarrow> 'p allowedIPs \<Rightarrow> 'p allowedIPs option" where
  "Table_Remove p peer T =
     (let cidr = unat (of_int (prefix_Bits p) :: u8)
      in if addr_Is6 (prefix_Addr p) then
           let ip = addr_As16 (prefix_Addr p)
           in Some (T\<lparr>ipv6 := trie_remove ip cidr peer (ipv6 T), trieEntries := remove_entries ip cidr peer (ipv6 T) (trieEntries T)\<rparr>)
         else if addr_Is4 (prefix_Addr p) then
           let ip = addr_As4 (prefix_Addr p)
           in Some (T\<lparr>ipv4 := trie_remove ip cidr peer (ipv4 T), trieEntries := remove_entries ip cidr peer (ipv4 T) (trieEntries T)\<rparr>)
         else None)"

text \<open>\<open>remove\<close> of a node that is in the list of a peer; the length of its bits tells the trie it is in.\<close>

definition remove_entry :: "'p \<Rightarrow> bytes \<times> nat \<Rightarrow> 'p allowedIPs \<Rightarrow> 'p allowedIPs" where
  "remove_entry peer e T =
     (let (bs, c) = e;
          T1 = T\<lparr>trieEntries := (trieEntries T)(peer := remove1 e (trieEntries T peer))\<rparr>
      in if length bs = 4 then T1\<lparr>ipv4 := trie_remove bs c peer (ipv4 T)\<rparr>
         else T1\<lparr>ipv6 := trie_remove bs c peer (ipv6 T)\<rparr>)"

definition removeByPeerLocked :: "'p \<Rightarrow> 'p allowedIPs \<Rightarrow> 'p allowedIPs" where
  "removeByPeerLocked peer T = fold (remove_entry peer) (trieEntries T peer) T"

fun insert_all :: "prefix list \<Rightarrow> 'p \<Rightarrow> 'p allowedIPs \<Rightarrow> 'p allowedIPs option" where
  "insert_all [] peer T = Some T"
| "insert_all (p # ps) peer T = (case insertLocked p peer T of None \<Rightarrow> None | Some T' \<Rightarrow> insert_all ps peer T')"

definition setPeerPrefixes :: "'p \<Rightarrow> prefix list \<Rightarrow> 'p allowedIPs \<Rightarrow> 'p allowedIPs option" where
  "setPeerPrefixes peer ps T = insert_all ps peer (removeByPeerLocked peer T)"

text \<open>\<open>LookupFromPacket\<close>. The callback and the lookup of a peer by its public key are arguments.\<close>

definition LookupFromPacket ::
  "(addr \<Rightarrow> addr \<Rightarrow> bytes \<Rightarrow> 'k option) option \<Rightarrow> ('k \<Rightarrow> 'p option) \<Rightarrow> addr \<Rightarrow> addr \<Rightarrow> bytes \<Rightarrow> 'p allowedIPs \<Rightarrow> 'p option option" where
  "LookupFromPacket peerByIPPacketFunc LookupPeer src dst ipPkt T =
     (case peerByIPPacketFunc of
        Some f \<Rightarrow> Some (case f src dst ipPkt of Some pubk \<Rightarrow> LookupPeer pubk | None \<Rightarrow> None)
      | None \<Rightarrow>
          if addr_Is6 dst then Some (lookup6 None (ipv6 T) (addr_As16 dst))
          else if addr_Is4 dst then Some (lookup4 None (ipv4 T) (addr_As4 dst))
          else None)"

definition lookupLocked :: "bytes \<Rightarrow> 'p allowedIPs \<Rightarrow> 'p option option" where
  "lookupLocked ip T =
     (if length ip = 16 then Some (trie_lookup None (ipv6 T) ip)
      else if length ip = 4 then Some (trie_lookup None (ipv4 T) ip)
      else None)"

definition AllowedPeerSourceIP :: "(addr \<Rightarrow> bool) option \<Rightarrow> 'p \<Rightarrow> addr \<Rightarrow> 'p allowedIPs \<Rightarrow> bool" where
  "AllowedPeerSourceIP testAllowedIP peer src T =
     (case testAllowedIP of
        Some f \<Rightarrow> f src
      | None \<Rightarrow>
          if addr_Is6 src then lookup6 None (ipv6 T) (addr_As16 src) = Some peer
          else if addr_Is4 src then lookup4 None (ipv4 T) (addr_As4 src) = Some peer
          else False)"

text \<open>The prefixes that \<open>EntriesForPeer\<close> hands to the callback, up to the first that it refuses.\<close>

definition addr_of_slice :: "bytes \<Rightarrow> addr" where
  "addr_of_slice bs = (if length bs = 4 then Addr4 (of_nat (of_be bs)) else if length bs = 16 then Addr6 (of_nat (of_be bs)) [] else NoAddr)"

fun entries_until :: "(prefix \<Rightarrow> bool) \<Rightarrow> (bytes \<times> nat) list \<Rightarrow> prefix list" where
  "entries_until cb [] = []"
| "entries_until cb ((bs, c) # es) =
     (let p = prefix_from (addr_of_slice bs) c in p # (if cb p then entries_until cb es else []))"

definition EntriesForPeer :: "'p \<Rightarrow> (prefix \<Rightarrow> bool) \<Rightarrow> 'p allowedIPs \<Rightarrow> prefix list" where
  "EntriesForPeer peer cb T = entries_until cb (trieEntries T peer)"

text \<open>\<open>mkIPInCIDRsTestFunc\<close>, with the unit value for \<open>fakePeer\<close>.\<close>

definition mkIPInCIDRsTestFunc :: "prefix list \<Rightarrow> (addr \<Rightarrow> bool) option" where
  "mkIPInCIDRsTestFunc cidrs =
     (if length cidrs = 0 then Some (\<lambda>_. False)
      else if length cidrs = 1 then Some (prefix_Contains (cidrs ! 0))
      else if length cidrs \<le> 4 then Some (\<lambda>a. list_ex (\<lambda>c. prefix_Contains c a) cidrs)
      else map_option (\<lambda>T a. if addr_Is4 a then lookup4 None (ipv4 T) (addr_As4 a) = Some ()
                             else lookup6 None (ipv6 T) (addr_As16 a) = Some ())
             (insert_all cidrs () no_allowedIPs))"

section \<open>Entries and routes\<close>

lemma bytes_bits_inject: "length a = length b \<Longrightarrow> bytes_bits a = bytes_bits b \<longleftrightarrow> a = b"
  by (induction a b rule: list_induct2) (auto simp: word_bits_inject)

lemma maskSelf_idem: "cidr \<le> 8 * length ip \<Longrightarrow> maskSelf cidr (maskSelf cidr ip) = maskSelf cidr ip"
  by (subst bytes_bits_inject[symmetric]) (simp_all add: maskSelf_bits min_def)

lemma nodePlacement_exact:
  assumes size: "address_size n" and len: "length ip = n" and cidr: "cidr \<le> 8 * n"
  shows "trie_ok n pre t \<Longrightarrow>
    (if snd (nodePlacement t ip cidr parent)
     then t_peer (fst (nodePlacement t ip cidr parent)) = routes t (take cidr (bytes_bits ip)) \<and>
          t_bits (fst (nodePlacement t ip cidr parent)) = maskSelf cidr ip \<and> t_cidr (fst (nodePlacement t ip cidr parent)) = cidr
     else routes t (take cidr (bytes_bits ip)) = None)"
proof (induction t arbitrary: pre parent)
  case (TrieEntry p c bs l r)
  note ok = TrieEntry.prems
  have c: "c \<le> 8 * n" "length bs = n" using ok by auto
  have lenK: "length (take cidr (bytes_bits ip)) = cidr" using cidr len by simp
  show ?case
  proof (cases "c \<le> cidr \<and> c \<le> commonBits bs ip")
    case False
    then have "routes (TrieEntry p c bs l r) (take cidr (bytes_bits ip)) = None"
      using common_ge[OF size c(2) len c(1)] lenK by (cases "c \<le> cidr") (auto simp: min_def)
    moreover have "nodePlacement (TrieEntry p c bs l r) ip cidr parent = (parent, False)"
      using False by (simp only: nodePlacement.simps if_False)
    ultimately show ?thesis by (simp only: snd_conv if_False)
  next
    case True
    then have eq: "take c (bytes_bits bs) = take c (bytes_bits ip)" using common_ge[OF size c(2) len c(1)] by simp
    show ?thesis
    proof (cases "c = cidr")
      case here: True
      have "bytes_bits bs = bytes_bits (maskSelf cidr ip)" using ok eq here len cidr by (simp add: maskSelf_bits)
      then have "bs = maskSelf cidr ip" using bytes_bits_inject[of bs "maskSelf cidr ip"] c len by simp
      then show ?thesis using True here eq lenK by auto
    next
      case False
      then have lt: "c < cidr" using True by simp
      have b: "bit_at c ip = bytes_bits ip ! c" using lt cidr len by (simp add: bit_at_eq)
      have K: "routes (TrieEntry p c bs l r) (take cidr (bytes_bits ip)) = routes (if bit_at c ip then r else l) (take cidr (bytes_bits ip))"
        using lt lenK eq by (auto simp: b)
      have run: "nodePlacement (TrieEntry p c bs l r) ip cidr parent =
          nodePlacement (if bit_at c ip then r else l) ip cidr (TrieEntry p c bs l r)" using True False by simp
      have okc: "trie_ok n (take c (bytes_bits bs) @ [False]) l" "trie_ok n (take c (bytes_bits bs) @ [True]) r" using ok by auto
      show ?thesis
      proof (cases "bit_at c ip")
        case right: True
        show ?thesis using TrieEntry.IH(2)[OF okc(2), of "TrieEntry p c bs l r"] unfolding run K by (simp only: right if_True)
      next
        case left: False
        show ?thesis using TrieEntry.IH(1)[OF okc(1), of "TrieEntry p c bs l r"] unfolding run K by (simp only: left if_False)
      qed
    qed
  qed
qed simp

definition entry_ok :: "bytes \<times> nat \<Rightarrow> bool" where
  "entry_ok e \<longleftrightarrow> address_size (length (fst e)) \<and> snd e \<le> 8 * length (fst e) \<and> maskSelf (snd e) (fst e) = fst e"

definition entry_key :: "bytes \<times> nat \<Rightarrow> bool \<times> bool list" where
  "entry_key e = (length (fst e) = 16, take (snd e) (bytes_bits (fst e)))"

definition trie_of :: "bool \<Rightarrow> 'p allowedIPs \<Rightarrow> 'p trie" where
  "trie_of v6 T = (if v6 then ipv6 T else ipv4 T)"

definition set_family :: "bool \<Rightarrow> 'p trie \<Rightarrow> ('p \<Rightarrow> (bytes \<times> nat) list) \<Rightarrow> 'p allowedIPs \<Rightarrow> 'p allowedIPs" where
  "set_family v6 t es T = (if v6 then T\<lparr>ipv6 := t, trieEntries := es\<rparr> else T\<lparr>ipv4 := t, trieEntries := es\<rparr>)"

definition family_size :: "bool \<Rightarrow> nat" where
  "family_size v6 = (if v6 then 16 else 4)"

definition table_routes :: "'p allowedIPs \<Rightarrow> bool \<times> bool list \<Rightarrow> 'p option" where
  "table_routes T = (\<lambda>(v6, k). routes (trie_of v6 T) k)"

text \<open>The invariant: both tries are well formed, and the list of a peer has exactly its nodes, each once.\<close>

definition table_ok :: "'p allowedIPs \<Rightarrow> bool" where
  "table_ok T \<longleftrightarrow> (\<forall>v6. trie_ok (family_size v6) [] (trie_of v6 T)) \<and>
     (\<forall>p. distinct (trieEntries T p)) \<and>
     (\<forall>p e. e \<in> set (trieEntries T p) \<longleftrightarrow> entry_ok e \<and> table_routes T (entry_key e) = Some p)"

lemma family_size_ok [simp]: "address_size (family_size v6)"
  by (simp add: family_size_def address_size_def)

lemma set_family_simps [simp]:
  "trie_of v (set_family v6 t es T) = (if v = v6 then t else trie_of v T)"
  "trieEntries (set_family v6 t es T) = es"
  by (simp_all add: trie_of_def set_family_def)

lemma table_ok_entries:
  assumes "table_ok T"
  shows "x \<in> set (trieEntries T p) \<longleftrightarrow> entry_ok x \<and> table_routes T (entry_key x) = Some p" "distinct (trieEntries T p)"
  using assms unfolding table_ok_def by blast+

lemma entry_key_inject:
  assumes "entry_ok e" "entry_ok e'" "entry_key e = entry_key e'"
  shows "e = e'"
proof -
  obtain bs c bs' c' where e: "e = (bs, c)" "e' = (bs', c')" by (cases e; cases e')
  have len: "length bs = length bs'" using assms by (auto simp: e entry_ok_def entry_key_def address_size_def)
  have k: "take c (bytes_bits bs) = take c' (bytes_bits bs')" using assms(3) by (simp add: e entry_key_def)
  have cc: "c = c'" using arg_cong[OF k, of length] assms(1,2) len by (simp add: e entry_ok_def min.absorb2)
  have "bytes_bits bs = bytes_bits bs'"
    using maskSelf_bits[of c bs] maskSelf_bits[of c' bs'] assms(1,2) k cc len by (simp add: e entry_ok_def)
  then show ?thesis using bytes_bits_inject[OF len] cc e by simp
qed

lemma new_entry:
  assumes "length ip = family_size v6" "cidr \<le> 8 * family_size v6"
  shows "entry_ok (maskSelf cidr ip, cidr)" "entry_key (maskSelf cidr ip, cidr) = (v6, take cidr (bytes_bits ip))"
  using assms maskSelf_idem[of cidr ip] family_size_ok[of v6]
  by (auto simp: entry_ok_def entry_key_def maskSelf_bits family_size_def)

lemma insert_entries_eq:
  assumes "table_ok T" "length ip = family_size v6" "cidr \<le> 8 * family_size v6"
  shows "insert_entries ip cidr peer (trie_of v6 T) es =
    addToPeerEntries peer (maskSelf cidr ip, cidr)
      (case table_routes T (v6, take cidr (bytes_bits ip)) of
         None \<Rightarrow> es | Some old \<Rightarrow> es(old := remove1 (maskSelf cidr ip, cidr) (es old)))"
proof -
  have "trie_ok (family_size v6) [] (trie_of v6 T)" using assms(1) by (simp add: table_ok_def)
  from nodePlacement_exact[OF family_size_ok assms(2,3) this, of NoNode] show ?thesis
    by (auto simp: insert_entries_def table_routes_def removeFromPeerEntries_def case_prod_beta split: if_splits option.splits)
qed

lemma table_insert:
  fixes peer :: 'p
  assumes ok: "table_ok T" and len: "length ip = family_size v6" and cidr: "cidr \<le> 8 * family_size v6"
  defines "T' \<equiv> set_family v6 (trie_insert ip cidr peer (trie_of v6 T)) (insert_entries ip cidr peer (trie_of v6 T) (trieEntries T)) T"
  shows "table_ok T' \<and> table_routes T' = (table_routes T)((v6, take cidr (bytes_bits ip)) := Some peer)"
proof -
  let ?e = "(maskSelf cidr ip, cidr)" and ?k = "(v6, take cidr (bytes_bits ip))"
  note e = new_entry[OF len cidr]
  have tr: "trie_ok (family_size v6) [] (trie_of v6 T)" using ok by (simp add: table_ok_def)
  note ins = trie_insert_correct[OF family_size_ok len cidr tr, of peer, simplified]
  have rt: "table_routes T' = (table_routes T)(?k := Some peer)"
    using ins by (auto simp: table_routes_def T'_def fun_eq_iff)
  have key: "entry_ok x \<Longrightarrow> entry_key x = ?k \<longleftrightarrow> x = ?e" for x using entry_key_inject[of x ?e] e by auto
  have es: "trieEntries T' = insert_entries ip cidr peer (trie_of v6 T) (trieEntries T)" by (simp add: T'_def)
  have "distinct (trieEntries T' p) \<and> (\<forall>x. x \<in> set (trieEntries T' p) \<longleftrightarrow> entry_ok x \<and> table_routes T' (entry_key x) = Some p)" for p
    unfolding es insert_entries_eq[OF ok len cidr] rt
    using e key table_ok_entries[OF ok] by (cases "table_routes T ?k") (auto simp: addToPeerEntries_def e(2))
  then show ?thesis using ok ins rt by (simp add: table_ok_def T'_def)
qed

text \<open>Removal of the route of a peer: the node leaves the trie and the list together.\<close>

lemma table_drop:
  fixes peer :: 'p
  assumes ok: "table_ok T" and len: "length ip = family_size v6" and cidr: "cidr \<le> 8 * family_size v6"
    and es: "\<And>p. es p = (if p = peer \<and> table_routes T (v6, take cidr (bytes_bits ip)) = Some peer
                      then remove1 (maskSelf cidr ip, cidr) (trieEntries T p) else trieEntries T p)"
  defines "T' \<equiv> set_family v6 (trie_remove ip cidr peer (trie_of v6 T)) es T"
  shows "table_ok T' \<and> table_routes T' = (table_routes T)((v6, take cidr (bytes_bits ip)) :=
    (if table_routes T (v6, take cidr (bytes_bits ip)) = Some peer then None else table_routes T (v6, take cidr (bytes_bits ip))))"
proof -
  let ?e = "(maskSelf cidr ip, cidr)" and ?k = "(v6, take cidr (bytes_bits ip))"
  note e = new_entry[OF len cidr]
  have tr: "trie_ok (family_size v6) [] (trie_of v6 T)" using ok by (simp add: table_ok_def)
  note rem = trie_remove_correct[OF family_size_ok len cidr tr, of peer]
  have rt: "table_routes T' = (table_routes T)(?k := (if table_routes T ?k = Some peer then None else table_routes T ?k))"
    using rem by (auto simp: table_routes_def T'_def fun_eq_iff drop_route_def)
  have key: "entry_ok x \<Longrightarrow> entry_key x = ?k \<longleftrightarrow> x = ?e" for x using entry_key_inject[of x ?e] e by auto
  have "distinct (trieEntries T' p) \<and> (\<forall>x. x \<in> set (trieEntries T' p) \<longleftrightarrow> entry_ok x \<and> table_routes T' (entry_key x) = Some p)" for p
    unfolding rt using e key table_ok_entries[OF ok] by (auto simp: T'_def es)
  then show ?thesis using ok rem rt by (simp add: table_ok_def T'_def)
qed

lemma remove_entries_eq:
  assumes "table_ok T" "length ip = family_size v6" "cidr \<le> 8 * family_size v6"
  shows "remove_entries ip cidr peer (trie_of v6 T) es p =
    (if p = peer \<and> table_routes T (v6, take cidr (bytes_bits ip)) = Some peer then remove1 (maskSelf cidr ip, cidr) (es p) else es p)"
proof -
  have "trie_ok (family_size v6) [] (trie_of v6 T)" using assms(1) by (simp add: table_ok_def)
  from nodePlacement_exact[OF family_size_ok assms(2,3) this, of NoNode] show ?thesis
    by (auto simp: remove_entries_def table_routes_def removeFromPeerEntries_def case_prod_beta split: if_splits option.splits)
qed

section \<open>The operations on the routes\<close>

text \<open>The bits of an address; a prefix is named by its family and its leading bits.\<close>

fun addr_bits :: "addr \<Rightarrow> bool list" where
  "addr_bits (Addr4 w) = word_bits w"
| "addr_bits (Addr6 w z) = word_bits w"
| "addr_bits NoAddr = []"

definition prefix_key :: "prefix \<Rightarrow> bool \<times> bool list" where
  "prefix_key p = (addr_Is6 (prefix_Addr p), take (nat (prefix_Bits p)) (addr_bits (prefix_Addr p)))"

text \<open>A prefix that \<open>netip\<close> makes: it is valid, and its length is in the range of its family.\<close>

definition prefix_good :: "prefix \<Rightarrow> bool" where
  "prefix_good p \<longleftrightarrow> prefix_Addr p \<noteq> NoAddr \<and> (\<exists>n. prefix_bits p = Some n \<and> n \<le> addr_BitLen (prefix_Addr p))"

lemma be_bytes_bits:
  "length (be_bytes 4 w) = 4" "bytes_bits (be_bytes 4 (w :: 32 word)) = word_bits w"
  "length (be_bytes 16 v) = 16" "bytes_bits (be_bytes 16 (v :: 128 word)) = word_bits v"
  using be_bytes_round_trip[of 4 w] be_bytes_round_trip[of 16 v] word_bits_of_be[of "be_bytes 4 w", where ?'a = 32]
    word_bits_of_be[of "be_bytes 16 v", where ?'a = 128]
  by (simp_all del: be_bytes.simps)

lemma good_prefix_bytes:
  assumes "prefix_good p"
  defines "cidr \<equiv> unat (of_int (prefix_Bits p) :: u8)"
  shows "cidr \<le> 8 * family_size (addr_Is6 (prefix_Addr p))"
    "\<And>ip. ip = (if addr_Is6 (prefix_Addr p) then addr_As16 (prefix_Addr p) else addr_As4 (prefix_Addr p)) \<Longrightarrow>
       length ip = family_size (addr_Is6 (prefix_Addr p)) \<and> (addr_Is6 (prefix_Addr p), take cidr (bytes_bits ip)) = prefix_key p"
    "addr_Is6 (prefix_Addr p) \<or> addr_Is4 (prefix_Addr p)"
proof -
  obtain n where n: "prefix_bits p = Some n" "n \<le> addr_BitLen (prefix_Addr p)" "prefix_Addr p \<noteq> NoAddr"
    using assms(1) by (auto simp: prefix_good_def)
  have small: "n \<le> 128" using n by (cases "prefix_Addr p") auto
  then have "n < 256" by simp
  then have cidr: "cidr = n" using n(1) by (simp add: cidr_def prefix_Bits_def unat_of_nat take_bit_eq_mod)
  then show "cidr \<le> 8 * family_size (addr_Is6 (prefix_Addr p))" using n by (cases "prefix_Addr p") (auto simp: family_size_def)
  show "addr_Is6 (prefix_Addr p) \<or> addr_Is4 (prefix_Addr p)" using n by (cases "prefix_Addr p") auto
  show "length ip = family_size (addr_Is6 (prefix_Addr p)) \<and> (addr_Is6 (prefix_Addr p), take cidr (bytes_bits ip)) = prefix_key p"
    if "ip = (if addr_Is6 (prefix_Addr p) then addr_As16 (prefix_Addr p) else addr_As4 (prefix_Addr p))" for ip
    using n that by (cases "prefix_Addr p") (simp_all add: prefix_key_def prefix_Bits_def cidr be_bytes_bits family_size_def)
qed

lemma insertLocked_correct:
  assumes "table_ok T" "prefix_good p"
  shows "\<exists>T'. insertLocked p peer T = Some T' \<and> table_ok T' \<and> table_routes T' = (table_routes T)(prefix_key p := Some peer)"
proof -
  note b = good_prefix_bytes[OF assms(2)]
  show ?thesis
    using table_insert[OF assms(1) conjunct1[OF b(2)[OF refl]] b(1), of peer] b(2)[OF refl] b(3)
    by (cases "addr_Is6 (prefix_Addr p)") (auto simp: insertLocked_def Let_def set_family_def trie_of_def)
qed

lemma Remove_correct:
  assumes "table_ok T" "prefix_good p"
  shows "\<exists>T'. Table_Remove p peer T = Some T' \<and> table_ok T' \<and>
    table_routes T' = (table_routes T)(prefix_key p := (if table_routes T (prefix_key p) = Some peer then None else table_routes T (prefix_key p)))"
proof -
  note b = good_prefix_bytes[OF assms(2)]
  note len = conjunct1[OF b(2)[OF refl]]
  show ?thesis
    using table_drop[OF assms(1) len b(1), where es = "remove_entries _ _ peer _ (trieEntries T)", OF remove_entries_eq[OF assms(1) len b(1)]] b(2)[OF refl] b(3)
    by (cases "addr_Is6 (prefix_Addr p)") (auto simp: Table_Remove_def Let_def set_family_def trie_of_def)
qed

text \<open>Every bit string of the right length is the bits of some bytes, so every route has an entry.\<close>

lemma word_bits_surj: "length k = LENGTH('a) \<Longrightarrow> \<exists>w :: 'a::len word. word_bits w = k"
proof
  assume len: "length k = LENGTH('a)"
  show "word_bits (horner_sum of_bool 2 (rev k) :: 'a word) = k"
    using len by (auto intro!: nth_equalityI simp: word_bits_nth bit_horner_sum_bit_word_iff rev_nth)
qed

lemma bytes_bits_surj: "length k = 8 * n \<Longrightarrow> \<exists>bs. length bs = n \<and> bytes_bits bs = k"
proof (induction n arbitrary: k)
  case (Suc n)
  obtain w :: u8 where w: "word_bits w = take 8 k" using word_bits_surj[of "take 8 k", where ?'a = 8] Suc.prems by auto
  obtain bs where "length bs = n" "bytes_bits bs = drop 8 k" using Suc.IH[of "drop 8 k"] Suc.prems by auto
  then have "length (w # bs) = Suc n \<and> bytes_bits (w # bs) = k" using w by simp
  then show ?case by blast
qed simp

lemma route_entry:
  assumes "table_ok T" "table_routes T (v6, k) \<noteq> None"
  shows "\<exists>e. entry_ok e \<and> entry_key e = (v6, k)"
proof -
  let ?n = "family_size v6"
  have len: "length k \<le> 8 * ?n"
    using assms routes_length[of ?n "[]" "trie_of v6 T" k] by (simp add: table_ok_def table_routes_def)
  obtain bs where bs: "length bs = ?n" "bytes_bits bs = k @ replicate (8 * ?n - length k) False"
    using bytes_bits_surj[of "k @ replicate (8 * ?n - length k) False" ?n] len by auto
  have "maskSelf (length k) bs = bs"
    using len bs by (subst bytes_bits_inject[symmetric]) (simp_all add: maskSelf_bits)
  then have "entry_ok (bs, length k) \<and> entry_key (bs, length k) = (v6, k)"
    using bs len family_size_ok[of v6] by (auto simp: entry_ok_def entry_key_def family_size_def)
  then show ?thesis by blast
qed

lemma remove_entry_eq:
  "remove_entry peer (bs, c) T =
   set_family (length bs \<noteq> 4) (trie_remove bs c peer (trie_of (length bs \<noteq> 4) T))
     ((trieEntries T)(peer := remove1 (bs, c) (trieEntries T peer))) T"
  by (cases T) (simp add: remove_entry_def set_family_def trie_of_def)

lemma remove_entry_correct:
  assumes ok: "table_ok T" and e: "e \<in> set (trieEntries T peer)"
  shows "table_ok (remove_entry peer e T) \<and> table_routes (remove_entry peer e T) = (table_routes T)(entry_key e := None) \<and>
    trieEntries (remove_entry peer e T) peer = remove1 e (trieEntries T peer)"
proof -
  obtain bs c where bc: "e = (bs, c)" by (cases e)
  have eo: "entry_ok e" "table_routes T (entry_key e) = Some peer" using table_ok_entries(1)[OF ok, of e peer] e by auto
  have v6: "(length bs \<noteq> 4) = (length bs = 16)" using eo(1) by (auto simp: entry_ok_def bc address_size_def)
  have len: "length bs = family_size (length bs = 16)" using eo(1) by (auto simp: entry_ok_def bc address_size_def family_size_def)
  have cidr: "c \<le> 8 * family_size (length bs = 16)" using eo(1) len by (simp add: entry_ok_def bc)
  have key: "(length bs = 16, take c (bytes_bits bs)) = entry_key e" by (simp add: entry_key_def bc)
  have mask: "(maskSelf c bs, c) = e" using eo(1) by (simp add: entry_ok_def bc)
  have "table_ok (set_family (length bs = 16) (trie_remove bs c peer (trie_of (length bs = 16) T)) ((trieEntries T)(peer := remove1 e (trieEntries T peer))) T) \<and>
    table_routes (set_family (length bs = 16) (trie_remove bs c peer (trie_of (length bs = 16) T)) ((trieEntries T)(peer := remove1 e (trieEntries T peer))) T)
      = (table_routes T)(entry_key e := None)"
    using table_drop[OF ok len cidr, of "(trieEntries T)(peer := remove1 e (trieEntries T peer))" peer] eo(2)
    unfolding key mask by simp
  then show ?thesis unfolding bc remove_entry_eq v6 by simp
qed

lemma remove_entries_of:
  "table_ok T \<Longrightarrow> trieEntries T peer = es \<Longrightarrow>
   table_ok (fold (remove_entry peer) es T) \<and> trieEntries (fold (remove_entry peer) es T) peer = [] \<and>
   table_routes (fold (remove_entry peer) es T) = (\<lambda>k. if k \<in> entry_key ` set es then None else table_routes T k)"
proof (induction es arbitrary: T)
  case (Cons e es)
  have "e \<in> set (trieEntries T peer)" using Cons.prems by simp
  note r = remove_entry_correct[OF Cons.prems(1) this]
  then have "trieEntries (remove_entry peer e T) peer = es" using Cons.prems by simp
  from Cons.IH[OF conjunct1[OF r] this] r show ?case by (auto intro!: ext)
qed auto

lemma removeByPeerLocked_correct:
  assumes "table_ok T"
  shows "table_ok (removeByPeerLocked peer T) \<and>
    table_routes (removeByPeerLocked peer T) = (\<lambda>k. if table_routes T k = Some peer then None else table_routes T k)"
proof -
  have "k \<in> entry_key ` set (trieEntries T peer) \<longleftrightarrow> table_routes T k = Some peer" for k
    using route_entry[OF assms, of "fst k" "snd k"] table_ok_entries(1)[OF assms] by force
  then show ?thesis using remove_entries_of[OF assms refl, of peer] by (simp add: removeByPeerLocked_def)
qed

lemma insert_all_correct:
  "table_ok T \<Longrightarrow> list_all prefix_good ps \<Longrightarrow>
   \<exists>T'. insert_all ps peer T = Some T' \<and> table_ok T' \<and>
     table_routes T' = fold (\<lambda>p m. m(prefix_key p := Some peer)) ps (table_routes T)"
proof (induction ps arbitrary: T)
  case (Cons p ps)
  then obtain T1 where T1: "insertLocked p peer T = Some T1" "table_ok T1" "table_routes T1 = (table_routes T)(prefix_key p := Some peer)"
    using insertLocked_correct[of T p peer] by auto
  then show ?case using Cons.IH[of T1] Cons.prems by simp
qed simp

section \<open>Addresses and their leading bits\<close>

lemma word_bits_masked:
  fixes w :: "'a::len word"
  assumes "n \<le> LENGTH('a)"
  shows "word_bits (push_bit (LENGTH('a) - n) (drop_bit (LENGTH('a) - n) w)) = take n (word_bits w) @ replicate (LENGTH('a) - n) False"
  using assms by (auto intro!: nth_equalityI simp: word_bits_nth bit_push_bit_iff bit_drop_bit_eq nth_append split: if_splits)

lemma leading_bits_equal:
  fixes a b :: "'a::len word"
  assumes "n \<le> LENGTH('a)"
  shows "drop_bit (LENGTH('a) - n) (a XOR b) = 0 \<longleftrightarrow> take n (word_bits a) = take n (word_bits b)"
proof -
  let ?m = "LENGTH('a) - n"
  have shifted: "drop_bit ?m (push_bit ?m (drop_bit ?m w)) = drop_bit ?m w" for w :: "'a word"
    by (rule bit_word_eqI) (auto simp: bit_push_bit_iff bit_drop_bit_eq dest: bit_imp_le_length)
  have "drop_bit ?m (a XOR b) = 0 \<longleftrightarrow> drop_bit ?m a = drop_bit ?m b"
    by (simp add: drop_bit_xor bit_eq_iff bit_xor_iff)
  also have "\<dots> \<longleftrightarrow> push_bit ?m (drop_bit ?m a) = push_bit ?m (drop_bit ?m b)"
    using shifted[of a] shifted[of b] by metis
  also have "\<dots> \<longleftrightarrow> take n (word_bits a) = take n (word_bits b)"
    using word_bits_masked[OF assms, of a] word_bits_masked[OF assms, of b] by (metis append_same_eq word_bits_inject)
  finally show ?thesis .
qed

lemma length_addr_bits [simp]: "length (addr_bits a) = addr_BitLen a"
  by (cases a) simp_all

lemma prefix_Contains_bits:
  assumes "prefix_good p" "a \<noteq> NoAddr" "\<not> addr_hasZone a"
  shows "prefix_Contains p a \<longleftrightarrow> (\<exists>n \<le> addr_BitLen a. prefix_key p = (addr_Is6 a, take n (addr_bits a)))"
proof -
  obtain n where n: "prefix_bits p = Some n" "n \<le> addr_BitLen (prefix_Addr p)" "prefix_Addr p \<noteq> NoAddr"
    using assms(1) by (auto simp: prefix_good_def)
  have same: "(\<exists>m \<le> addr_BitLen a. prefix_key p = (addr_Is6 a, take m (addr_bits a))) \<longleftrightarrow>
      addr_Is6 (prefix_Addr p) = addr_Is6 a \<and> take n (addr_bits (prefix_Addr p)) = take n (addr_bits a)" (is "?l \<longleftrightarrow> ?r")
  proof
    assume ?l
    then obtain m where m: "m \<le> addr_BitLen a" "addr_Is6 (prefix_Addr p) = addr_Is6 a" "take n (addr_bits (prefix_Addr p)) = take m (addr_bits a)"
      using n by (auto simp: prefix_key_def prefix_Bits_def)
    from arg_cong[OF m(3), of length] have "m = n" using m(1) n(2) by simp
    then show ?r using m by simp
  next
    assume r: ?r
    then have "addr_BitLen a = addr_BitLen (prefix_Addr p)" using assms(2) n(3) by (cases a; cases "prefix_Addr p") simp_all
    then show ?l using r n by (auto simp: prefix_key_def prefix_Bits_def)
  qed
  show ?thesis
    using n assms(2,3) leading_bits_equal[of n, where ?'a = 32] leading_bits_equal[of n, where ?'a = 128]
    unfolding same by (cases "prefix_Addr p"; cases a) (auto simp: prefix_Contains_def)
qed

section \<open>Sequences of operations\<close>

text \<open>What a device does to its table, and the same on a map from prefixes to peers.\<close>

datatype 'p table_op =
    OpInsert prefix 'p
  | OpRemove prefix 'p
  | OpRemoveByPeer 'p
  | OpSetPeerPrefixes 'p "prefix list"

fun table_step :: "'p table_op \<Rightarrow> 'p allowedIPs \<Rightarrow> 'p allowedIPs option" where
  "table_step (OpInsert p peer) T = insertLocked p peer T"
| "table_step (OpRemove p peer) T = Table_Remove p peer T"
| "table_step (OpRemoveByPeer peer) T = Some (removeByPeerLocked peer T)"
| "table_step (OpSetPeerPrefixes peer ps) T = setPeerPrefixes peer ps T"

fun table_run :: "'p table_op list \<Rightarrow> 'p allowedIPs \<Rightarrow> 'p allowedIPs option" where
  "table_run [] T = Some T"
| "table_run (x # xs) T = (case table_step x T of None \<Rightarrow> None | Some T' \<Rightarrow> table_run xs T')"

type_synonym 'p route_map = "bool \<times> bool list \<Rightarrow> 'p option"

definition without_peer :: "'p \<Rightarrow> 'p route_map \<Rightarrow> 'p route_map" where
  "without_peer peer m = (\<lambda>k. if m k = Some peer then None else m k)"

fun abs_step :: "'p table_op \<Rightarrow> 'p route_map \<Rightarrow> 'p route_map" where
  "abs_step (OpInsert p peer) m = m(prefix_key p := Some peer)"
| "abs_step (OpRemove p peer) m = (if m (prefix_key p) = Some peer then m(prefix_key p := None) else m)"
| "abs_step (OpRemoveByPeer peer) m = without_peer peer m"
| "abs_step (OpSetPeerPrefixes peer ps) m = fold (\<lambda>p m. m(prefix_key p := Some peer)) ps (without_peer peer m)"

definition abs_table :: "'p table_op list \<Rightarrow> 'p route_map" where
  "abs_table ops = fold abs_step ops (\<lambda>_. None)"

fun op_good :: "'p table_op \<Rightarrow> bool" where
  "op_good (OpInsert p peer) = prefix_good p"
| "op_good (OpRemove p peer) = prefix_good p"
| "op_good (OpRemoveByPeer peer) = True"
| "op_good (OpSetPeerPrefixes peer ps) = list_all prefix_good ps"

text \<open>The peer of the longest prefix of the address that the map has.\<close>

definition longest_match :: "'p route_map \<Rightarrow> addr \<Rightarrow> 'p option" where
  "longest_match m a = lpm (\<lambda>k. m (addr_Is6 a, k)) (addr_bits a)"

lemma table_step_correct:
  assumes "table_ok T" "op_good x"
  shows "\<exists>T'. table_step x T = Some T' \<and> table_ok T' \<and> table_routes T' = abs_step x (table_routes T)"
proof (cases x)
  case (OpRemove p peer)
  then show ?thesis using Remove_correct[of T p peer] assms by (auto simp: fun_upd_idem)
next
  case (OpSetPeerPrefixes peer ps)
  then show ?thesis
    using insert_all_correct[of "removeByPeerLocked peer T" ps peer] removeByPeerLocked_correct[OF assms(1), of peer] assms(2)
    by (simp add: setPeerPrefixes_def without_peer_def)
qed (use assms insertLocked_correct removeByPeerLocked_correct[OF assms(1)] in \<open>auto simp: without_peer_def\<close>)

lemma table_run_correct:
  "table_ok T \<Longrightarrow> list_all op_good xs \<Longrightarrow>
   \<exists>T'. table_run xs T = Some T' \<and> table_ok T' \<and> table_routes T' = fold abs_step xs (table_routes T)"
proof (induction xs arbitrary: T)
  case (Cons x xs)
  then obtain T1 where "table_step x T = Some T1" "table_ok T1" "table_routes T1 = abs_step x (table_routes T)"
    using table_step_correct[of T x] by auto
  then show ?case using Cons.IH[of T1] Cons.prems by simp
qed simp

lemma no_allowedIPs_ok: "table_ok no_allowedIPs" "table_routes no_allowedIPs = (\<lambda>_. None)"
proof -
  have t: "trie_of v no_allowedIPs = NoNode" for v by (simp add: no_allowedIPs_def trie_of_def)
  show r: "table_routes no_allowedIPs = (\<lambda>_. None)" by (simp add: table_routes_def t fun_eq_iff)
  show "table_ok no_allowedIPs" by (simp add: table_ok_def t r) (simp add: no_allowedIPs_def)
qed

lemma table_run_from_empty:
  assumes "list_all op_good ops"
  shows "\<exists>T. table_run ops no_allowedIPs = Some T \<and> table_ok T \<and> table_routes T = abs_table ops"
  using table_run_correct[OF no_allowedIPs_ok(1) assms] by (simp add: no_allowedIPs_ok(2) abs_table_def)

lemma lookup_of_addr:
  assumes "table_ok T"
  shows "addr_Is6 a \<Longrightarrow> lookup6 None (ipv6 T) (addr_As16 a) = longest_match (table_routes T) a"
    "addr_Is4 a \<Longrightarrow> lookup4 None (ipv4 T) (addr_As4 a) = longest_match (table_routes T) a"
proof -
  have ok: "trie_ok 4 [] (ipv4 T)" "trie_ok 16 [] (ipv6 T)"
    using assms[unfolded table_ok_def, THEN conjunct1, rule_format, of False] assms[unfolded table_ok_def, THEN conjunct1, rule_format, of True]
    by (simp_all add: family_size_def trie_of_def)
  have none: "(case x of None \<Rightarrow> None | Some q \<Rightarrow> Some q) = x" for x :: "'c option" by (cases x) simp_all
  show "addr_Is6 a \<Longrightarrow> lookup6 None (ipv6 T) (addr_As16 a) = longest_match (table_routes T) a"
    using lookup6_eq[OF ok(2)] trie_lookup_correct[OF _ _ ok(2), of _ None]
    by (cases a) (simp_all add: address_size_def be_bytes_bits longest_match_def table_routes_def trie_of_def none del: be_bytes.simps)
  show "addr_Is4 a \<Longrightarrow> lookup4 None (ipv4 T) (addr_As4 a) = longest_match (table_routes T) a"
    using lookup4_eq[OF ok(1)] trie_lookup_correct[OF _ _ ok(1), of _ None]
    by (cases a) (simp_all add: address_size_def be_bytes_bits longest_match_def table_routes_def trie_of_def none del: be_bytes.simps)
qed

lemma addr_family: "addr_Is6 a \<or> addr_Is4 a \<longleftrightarrow> a \<noteq> NoAddr" "\<not> (addr_Is6 a \<and> addr_Is4 a)"
  by (cases a; simp)+

lemma lookups_of_table:
  assumes "table_ok T"
  shows "LookupFromPacket None LookupPeer src dst ipPkt T = (if dst = NoAddr then None else Some (longest_match (table_routes T) dst))"
    "AllowedPeerSourceIP None peer src T \<longleftrightarrow> src \<noteq> NoAddr \<and> longest_match (table_routes T) src = Some peer"
  using lookup_of_addr[OF assms] addr_family[of dst] addr_family[of src]
  by (auto simp: LookupFromPacket_def AllowedPeerSourceIP_def)

text \<open>The function for many prefixes is the one for few.\<close>

lemma lpm_upto_some: "lpm_upto i m k \<noteq> None \<longleftrightarrow> (\<exists>n \<le> i. m (take n k) \<noteq> None)"
proof (induction i)
  case (Suc i)
  then show ?case by (cases "m (take (Suc i) k)") (auto simp: le_Suc_eq)
qed simp

lemma longest_match_some:
  "longest_match m a \<noteq> None \<longleftrightarrow> (\<exists>n \<le> addr_BitLen a. m (addr_Is6 a, take n (addr_bits a)) \<noteq> None)"
  unfolding longest_match_def lpm_def lpm_upto_some length_addr_bits ..

lemma many_prefixes:
  assumes good: "list_all prefix_good cidrs"
  shows "\<exists>T :: unit allowedIPs. insert_all cidrs () no_allowedIPs = Some T \<and> table_ok T \<and>
    (\<forall>k. table_routes T k \<noteq> None \<longleftrightarrow> k \<in> prefix_key ` set cidrs)"
proof -
  have keys: "fold (\<lambda>p m. m(prefix_key p := Some ())) cidrs m k \<noteq> None \<longleftrightarrow> m k \<noteq> None \<or> k \<in> prefix_key ` set cidrs" for m k
    by (induction cidrs arbitrary: m) auto
  obtain T :: "unit allowedIPs" where T: "insert_all cidrs () no_allowedIPs = Some T" "table_ok T"
      "table_routes T = fold (\<lambda>p m. m(prefix_key p := Some ())) cidrs (\<lambda>_. None)"
    using insert_all_correct[OF no_allowedIPs_ok(1) good, of "()"] unfolding no_allowedIPs_ok(2) by blast
  have "table_routes T k \<noteq> None \<longleftrightarrow> k \<in> prefix_key ` set cidrs" for k unfolding T(3) using keys[of "\<lambda>_. None" k] by simp
  then show ?thesis using T(1,2) by blast
qed

lemma test_of_table:
  assumes ok: "table_ok T" and good: "list_all prefix_good cidrs" and a: "a \<noteq> NoAddr" "\<not> addr_hasZone a"
    and keys: "\<And>k. table_routes T k \<noteq> None \<longleftrightarrow> k \<in> prefix_key ` set cidrs"
  shows "(longest_match (table_routes T) a = Some ()) = list_ex (\<lambda>c. prefix_Contains c a) cidrs"
proof -
  have "(longest_match (table_routes T) a = Some ()) \<longleftrightarrow> longest_match (table_routes T) a \<noteq> None" by auto
  also have "\<dots> \<longleftrightarrow> (\<exists>n \<le> addr_BitLen a. \<exists>p \<in> set cidrs. prefix_key p = (addr_Is6 a, take n (addr_bits a)))"
    unfolding longest_match_some keys by (simp add: image_iff eq_commute)
  also have "\<dots> \<longleftrightarrow> (\<exists>p \<in> set cidrs. prefix_Contains p a)"
    using prefix_Contains_bits[OF _ a] good by (auto simp: list_all_iff)
  finally show ?thesis by (simp add: list_ex_iff)
qed

text \<open>The prefix that \<open>EntriesForPeer\<close> makes of a node; a masked prefix is determined by its key.\<close>

definition entry_prefix :: "bytes \<times> nat \<Rightarrow> prefix" where
  "entry_prefix e = prefix_from (addr_of_slice (fst e)) (snd e)"

lemma all_entries: "entries_until (\<lambda>_. True) es = map entry_prefix es"
  by (induction es) (auto simp: entry_prefix_def)

lemma word_masked_iff:
  fixes w :: "'a::len word"
  assumes "n \<le> LENGTH('a)"
  shows "push_bit (LENGTH('a) - n) (drop_bit (LENGTH('a) - n) w) = w \<longleftrightarrow> word_bits w = take n (word_bits w) @ replicate (LENGTH('a) - n) False"
  using word_bits_masked[OF assms, of w] by (metis word_bits_inject)

lemma entry_prefix_ok:
  assumes "entry_ok e"
  shows "prefix_good (entry_prefix e) \<and> prefix_Masked (entry_prefix e) = entry_prefix e \<and> prefix_key (entry_prefix e) = entry_key e"
proof -
  obtain bs c where e: "e = (bs, c)" by (cases e)
  have c: "c \<le> 8 * length bs" and mask: "bytes_bits bs = take c (bytes_bits bs) @ replicate (8 * length bs - c) False"
    using assms maskSelf_bits[of c bs] by (simp_all add: entry_ok_def e)
  from assms consider "length bs = 4" | "length bs = 16" by (auto simp: entry_ok_def e address_size_def)
  then show ?thesis
  proof cases
    case 1
    then show ?thesis using c mask word_masked_iff[of c, where ?'a = 32] word_bits_of_be[of bs, where ?'a = 32]
      by (simp add: entry_prefix_def e addr_of_slice_def prefix_from_def prefix_good_def prefix_Masked_def prefix_key_def prefix_Bits_def entry_key_def)
  next
    case 2
    then show ?thesis using c mask word_masked_iff[of c, where ?'a = 128] word_bits_of_be[of bs, where ?'a = 128]
      by (simp add: entry_prefix_def e addr_of_slice_def prefix_from_def prefix_good_def prefix_Masked_def prefix_key_def prefix_Bits_def entry_key_def)
  qed
qed

lemma prefix_key_inject:
  assumes "prefix_good p" "prefix_good q" "prefix_Masked p = p" "prefix_Masked q = q" "prefix_key p = prefix_key q"
  shows "p = q"
proof -
  obtain n m where n: "prefix_bits p = Some n" "n \<le> addr_BitLen (prefix_Addr p)" "prefix_Addr p \<noteq> NoAddr"
    and m: "prefix_bits q = Some m" "m \<le> addr_BitLen (prefix_Addr q)" "prefix_Addr q \<noteq> NoAddr"
    using assms(1,2) by (auto simp: prefix_good_def)
  have k: "addr_Is6 (prefix_Addr p) = addr_Is6 (prefix_Addr q)" "take n (addr_bits (prefix_Addr p)) = take m (addr_bits (prefix_Addr q))"
    using assms(5) n m by (simp_all add: prefix_key_def prefix_Bits_def)
  have nm: "n = m" using arg_cong[OF k(2), of length] n m by simp
  have mk: "addr_masked (prefix_Addr p) n = prefix_Addr p" "addr_masked (prefix_Addr q) n = prefix_Addr q"
    using assms(3,4) n m nm by (cases p; cases q; simp add: prefix_Masked_def)+
  have "prefix_Addr p = prefix_Addr q"
    using mk k n m nm word_masked_iff[of n, where ?'a = 32] word_masked_iff[of n, where ?'a = 128]
    by (cases "prefix_Addr p"; cases "prefix_Addr q") (auto simp: word_bits_inject[symmetric])
  then show ?thesis using n m nm by (cases p; cases q) simp
qed

lemma peer_prefixes:
  assumes ok: "table_ok T"
  shows "distinct (EntriesForPeer peer (\<lambda>_. True) T) \<and>
    (p \<in> set (EntriesForPeer peer (\<lambda>_. True) T) \<longleftrightarrow> prefix_good p \<and> prefix_Masked p = p \<and> table_routes T (prefix_key p) = Some peer)"
proof -
  have inj: "inj_on entry_prefix (set (trieEntries T peer))"
    using entry_prefix_ok entry_key_inject table_ok_entries(1)[OF ok] by (intro inj_onI) metis
  have "p \<in> entry_prefix ` set (trieEntries T peer)"
    if p: "prefix_good p" "prefix_Masked p = p" "table_routes T (prefix_key p) = Some peer"
  proof -
    obtain e where e: "entry_ok e" "entry_key e = prefix_key p"
      using route_entry[OF ok, of "fst (prefix_key p)" "snd (prefix_key p)"] p(3) by auto
    then have "e \<in> set (trieEntries T peer)" using table_ok_entries(1)[OF ok] p(3) by simp
    moreover have "p = entry_prefix e" using prefix_key_inject[of p "entry_prefix e"] entry_prefix_ok[OF e(1)] e(2) p by simp
    ultimately show ?thesis by blast
  qed
  moreover have "prefix_good p \<and> prefix_Masked p = p \<and> table_routes T (prefix_key p) = Some peer"
    if "p \<in> entry_prefix ` set (trieEntries T peer)"
    using that entry_prefix_ok table_ok_entries(1)[OF ok] by auto
  ultimately show ?thesis using inj table_ok_entries(2)[OF ok, of peer]
    by (auto simp: EntriesForPeer_def all_entries distinct_map)
qed

section \<open>Properties\<close>

text \<open>C28. After any sequence of insertions, removals, removals of a peer and replacements of the
  prefixes of a peer, for prefixes that \<open>netip\<close> can make, no method has panicked and both tries
  answer as the map from prefixes to peers that the sequence denotes: a packet goes to the peer of
  the longest prefix of its destination, the source of a packet is allowed for a peer exactly when
  that peer has the longest prefix of it, and \<open>LookupFromPacket\<close> panics on the zero address only.\<close>

theorem allowed_ips_longest_prefix:
  assumes "list_all op_good ops"
  shows "\<exists>T. table_run ops no_allowedIPs = Some T \<and>
    (\<forall>LookupPeer src dst ipPkt. LookupFromPacket None LookupPeer src dst ipPkt T =
       (if dst = NoAddr then None else Some (longest_match (abs_table ops) dst))) \<and>
    (\<forall>peer src. AllowedPeerSourceIP None peer src T \<longleftrightarrow> src \<noteq> NoAddr \<and> longest_match (abs_table ops) src = Some peer)"
proof -
  obtain T where T: "table_run ops no_allowedIPs = Some T" "table_ok T" "table_routes T = abs_table ops"
    using table_run_from_empty[OF assms] by blast
  from lookups_of_table[OF T(2)] T(1) show ?thesis unfolding T(3) by blast
qed

definition example_ops :: "nat table_op list" where
  "example_ops =
     [OpInsert (Prefix (Addr4 0x0A000000) (Some 8)) 1, OpInsert (Prefix (Addr4 0x0A010000) (Some 16)) 2,
      OpInsert (Prefix (Addr4 0x0A010200) (Some 24)) 3, OpRemove (Prefix (Addr4 0x0A010200) (Some 24)) 3]"

lemma example_ops_good: "list_all op_good example_ops"
  by (simp add: example_ops_def prefix_good_def)

theorem allowed_ips_longest_prefix_witness:
  "\<exists>T. table_run example_ops no_allowedIPs = Some T \<and>
     LookupFromPacket None (\<lambda>_ :: unit. None) NoAddr (Addr4 0x0A010203) [] T = Some (Some 2) \<and>
     AllowedPeerSourceIP None 1 (Addr4 0x0A020304) T"
proof -
  have m: "longest_match (abs_table example_ops) (Addr4 0x0A010203) = Some 2" by code_simp
  have m': "longest_match (abs_table example_ops) (Addr4 0x0A020304) = Some 1" by code_simp
  obtain T where "table_run example_ops no_allowedIPs = Some T"
      "\<forall>(LookupPeer :: unit \<Rightarrow> nat option) src dst ipPkt. LookupFromPacket None LookupPeer src dst ipPkt T =
        (if dst = NoAddr then None else Some (longest_match (abs_table example_ops) dst))"
      "\<forall>peer src. AllowedPeerSourceIP None peer src T \<longleftrightarrow> src \<noteq> NoAddr \<and> longest_match (abs_table example_ops) src = Some peer"
    using allowed_ips_longest_prefix[OF example_ops_good] by blast
  then show ?thesis using m m' by auto
qed

text \<open>C29. \<open>mkIPInCIDRsTestFunc\<close> builds a trie for more than four prefixes and tests one prefix after
  the other for fewer; for valid prefixes and a valid address without a zone both are the test that
  some prefix contains the address.\<close>

theorem cidr_test_is_containment:
  assumes "list_all prefix_good cidrs" "a \<noteq> NoAddr" "\<not> addr_hasZone a"
  shows "\<exists>f. mkIPInCIDRsTestFunc cidrs = Some f \<and> f a = list_ex (\<lambda>c. prefix_Contains c a) cidrs"
proof (cases "length cidrs \<le> 4")
  case True
  consider "cidrs = []" | c where "cidrs = [c]" | "length cidrs > 1" by (cases cidrs rule: remdups_adj.cases) auto
  then show ?thesis using True by cases (auto simp: mkIPInCIDRsTestFunc_def)
next
  case False
  obtain T :: "unit allowedIPs" where T: "insert_all cidrs () no_allowedIPs = Some T" "table_ok T"
      "\<And>k. table_routes T k \<noteq> None \<longleftrightarrow> k \<in> prefix_key ` set cidrs"
    using many_prefixes[OF assms(1)] by auto
  then have "mkIPInCIDRsTestFunc cidrs = Some (\<lambda>a. if addr_Is4 a then lookup4 None (ipv4 T) (addr_As4 a) = Some ()
      else lookup6 None (ipv6 T) (addr_As16 a) = Some ())"
    using False by (simp add: mkIPInCIDRsTestFunc_def) auto
  then show ?thesis
    using lookup_of_addr[OF T(2)] addr_family[of a] test_of_table[OF T(2) assms T(3)] assms(2) by auto
qed

theorem cidr_test_is_containment_witness:
  "\<exists>f. mkIPInCIDRsTestFunc (map (\<lambda>n. Prefix (Addr4 0x0A010203) (Some n)) [32, 31, 30, 29, 28]) = Some f \<and> f (Addr4 0x0A01020F)"
  using cidr_test_is_containment[of "map (\<lambda>n. Prefix (Addr4 0x0A010203) (Some n)) [32, 31, 30, 29, 28]" "Addr4 0x0A01020F"]
  by (simp add: prefix_good_def prefix_Contains_def)

text \<open>C30. The list of a peer and the tries never disagree: after any sequence of operations on valid
  prefixes \<open>EntriesForPeer\<close> lists, each once, exactly the masked prefixes whose route is to the peer.\<close>

theorem entries_are_the_routes:
  assumes "list_all op_good ops"
  shows "\<exists>T. table_run ops no_allowedIPs = Some T \<and>
    (\<forall>peer. distinct (EntriesForPeer peer (\<lambda>_. True) T) \<and>
      (\<forall>p. p \<in> set (EntriesForPeer peer (\<lambda>_. True) T) \<longleftrightarrow>
        prefix_good p \<and> prefix_Masked p = p \<and> abs_table ops (prefix_key p) = Some peer))"
proof -
  obtain T where T: "table_run ops no_allowedIPs = Some T" "table_ok T" "table_routes T = abs_table ops"
    using table_run_from_empty[OF assms] by blast
  from peer_prefixes[OF T(2)] T(1) show ?thesis unfolding T(3) by blast
qed

theorem entries_are_the_routes_witness:
  "\<exists>T. table_run example_ops no_allowedIPs = Some T \<and> Prefix (Addr4 0x0A010000) (Some 16) \<in> set (EntriesForPeer 2 (\<lambda>_. True) T) \<and>
     Prefix (Addr4 0x0A010200) (Some 24) \<notin> set (EntriesForPeer 3 (\<lambda>_. True) T)"
proof -
  have m: "abs_table example_ops (prefix_key (Prefix (Addr4 0x0A010000) (Some 16))) = Some 2"
    "abs_table example_ops (prefix_key (Prefix (Addr4 0x0A010200) (Some 24))) = None" by code_simp+
  have p: "prefix_good (Prefix (Addr4 0x0A010000) (Some 16))" "prefix_Masked (Prefix (Addr4 0x0A010000) (Some 16)) = Prefix (Addr4 0x0A010000) (Some 16)"
    by (simp add: prefix_good_def) code_simp
  show ?thesis using entries_are_the_routes[OF example_ops_good] m p by auto
qed

end
