(* ===== verification/Replay_Filter.thy ===== *)
theory Replay_Filter
  imports Go_Prelude
begin

text \<open>
  The anti-replay window of WireGuard (\<open>submodules/wireguard-go/replay/replay.go\<close>, RFC 6479): a ring of
  128 blocks of 64 bits for the counters at and below the largest one accepted. The abstract filter
  remembers the set of all counters it has accepted.
\<close>

section \<open>The filter\<close>

definition blockBitLog :: nat where "blockBitLog = 6"
definition ringBlocks :: u64 where "ringBlocks = 128"
definition windowSize :: u64 where "windowSize = (ringBlocks - 1) * 64"
definition blockMask :: u64 where "blockMask = ringBlocks - 1"
definition bitMask :: u64 where "bitMask = 64 - 1"

record replay_filter =
  f_last :: u64
  f_ring :: "u64 list"

text \<open>The zero value.\<close>

definition empty_filter :: replay_filter where
  "empty_filter = \<lparr>f_last = 0, f_ring = replicate 128 0\<rparr>"

definition Filter_Reset :: "replay_filter \<Rightarrow> replay_filter" where
  "Filter_Reset f = f\<lparr>f_last := 0, f_ring := (f_ring f)[0 := 0]\<rparr>"

text \<open>The loop \<open>for i := current + 1; i <= current+diff; i++\<close>, with \<open>n\<close> turns left.\<close>

fun clear_blocks :: "nat \<Rightarrow> u64 \<Rightarrow> u64 list \<Rightarrow> u64 list" where
  "clear_blocks 0 i r = r"
| "clear_blocks (Suc n) i r = clear_blocks n (i + 1) (r[unat (i AND blockMask) := 0])"

definition advance :: "u64 \<Rightarrow> u64 \<Rightarrow> replay_filter \<Rightarrow> replay_filter" where
  "advance counter indexBlock f =
     (let current = drop_bit blockBitLog (f_last f);
          diff = min (indexBlock - current) ringBlocks
      in \<lparr>f_last = counter, f_ring = clear_blocks (unat diff) (current + 1) (f_ring f)\<rparr>)"

definition check_and_set :: "u64 \<Rightarrow> u64 \<Rightarrow> replay_filter \<Rightarrow> bool \<times> replay_filter" where
  "check_and_set counter indexBlock f =
     (let i = unat (indexBlock AND blockMask);
          indexBit = counter AND bitMask;
          old = f_ring f ! i;
          new = old OR push_bit (unat indexBit) 1
      in (old \<noteq> new, f\<lparr>f_ring := (f_ring f)[i := new]\<rparr>))"

definition ValidateCounter :: "u64 \<Rightarrow> u64 \<Rightarrow> replay_filter \<Rightarrow> bool \<times> replay_filter" where
  "ValidateCounter counter limit f =
     (if counter \<ge> limit then (False, f)
      else
        let indexBlock = drop_bit blockBitLog counter
        in if counter > f_last f then check_and_set counter indexBlock (advance counter indexBlock f)
           else if f_last f - counter > windowSize then (False, f)
           else check_and_set counter indexBlock f)"

section \<open>The abstract filter\<close>

definition window_nat :: nat where "window_nat = 8128"

definition highest :: "nat set \<Rightarrow> nat" where
  "highest S = Max (insert 0 S)"

lemma highest_ge: "finite S \<Longrightarrow> k \<in> S \<Longrightarrow> k \<le> highest S"
  by (simp add: highest_def)

lemma highest_insert: "finite S \<Longrightarrow> highest (insert c S) = max c (highest S)"
  by (simp add: highest_def insert_commute[of 0 c])

lemma highest_empty [simp]: "highest {} = 0"
  by (simp add: highest_def)

text \<open>A counter is accepted when it is below the limit, new, and not behind the window that ends at the
  largest counter accepted.\<close>

definition abs_Validate :: "nat \<Rightarrow> nat \<Rightarrow> nat set \<Rightarrow> bool \<times> nat set" where
  "abs_Validate counter limit S =
     (if counter < limit \<and> counter \<notin> S \<and> highest S \<le> counter + window_nat then (True, insert counter S) else (False, S))"

text \<open>The ring represents a set: the last counter is its largest element, and each of the last 128
  blocks has exactly the bits of the counters in the set.\<close>

definition represents :: "replay_filter \<Rightarrow> nat set \<Rightarrow> bool" where
  "represents f S \<longleftrightarrow>
     length (f_ring f) = 128 \<and> finite S \<and> unat (f_last f) = highest S \<and>
     (\<forall>b j. b \<le> unat (f_last f) div 64 \<and> unat (f_last f) div 64 < b + 128 \<and> j < 64 \<longrightarrow>
        bit (f_ring f ! (b mod 128)) j = (64 * b + j \<in> S))"

section \<open>Words\<close>

lemma unat_block: "unat (drop_bit blockBitLog x) = unat x div 64"
  by (simp only: blockBitLog_def unat_drop_bit_eq) (simp add: drop_bit_eq_div)

lemma unat_ring_index: "unat (x AND blockMask) = unat x mod 128" for x :: u64
proof -
  have "blockMask = mask 7" by (simp add: blockMask_def ringBlocks_def mask_eq_decr_exp)
  then have "x AND blockMask = take_bit 7 x" by (simp add: take_bit_eq_mask)
  then show ?thesis by (simp only: unsigned_take_bit_eq) (simp add: take_bit_eq_mod)
qed

lemma unat_bit_index: "unat (x AND bitMask) = unat x mod 64" for x :: u64
proof -
  have "bitMask = mask 6" by (simp add: bitMask_def mask_eq_decr_exp)
  then have "x AND bitMask = take_bit 6 x" by (simp add: take_bit_eq_mask)
  then show ?thesis by (simp only: unsigned_take_bit_eq) (simp add: take_bit_eq_mod)
qed

lemma unat_window: "unat windowSize = window_nat"
  by (simp add: windowSize_def ringBlocks_def window_nat_def)

lemma bit_set_bit: "i < 64 \<Longrightarrow> bit (old OR push_bit k 1 :: u64) i = (bit old i \<or> i = k)"
  by (auto simp: bit_simps)

lemma set_bit_changes: "k < 64 \<Longrightarrow> old \<noteq> (old OR push_bit k 1 :: u64) \<longleftrightarrow> \<not> bit old k"
proof
  assume "k < 64" "old \<noteq> old OR push_bit k 1"
  then show "\<not> bit old k" using bit_word_eqI[of old "old OR push_bit k 1"] bit_set_bit[of _ old k] by auto
next
  assume "k < 64" "\<not> bit old k"
  then show "old \<noteq> old OR push_bit k 1" using bit_set_bit[of k old k] by auto
qed

lemma clear_blocks_nth:
  assumes "unat i + n < 2 ^ 64" "length r = 128"
  shows "length (clear_blocks n i r) = 128 \<and>
    (\<forall>k < 128. clear_blocks n i r ! k = (if \<exists>j < n. (unat i + j) mod 128 = k then 0 else r ! k))"
  using assms
proof (induction n i r rule: clear_blocks.induct)
  case (2 n i r)
  have i1: "unat (i + 1) = Suc (unat i)" using 2(2) by (simp add: unat_word_ariths)
  let ?r = "r[unat (i AND blockMask) := 0]"
  have "unat (i + 1) + n < 2 ^ 64" "length ?r = 128" using 2(2,3) i1 by simp_all
  note IH = 2(1)[OF this]
  have "(\<exists>j < Suc n. (unat i + j) mod 128 = k) \<longleftrightarrow> unat i mod 128 = k \<or> (\<exists>j < n. (Suc (unat i) + j) mod 128 = k)" for k
    by (auto simp: less_Suc_eq_0_disj)
  then show ?case using IH 2(3) unfolding i1 by (auto simp: unat_ring_index nth_list_update)
qed simp

section \<open>The ring implements the abstract filter\<close>

lemma counter_split: "j' < 64 \<Longrightarrow> 64 * b' + j' = n \<longleftrightarrow> b' = n div 64 \<and> j' = n mod 64" for n b' j' :: nat
  by (metis div_mult_mod_eq div_mult_self4 div_less add_0_right mod_mult_self4 mod_less mult.commute zero_neq_numeral)

lemma same_slot: "a mod 128 = b mod 128 \<Longrightarrow> a \<le> b \<Longrightarrow> b < a + 128 \<Longrightarrow> a = b" for a b :: nat
  using mod_eq_dvd_iff_nat[of a b 128] dvd_imp_le[of 128 "b - a"] by fastforce

lemma Filter_Reset_represents: "length (f_ring f) = 128 \<Longrightarrow> represents (Filter_Reset f) {}"
  by (auto simp: represents_def Filter_Reset_def)

text \<open>After the window has moved to a larger counter the ring still has the bits of the same set.\<close>

definition ring_of :: "u64 list \<Rightarrow> nat \<Rightarrow> nat set \<Rightarrow> bool" where
  "ring_of r hi S \<longleftrightarrow> length r = 128 \<and>
     (\<forall>b j. b \<le> hi \<and> hi < b + 128 \<and> j < 64 \<longrightarrow> bit (r ! (b mod 128)) j = (64 * b + j \<in> S))"

lemma represents_ring:
  "represents f S \<longleftrightarrow> finite S \<and> unat (f_last f) = highest S \<and> ring_of (f_ring f) (unat (f_last f) div 64) S"
  by (auto simp: represents_def ring_of_def)

lemma clear_covers: "cur < b \<Longrightarrow> b \<le> hi \<Longrightarrow> hi < b + 128 \<Longrightarrow> \<exists>j < min (hi - cur) 128. (cur + 1 + j) mod 128 = b mod 128" for cur b hi :: nat
proof (cases "hi - cur \<le> 128")
  case True
  assume "cur < b" "b \<le> hi" "hi < b + 128"
  then show ?thesis using True by (intro exI[of _ "b - cur - 1"]) auto
next
  case False
  have "(cur + 1 + (b + 127 * (cur + 1)) mod 128) mod 128 = (b + 128 * (cur + 1)) mod 128"
    by (simp only: mod_add_right_eq) (simp add: algebra_simps)
  then have "(cur + 1 + (b + 127 * (cur + 1)) mod 128) mod 128 = b mod 128" by (simp only: mod_mult_self2)
  then show ?thesis using False by (intro exI[of _ "(b + 127 * (cur + 1)) mod 128"]) simp
qed

lemma clear_spares: "b \<le> cur \<Longrightarrow> hi < b + 128 \<Longrightarrow> j < min (hi - cur) 128 \<Longrightarrow> (cur + 1 + j) mod 128 \<noteq> b mod 128" for cur b hi j :: nat
  using same_slot[of b "cur + 1 + j"] by fastforce

lemma advance_ring:
  assumes r: "ring_of (f_ring f) (unat (f_last f) div 64) S" and S: "\<forall>k \<in> S. k \<le> unat (f_last f)"
    and c: "f_last f < counter"
  shows "f_last (advance counter (drop_bit blockBitLog counter) f) = counter \<and>
    ring_of (f_ring (advance counter (drop_bit blockBitLog counter) f)) (unat counter div 64) S"
proof -
  let ?cur = "unat (f_last f) div 64" and ?hi = "unat counter div 64"
  have le: "?cur \<le> ?hi" using c by (simp add: word_less_nat_alt div_le_mono)
  have d: "unat (drop_bit blockBitLog counter - drop_bit blockBitLog (f_last f)) = ?hi - ?cur"
    using le by (simp add: unat_sub_if' unat_block)
  have mn: "unat (min (drop_bit blockBitLog counter - drop_bit blockBitLog (f_last f)) ringBlocks) = min (?hi - ?cur) 128"
    using d by (simp add: min_def word_le_nat_alt ringBlocks_def)
  have small: "?cur < 2 ^ 58" using unsigned_less[of "f_last f", where ?'a = nat] by simp
  have cur1: "unat (drop_bit blockBitLog (f_last f) + 1) = ?cur + 1" using small by (simp add: unat_word_ariths unat_block)
  let ?r = "clear_blocks (min (?hi - ?cur) 128) (drop_bit blockBitLog (f_last f) + 1) (f_ring f)"
  have clr: "length ?r = 128 \<and> (\<forall>k < 128. ?r ! k = (if \<exists>j < min (?hi - ?cur) 128. (?cur + 1 + j) mod 128 = k then 0 else f_ring f ! k))"
    using clear_blocks_nth[of "drop_bit blockBitLog (f_last f) + 1" "min (?hi - ?cur) 128" "f_ring f"] small r
    unfolding cur1 by (simp add: ring_of_def)
  have "bit (?r ! (b mod 128)) j = (64 * b + j \<in> S)" if b: "b \<le> ?hi" "?hi < b + 128" and j: "j < 64" for b j
  proof (cases "b \<le> ?cur")
    case True
    then have "?r ! (b mod 128) = f_ring f ! (b mod 128)" using clr clear_spares[of b ?cur ?hi] b by auto
    then show ?thesis using r True le b j by (simp add: ring_of_def)
  next
    case False
    then have "?r ! (b mod 128) = 0" using clr clear_covers[of ?cur b ?hi] b by auto
    moreover have "64 * b + j \<notin> S" using S False by fastforce
    ultimately show ?thesis by simp
  qed
  then show ?thesis using clr by (simp add: advance_def Let_def mn ring_of_def)
qed

lemma check_and_set_ring:
  assumes r: "ring_of (f_ring f) hi S" and b: "unat counter div 64 \<le> hi" "hi < unat counter div 64 + 128"
  shows "fst (check_and_set counter (drop_bit blockBitLog counter) f) = (unat counter \<notin> S)"
    "f_last (snd (check_and_set counter (drop_bit blockBitLog counter) f)) = f_last f"
    "ring_of (f_ring (snd (check_and_set counter (drop_bit blockBitLog counter) f))) hi (insert (unat counter) S)"
proof -
  let ?b = "unat counter div 64" and ?j = "unat counter mod 64"
  have j: "?j < 64" by simp
  have i: "unat (drop_bit blockBitLog counter AND blockMask) = ?b mod 128" by (simp add: unat_ring_index unat_block)
  have n: "64 * ?b + ?j = unat counter" by simp
  have old: "bit (f_ring f ! (?b mod 128)) ?j = (unat counter \<in> S)"
    using r b j n unfolding ring_of_def by metis
  show "fst (check_and_set counter (drop_bit blockBitLog counter) f) = (unat counter \<notin> S)"
    using set_bit_changes[OF j, of "f_ring f ! (?b mod 128)"] old by (simp add: check_and_set_def Let_def i unat_bit_index)
  show "f_last (snd (check_and_set counter (drop_bit blockBitLog counter) f)) = f_last f" by (simp add: check_and_set_def Let_def)
  have "bit ((f_ring f)[?b mod 128 := f_ring f ! (?b mod 128) OR push_bit ?j 1] ! (b' mod 128)) j' =
      (64 * b' + j' \<in> insert (unat counter) S)" if b': "b' \<le> hi" "hi < b' + 128" and j': "j' < 64" for b' j'
  proof (cases "b' = ?b")
    case True
    have "64 * b' + j' = unat counter \<longleftrightarrow> j' = ?j" using True counter_split[OF j'] by blast
    then show ?thesis using True r b' j' bit_set_bit[OF j', of "f_ring f ! (?b mod 128)" ?j] by (auto simp: ring_of_def)
  next
    case False
    then have "b' mod 128 \<noteq> ?b mod 128" using b b' same_slot[of b' ?b] same_slot[of ?b b'] by linarith
    moreover have "64 * b' + j' \<noteq> unat counter" using False counter_split[OF j'] by blast
    ultimately show ?thesis using r b' j' by (simp add: ring_of_def)
  qed
  then show "ring_of (f_ring (snd (check_and_set counter (drop_bit blockBitLog counter) f))) hi (insert (unat counter) S)"
    using r by (simp add: check_and_set_def Let_def i unat_bit_index ring_of_def)
qed

lemma ValidateCounter_refines:
  assumes rep: "represents f S"
  shows "fst (ValidateCounter counter limit f) = fst (abs_Validate (unat counter) (unat limit) S) \<and>
    represents (snd (ValidateCounter counter limit f)) (snd (abs_Validate (unat counter) (unat limit) S))"
proof -
  have fin: "finite S" and mx: "unat (f_last f) = highest S" and r: "ring_of (f_ring f) (unat (f_last f) div 64) S"
    using rep unfolding represents_ring by blast+
  have S: "\<forall>k \<in> S. k \<le> unat (f_last f)" using highest_ge[OF fin] by (simp add: mx)
  show ?thesis
  proof (cases "counter < limit")
    case lim: True
    then have nlim: "\<not> limit \<le> counter" by (simp only: linorder_not_le)
    show ?thesis
    proof (cases "f_last f < counter")
      case True
      let ?f = "advance counter (drop_bit blockBitLog counter) f"
      have gt: "unat (f_last f) < unat counter" using True by (simp add: word_less_nat_alt)
      have new: "unat counter \<notin> S" using S gt by fastforce
      have hi: "highest (insert (unat counter) S) = unat counter" using gt by (simp add: highest_insert[OF fin] mx)
      have abs: "abs_Validate (unat counter) (unat limit) S = (True, insert (unat counter) S)"
        using lim gt new by (simp add: abs_Validate_def word_less_nat_alt mx)
      have run: "ValidateCounter counter limit f = check_and_set counter (drop_bit blockBitLog counter) ?f"
        using nlim True by (simp add: ValidateCounter_def Let_def)
      have adv: "f_last ?f = counter" "ring_of (f_ring ?f) (unat counter div 64) S" using advance_ring[OF r S True] by simp_all
      note cs = check_and_set_ring[OF adv(2) order_refl]
      show ?thesis unfolding abs run represents_ring using cs adv(1) new fin hi by simp
    next
      case False
      then have le: "unat counter \<le> unat (f_last f)" by (simp add: word_less_nat_alt)
      have d: "unat (f_last f - counter) = unat (f_last f) - unat counter" using le by (simp add: unat_sub_if')
      show ?thesis
      proof (cases "f_last f - counter > windowSize")
        case behind: True
        then have "\<not> unat (f_last f) \<le> unat counter + window_nat" by (simp add: word_less_nat_alt d unat_window)
        then show ?thesis using nlim False behind rep mx by (simp add: ValidateCounter_def abs_Validate_def)
      next
        case inside: False
        then have w: "unat (f_last f) \<le> unat counter + window_nat" by (simp add: word_less_nat_alt d unat_window)
        have b: "unat counter div 64 \<le> unat (f_last f) div 64" "unat (f_last f) div 64 < unat counter div 64 + 128"
          using le w by (auto simp: window_nat_def div_le_mono)
        have run: "ValidateCounter counter limit f = check_and_set counter (drop_bit blockBitLog counter) f"
          using nlim False inside by (simp add: ValidateCounter_def Let_def)
        have abs: "abs_Validate (unat counter) (unat limit) S = (unat counter \<notin> S, insert (unat counter) S)"
          using lim w by (auto simp: abs_Validate_def word_less_nat_alt mx)
        have hi: "highest (insert (unat counter) S) = highest S" using le by (simp add: highest_insert[OF fin] mx)
        show ?thesis unfolding abs run represents_ring using check_and_set_ring[OF r b] fin hi mx by simp
      qed
    qed
  next
    case False
    then show ?thesis using rep by (simp add: ValidateCounter_def abs_Validate_def word_less_nat_alt not_less word_le_nat_alt)
  qed
qed

section \<open>Properties\<close>

fun filter_run :: "(u64 \<times> u64) list \<Rightarrow> replay_filter \<Rightarrow> bool list" where
  "filter_run [] f = []"
| "filter_run ((counter, limit) # cs) f =
     (let (b, f') = ValidateCounter counter limit f in b # filter_run cs f')"

fun abs_run :: "(nat \<times> nat) list \<Rightarrow> nat set \<Rightarrow> bool list" where
  "abs_run [] S = []"
| "abs_run ((counter, limit) # cs) S = (let (b, S') = abs_Validate counter limit S in b # abs_run cs S')"

lemma filter_run_refines: "represents f S \<Longrightarrow> filter_run cs f = abs_run (map (map_prod unat unat) cs) S"
proof (induction cs f arbitrary: S rule: filter_run.induct)
  case (2 counter limit cs f)
  from ValidateCounter_refines[OF 2(2), of counter limit] show ?case
    using 2(1)[OF refl prod.collapse] by (simp add: case_prod_beta)
qed simp

text \<open>C25. The ring of 128 blocks implements the filter that remembers every counter: from a reset filter,
  whatever the ring held before, every sequence of counters and limits gets the same answers. A
  counter is accepted exactly when it is below the limit, has not been accepted before and is at most
  8128 behind the largest one accepted.\<close>

theorem ValidateCounter_spec:
  assumes "length (f_ring f) = 128"
  shows "filter_run cs (Filter_Reset f) = abs_run (map (map_prod unat unat) cs) {}"
  by (rule filter_run_refines[OF Filter_Reset_represents[OF assms]])

theorem ValidateCounter_spec_witness:
  "filter_run [(5, 100), (5, 100), (9000, 10000), (6, 100)] (Filter_Reset empty_filter) = [True, False, True, False]"
  using ValidateCounter_spec[of empty_filter "[(5, 100), (5, 100), (9000, 10000), (6, 100)]"]
  by (simp add: empty_filter_def abs_Validate_def window_nat_def highest_insert)

lemma abs_run_known: "k \<in> S \<Longrightarrow> i < length cs \<Longrightarrow> fst (cs ! i) = k \<Longrightarrow> \<not> abs_run cs S ! i"
proof (induction cs S arbitrary: i rule: abs_run.induct)
  case (2 counter limit cs S)
  show ?case
  proof (cases i)
    case 0
    then show ?thesis using 2 by (simp add: abs_Validate_def)
  next
    case (Suc i')
    have "k \<in> snd (abs_Validate counter limit S)" using 2(2) by (simp add: abs_Validate_def)
    then show ?thesis using 2(1)[OF refl prod.collapse _, of i'] 2(3,4) Suc by (simp add: case_prod_beta)
  qed
qed simp

lemma abs_run_once:
  "i < j \<Longrightarrow> j < length cs \<Longrightarrow> fst (cs ! i) = fst (cs ! j) \<Longrightarrow> abs_run cs S ! i \<Longrightarrow> \<not> abs_run cs S ! j"
proof (induction cs S arbitrary: i j rule: abs_run.induct)
  case (2 counter limit cs S)
  obtain j' where j: "j = Suc j'" using 2(2) by (cases j) auto
  show ?case
  proof (cases i)
    case 0
    then have "counter \<in> snd (abs_Validate counter limit S)" using 2(5) by (auto simp: abs_Validate_def split: if_splits)
    moreover have "j' < length cs" "fst (cs ! j') = counter" using 0 2(3,4) j by simp_all
    ultimately have "\<not> abs_run cs (snd (abs_Validate counter limit S)) ! j'" by (rule abs_run_known)
    then show ?thesis using j by (simp add: case_prod_beta)
  next
    case (Suc i')
    have "\<not> abs_run cs (snd (abs_Validate counter limit S)) ! j'"
      by (rule 2(1)[OF refl prod.collapse, of i' j'])
        (use Suc j 2(2,3,4,5) in \<open>simp_all add: case_prod_beta\<close>)
    then show ?thesis using j by (simp add: case_prod_beta)
  qed
qed simp

text \<open>C26. No message counter is accepted twice, in any order of arrival and under any limits.\<close>

theorem no_replay:
  assumes "length (f_ring f) = 128" "i < j" "j < length cs" "fst (cs ! i) = fst (cs ! j)"
    and "filter_run cs (Filter_Reset f) ! i"
  shows "\<not> filter_run cs (Filter_Reset f) ! j"
proof -
  have run: "filter_run cs (Filter_Reset f) = abs_run (map (map_prod unat unat) cs) {}"
    by (rule filter_run_refines[OF Filter_Reset_represents[OF assms(1)]])
  show ?thesis using abs_run_once[of i j "map (map_prod unat unat) cs" "{}"] assms(2-5) unfolding run by simp
qed

theorem no_replay_witness:
  "\<not> filter_run [(5, 100), (70, 100), (5, 100)] (Filter_Reset empty_filter) ! 2"
proof -
  have "filter_run [(5, 100), (70, 100), (5, 100)] (Filter_Reset empty_filter) ! 0" by code_simp
  then show ?thesis
    using no_replay[of empty_filter 0 2 "[(5, 100), (70, 100), (5, 100)]"] by (simp add: empty_filter_def)
qed

end
