(* ===== verification/Noise_Device.thy ===== *)
theory Noise_Device
  imports Peer_Timers Awg_Config Allowed_Table Replay_Filter
begin

text \<open>
  A WireGuard device with its peers and the handshake: \<open>noise-protocol.go\<close>, \<open>indextable.go\<close>, \<open>keypair.go\<close>,
  \<open>peer.go\<close> and the parts of \<open>device.go\<close> that keep its state, all of \<open>submodules/wireguard-go/device\<close>.
  What the random source and the clock return are arguments. Peers and key pairs are objects that
  several tables point to: a device keeps them in a store, and a pointer is the number of the object.
  \<open>None\<close> is a run that does not return: a panic, or a random source that never gives a free index.
\<close>

section \<open>State\<close>

datatype handshakeState =
    handshakeZeroed
  | handshakeInitiationCreated
  | handshakeInitiationConsumed
  | handshakeResponseCreated
  | handshakeResponseConsumed

fun handshakeState_String :: "handshakeState \<Rightarrow> string" where
  "handshakeState_String handshakeZeroed = ''handshakeZeroed''"
| "handshakeState_String handshakeInitiationCreated = ''handshakeInitiationCreated''"
| "handshakeState_String handshakeInitiationConsumed = ''handshakeInitiationConsumed''"
| "handshakeState_String handshakeResponseCreated = ''handshakeResponseCreated''"
| "handshakeState_String handshakeResponseConsumed = ''handshakeResponseConsumed''"

record noise_handshake =
  hs_state :: handshakeState
  hs_hash :: bytes
  hs_chainKey :: bytes
  presharedKey :: bytes
  localEphemeral :: bytes
  localIndex :: u32
  remoteIndex :: u32
  remoteStatic :: bytes
  remoteEphemeral :: bytes
  precomputedStaticStatic :: bytes
  lastTimestamp :: bytes
  lastInitiationConsumption :: int
  lastSentHandshake :: int

record keypair =
  sendNonce :: u64
  send_key :: bytes
  receive_key :: bytes
  replayFilter :: replay_filter
  isInitiator :: bool
  created :: int
  kp_localIndex :: u32
  kp_remoteIndex :: u32

text \<open>What the code asks of a \<open>conn.Endpoint\<close>.\<close>

record endpoint =
  DstToString :: string
  DstToBytes :: bytes
  DstIP :: addr

text \<open>A container of packets is a list; the staged queue is a list of containers.\<close>

record wg_peer =
  isRunning :: bool
  kp_current :: "nat option"
  kp_previous :: "nat option"
  kp_next :: "nat option"
  handshake :: noise_handshake
  state_allowedIPs :: "prefix list"
  testAllowedIP :: "(addr \<Rightarrow> bool) option"
  deleteOnIdle :: bool
  peer_endpoint :: "endpoint option"
  clearSrcOnTx :: bool
  disableRoaming :: bool
  udpWindow :: u32
  cookieGenerator :: cookie_generator
  timers :: peer_timers
  session :: peer_session
  staged :: "bytes list list"
  queuedOutboundPackets :: int
  persistentKeepaliveInterval :: u32
  lastHandshakeNano :: int
  rxBytes :: u64
  txBytes :: u64

record indexTableEntry =
  ie_peer :: nat
  ie_handshake :: bool
  ie_keypair :: "nat option"

record newPeerConfig =
  conf_AllowedIPs :: "prefix list"
  conf_Endpoint :: "endpoint option"

datatype deviceState = deviceStateDown | deviceStateUp | deviceStateClosed

record wg_device =
  device_state :: deviceState
  privateKey :: bytes
  publicKey :: bytes
  keyMap :: "(bytes \<times> nat) list"
  lookupFunc :: "(bytes \<Rightarrow> newPeerConfig option) option"
  peer_at :: "nat \<Rightarrow> wg_peer"
  next_peer :: nat
  keypair_at :: "nat \<Rightarrow> keypair"
  next_keypair :: nat
  indexTable :: "u32 \<rightharpoonup> indexTableEntry"
  allowedips :: "nat allowedIPs"
  cookieChecker :: cookie_checker
  wire :: wire_state
  limiter :: ratelimiter
  underLoadUntil :: int

definition isClosed :: "wg_device \<Rightarrow> bool" where "isClosed d \<longleftrightarrow> device_state d = deviceStateClosed"
definition isUp :: "wg_device \<Rightarrow> bool" where "isUp d \<longleftrightarrow> device_state d = deviceStateUp"

definition timersActive :: "nat \<Rightarrow> wg_device \<Rightarrow> bool" where
  "timersActive p d \<longleftrightarrow> isRunning (peer_at d p) \<and> isUp d"

definition set_peer :: "nat \<Rightarrow> wg_peer \<Rightarrow> wg_device \<Rightarrow> wg_device" where
  "set_peer p q d = d\<lparr>peer_at := (peer_at d)(p := q)\<rparr>"

definition set_handshake :: "nat \<Rightarrow> noise_handshake \<Rightarrow> wg_device \<Rightarrow> wg_device" where
  "set_handshake p h d = set_peer p ((peer_at d p)\<lparr>handshake := h\<rparr>) d"

definition hs_mixHash :: "crypto \<Rightarrow> bytes \<Rightarrow> noise_handshake \<Rightarrow> noise_handshake" where
  "hs_mixHash C data h = h\<lparr>hs_hash := mixHash C (hs_hash h) data\<rparr>"

definition hs_mixKey :: "crypto \<Rightarrow> bytes \<Rightarrow> noise_handshake \<Rightarrow> noise_handshake" where
  "hs_mixKey C data h = h\<lparr>hs_chainKey := mixKey C (hs_chainKey h) data\<rparr>"

definition Handshake_Clear :: "noise_handshake \<Rightarrow> noise_handshake" where
  "Handshake_Clear h =
     h\<lparr>localEphemeral := setZero (localEphemeral h), remoteEphemeral := setZero (remoteEphemeral h),
       hs_chainKey := setZero (hs_chainKey h), hs_hash := setZero (hs_hash h), localIndex := 0, hs_state := handshakeZeroed\<rparr>"

section \<open>The index table\<close>

definition IndexTable_Delete :: "u32 \<Rightarrow> (u32 \<rightharpoonup> indexTableEntry) \<Rightarrow> (u32 \<rightharpoonup> indexTableEntry)" where
  "IndexTable_Delete index table = table(index := None)"

definition SwapIndexForKeypair :: "u32 \<Rightarrow> nat \<Rightarrow> (u32 \<rightharpoonup> indexTableEntry) \<Rightarrow> (u32 \<rightharpoonup> indexTableEntry)" where
  "SwapIndexForKeypair index keypair table =
     (case table index of
        None \<Rightarrow> table
      | Some entry \<Rightarrow> table(index \<mapsto> \<lparr>ie_peer = ie_peer entry, ie_handshake = False, ie_keypair = Some keypair\<rparr>))"

partial_function (option) new_index :: "(nat \<Rightarrow> u32 \<times> error option) \<Rightarrow> nat \<Rightarrow> (u32 \<rightharpoonup> indexTableEntry) \<Rightarrow> (u32 \<times> error option) option" where
  "new_index r i table =
     (case snd (r i) of
        Some e \<Rightarrow> Some (r i)
      | None \<Rightarrow> if table (fst (r i)) \<noteq> None then new_index r (Suc i) table else Some (r i))"

definition NewIndexForHandshake ::
  "nat \<Rightarrow> (nat \<Rightarrow> u32 \<times> error option) \<Rightarrow> (u32 \<rightharpoonup> indexTableEntry) \<Rightarrow> ((u32 \<times> error option) \<times> (u32 \<rightharpoonup> indexTableEntry)) option" where
  "NewIndexForHandshake peer r table =
     (case new_index r 0 table of
        None \<Rightarrow> None
      | Some (index, Some e) \<Rightarrow> Some ((index, Some e), table)
      | Some (index, None) \<Rightarrow> Some ((index, None), table(index \<mapsto> \<lparr>ie_peer = peer, ie_handshake = True, ie_keypair = None\<rparr>)))"

definition DeleteKeypair :: "nat option \<Rightarrow> wg_device \<Rightarrow> wg_device" where
  "DeleteKeypair key d =
     (case key of None \<Rightarrow> d | Some k \<Rightarrow> d\<lparr>indexTable := IndexTable_Delete (kp_localIndex (keypair_at d k)) (indexTable d)\<rparr>)"

definition errAddExistingPeer :: error where
  "errAddExistingPeer = ErrNew ''adding existing peer''"

section \<open>The handshake\<close>

definition createMessageInitiation ::
  "crypto \<Rightarrow> bytes \<times> error option \<Rightarrow> (nat \<Rightarrow> u32 \<times> error option) \<Rightarrow> int \<Rightarrow> u32 \<Rightarrow> nat \<Rightarrow> wg_device \<Rightarrow>
   (messageInitiation result \<times> wg_device) option" where
  "createMessageInitiation C rkey rindex now msgType p d =
     (let h1 = (handshake (peer_at d p))\<lparr>hs_hash := InitialHash C, hs_chainKey := InitialChainKey C\<rparr>;
          (sk, err) = newPrivateKey rkey;
          h2 = h1\<lparr>localEphemeral := sk\<rparr>
      in case err of
           Some e \<Rightarrow> Some (Inl e, set_handshake p h2 d)
         | None \<Rightarrow>
             let h3 = hs_mixHash C (remoteStatic h2) h2;
                 ephemeral = ScalarBaseMult C (localEphemeral h3);
                 h4 = hs_mixHash C ephemeral (hs_mixKey C ephemeral h3);
                 (ss, sserr) = sharedSecret C (localEphemeral h4) (remoteStatic h4)
             in case sserr of
                  Some e \<Rightarrow> Some (Inl e, set_handshake p h4 d)
                | None \<Rightarrow>
                    let (ck, key) = KDF2 C (hs_chainKey h4) ss;
                        h5 = h4\<lparr>hs_chainKey := ck\<rparr>;
                        static = aead_Seal C key ZeroNonce (publicKey d) (hs_hash h5);
                        h6 = hs_mixHash C static h5
                    in if isZero (precomputedStaticStatic h6) then Some (Inl errInvalidPublicKey, set_handshake p h6 d)
                       else
                         let (ck2, key2) = KDF2 C (hs_chainKey h6) (precomputedStaticStatic h6);
                             h7 = h6\<lparr>hs_chainKey := ck2\<rparr>;
                             timestamp = aead_Seal C key2 ZeroNonce (stamp now) (hs_hash h7)
                         in case NewIndexForHandshake p rindex (IndexTable_Delete (localIndex h7) (indexTable d)) of
                              None \<Rightarrow> None
                            | Some ((index, Some e), table) \<Rightarrow> Some (Inl e, set_handshake p h7 (d\<lparr>indexTable := table\<rparr>))
                            | Some ((index, None), table) \<Rightarrow>
                                Some (Inr \<lparr>mi_Type = msgType, mi_Sender = index, mi_Ephemeral = ephemeral, mi_Static = static,
                                           mi_Timestamp = timestamp, mi_MAC1 = replicate 16 0, mi_MAC2 = replicate 16 0\<rparr>,
                                      set_handshake p ((hs_mixHash C timestamp (h7\<lparr>localIndex := index\<rparr>))\<lparr>hs_state := handshakeInitiationCreated\<rparr>)
                                        (d\<lparr>indexTable := table\<rparr>)))"

text \<open>\<open>HandshakeInitationRate\<close>, a fiftieth of a second.\<close>

definition HandshakeInitationRate :: int where "HandshakeInitationRate = 1000000000 div 50"

definition peer_with_key :: "bytes \<Rightarrow> wg_device \<Rightarrow> nat option" where
  "peer_with_key pk d = map_of (keyMap d) pk"

definition no_handshake :: noise_handshake where
  "no_handshake = \<lparr>hs_state = handshakeZeroed, hs_hash = replicate 32 0, hs_chainKey = replicate 32 0, presharedKey = replicate 32 0,
     localEphemeral = replicate 32 0, localIndex = 0, remoteIndex = 0, remoteStatic = replicate 32 0, remoteEphemeral = replicate 32 0,
     precomputedStaticStatic = replicate 32 0, lastTimestamp = replicate 12 0,
     lastInitiationConsumption = zero_time, lastSentHandshake = zero_time\<rparr>"

definition DefaultUdpWindow :: u32 where "DefaultUdpWindow = 500"
definition MaxPeers :: nat where "MaxPeers = 2 ^ 16"

definition NewPeer :: "crypto \<Rightarrow> bytes \<Rightarrow> wg_device \<Rightarrow> nat result \<times> wg_device" where
  "NewPeer C pk d =
     (if isClosed d then (Inl (ErrNew ''device closed''), d)
      else if length (keyMap d) \<ge> MaxPeers then (Inl (ErrNew ''too many peers''), d)
      else if peer_with_key pk d \<noteq> None then (Inl errAddExistingPeer, d)
      else
        let h = no_handshake\<lparr>precomputedStaticStatic := fst (sharedSecret C (privateKey d) pk), remoteStatic := pk\<rparr>;
            q = \<lparr>isRunning = False, kp_current = None, kp_previous = None, kp_next = None, handshake = h, state_allowedIPs = [],
                 testAllowedIP = None, deleteOnIdle = False, peer_endpoint = None, clearSrcOnTx = False, disableRoaming = False,
                 udpWindow = DefaultUdpWindow, cookieGenerator = CookieGenerator_Init C pk no_generator, timers = timersInit,
                 session = no_session, staged = [], queuedOutboundPackets = 0, persistentKeepaliveInterval = 0, lastHandshakeNano = 0,
                 rxBytes = 0, txBytes = 0\<rparr>
        in (Inr (next_peer d), set_peer (next_peer d) q (d\<lparr>keyMap := (pk, next_peer d) # keyMap d, next_peer := Suc (next_peer d)\<rparr>)))"

definition SetAllowedIPs :: "nat \<Rightarrow> prefix list \<Rightarrow> wg_device \<Rightarrow> wg_device option" where
  "SetAllowedIPs p ps d =
     (if state_allowedIPs (peer_at d p) = ps then Some d
      else case (setPeerPrefixes p ps (allowedips d), mkIPInCIDRsTestFunc ps) of
             (Some T, Some f) \<Rightarrow>
               Some (set_peer p ((peer_at d p)\<lparr>state_allowedIPs := ps, testAllowedIP := Some f\<rparr>) (d\<lparr>allowedips := T\<rparr>))
           | _ \<Rightarrow> None)"

definition SetEndpointFromPacket :: "endpoint \<Rightarrow> wg_peer \<Rightarrow> wg_peer" where
  "SetEndpointFromPacket ep q =
     (if disableRoaming q then q
      else q\<lparr>udpWindow := (if map_option DstToString (peer_endpoint q) \<noteq> Some (DstToString ep) then DefaultUdpWindow else udpWindow q),
             clearSrcOnTx := False, peer_endpoint := Some ep\<rparr>)"

text \<open>\<open>Start\<close> also flushes the queues of its two routines, which are not part of the state.\<close>

definition Peer_Start :: "int \<Rightarrow> nat \<Rightarrow> wg_device \<Rightarrow> wg_device" where
  "Peer_Start now p d =
     (if isClosed d \<or> isRunning (peer_at d p) then d
      else
        let q = peer_at d p;
            h = (handshake q)\<lparr>lastSentHandshake := now - (RekeyTimeout + 1000000000)\<rparr>;
            t = timersStart (timers q)
        in set_peer p (q\<lparr>queuedOutboundPackets := 0, handshake := h,
             timers := (if deleteOnIdle q then t\<lparr>zeroKeyMaterial := Some (now + RejectAfterTime * 3)\<rparr> else t), isRunning := True\<rparr>) d)"

definition LookupPeer :: "crypto \<Rightarrow> int \<Rightarrow> bytes \<Rightarrow> wg_device \<Rightarrow> (nat option \<times> wg_device) option" where
  "LookupPeer C now pk d =
     (case (peer_with_key pk d, lookupFunc d) of
        (Some p, _) \<Rightarrow> Some (Some p, d)
      | (None, None) \<Rightarrow> Some (None, d)
      | (None, Some f) \<Rightarrow>
          (case f pk of
             None \<Rightarrow> Some (None, d)
           | Some conf \<Rightarrow>
               (case NewPeer C pk d of
                  (Inl e, d1) \<Rightarrow> Some (if e = errAddExistingPeer then peer_with_key pk d1 else None, d1)
                | (Inr p, d1) \<Rightarrow>
                    (case SetAllowedIPs p (conf_AllowedIPs conf) d1 of
                       None \<Rightarrow> None
                     | Some d2 \<Rightarrow>
                         let q = (peer_at d2 p)\<lparr>deleteOnIdle := True\<rparr>;
                             q' = (case conf_Endpoint conf of None \<Rightarrow> q | Some ep \<Rightarrow> SetEndpointFromPacket ep q)
                         in Some (Some p, Peer_Start now p (set_peer p q' d2))))))"

text \<open>The second reading of the clock is the one that \<open>lastInitiationConsumption\<close> gets.\<close>

definition ConsumeMessageInitiation ::
  "crypto \<Rightarrow> int \<Rightarrow> int \<Rightarrow> messageInitiation \<Rightarrow> wg_device \<Rightarrow> (nat option \<times> wg_device) option" where
  "ConsumeMessageInitiation C now1 now2 msg d =
     (if mi_Type msg \<noteq> MessageInitiationType then Some (None, d)
      else
        let hash1 = mixHash C (mixHash C (InitialHash C) (publicKey d)) (mi_Ephemeral msg);
            ck1 = mixKey C (InitialChainKey C) (mi_Ephemeral msg);
            (ss, err) = sharedSecret C (privateKey d) (mi_Ephemeral msg)
        in if err \<noteq> None then Some (None, d)
           else
             let (ck2, key) = KDF2 C ck1 ss
             in case aead_Open C key ZeroNonce (mi_Static msg) hash1 of
                  None \<Rightarrow> Some (None, d)
                | Some peerPK \<Rightarrow>
                    let hash2 = mixHash C hash1 (mi_Static msg)
                    in case LookupPeer C now1 peerPK d of
                         None \<Rightarrow> None
                       | Some (None, d1) \<Rightarrow> Some (None, d1)
                       | Some (Some p, d1) \<Rightarrow>
                           if \<not> isRunning (peer_at d1 p) then Some (None, d1)
                           else
                             let h = handshake (peer_at d1 p)
                             in if isZero (precomputedStaticStatic h) then Some (None, d1)
                                else
                                  let (ck3, key2) = KDF2 C ck2 (precomputedStaticStatic h)
                                  in case aead_Open C key2 ZeroNonce (mi_Timestamp msg) hash2 of
                                       None \<Rightarrow> Some (None, d1)
                                     | Some timestamp \<Rightarrow>
                                         let hash3 = mixHash C hash2 (mi_Timestamp msg);
                                             replay = (\<not> Timestamp_After timestamp (lastTimestamp h));
                                             flood = (time_Sub now1 (lastInitiationConsumption h) \<le> HandshakeInitationRate)
                                         in if replay \<or> flood then Some (None, d1)
                                            else
                                              let h' = h\<lparr>hs_hash := hash3, hs_chainKey := ck3, remoteIndex := mi_Sender msg,
                                                         remoteEphemeral := mi_Ephemeral msg,
                                                         lastTimestamp := (if Timestamp_After timestamp (lastTimestamp h) then timestamp else lastTimestamp h),
                                                         lastInitiationConsumption :=
                                                           (if now2 > lastInitiationConsumption h then now2 else lastInitiationConsumption h),
                                                         hs_state := handshakeInitiationConsumed\<rparr>
                                              in Some (Some p, set_handshake p h' d1))"

definition createMessageResponse ::
  "crypto \<Rightarrow> bytes \<times> error option \<Rightarrow> (nat \<Rightarrow> u32 \<times> error option) \<Rightarrow> u32 \<Rightarrow> nat \<Rightarrow> wg_device \<Rightarrow>
   (messageResponse result \<times> wg_device) option" where
  "createMessageResponse C rkey rindex msgType p d =
     (let h = handshake (peer_at d p)
      in if hs_state h \<noteq> handshakeInitiationConsumed
         then Some (Inl (ErrNew ''handshake initiation must be consumed first''), d)
         else case NewIndexForHandshake p rindex (IndexTable_Delete (localIndex h) (indexTable d)) of
                None \<Rightarrow> None
              | Some ((index, Some e), table) \<Rightarrow> Some (Inl e, set_handshake p (h\<lparr>localIndex := index\<rparr>) (d\<lparr>indexTable := table\<rparr>))
              | Some ((index, None), table) \<Rightarrow>
                  let d1 = d\<lparr>indexTable := table\<rparr>;
                      (sk, err) = newPrivateKey rkey;
                      h1 = h\<lparr>localIndex := index, localEphemeral := sk\<rparr>
                  in case err of
                       Some e \<Rightarrow> Some (Inl e, set_handshake p h1 d1)
                     | None \<Rightarrow>
                         let ephemeral = ScalarBaseMult C (localEphemeral h1);
                             h2 = hs_mixKey C ephemeral (hs_mixHash C ephemeral h1);
                             (ss, err1) = sharedSecret C (localEphemeral h2) (remoteEphemeral h2)
                         in case err1 of
                              Some e \<Rightarrow> Some (Inl e, set_handshake p h2 d1)
                            | None \<Rightarrow>
                                let h3 = hs_mixKey C ss h2;
                                    (ss2, err2) = sharedSecret C (localEphemeral h3) (remoteStatic h3)
                                in case err2 of
                                     Some e \<Rightarrow> Some (Inl e, set_handshake p h3 d1)
                                   | None \<Rightarrow>
                                       let h4 = hs_mixKey C ss2 h3;
                                           (ck, tau, key) = KDF3 C (hs_chainKey h4) (presharedKey h4);
                                           h5 = hs_mixHash C tau (h4\<lparr>hs_chainKey := ck\<rparr>);
                                           empty = aead_Seal C key ZeroNonce [] (hs_hash h5);
                                           h6 = (hs_mixHash C empty h5)\<lparr>hs_state := handshakeResponseCreated\<rparr>
                                       in Some (Inr \<lparr>mr_Type = msgType, mr_Sender = index, mr_Receiver = remoteIndex h, mr_Ephemeral = ephemeral,
                                                     mr_Empty = empty, mr_MAC1 = replicate 16 0, mr_MAC2 = replicate 16 0\<rparr>,
                                                set_handshake p h6 d1))"

definition ConsumeMessageResponse :: "crypto \<Rightarrow> messageResponse \<Rightarrow> wg_device \<Rightarrow> nat option \<times> wg_device" where
  "ConsumeMessageResponse C msg d =
     (if mr_Type msg \<noteq> MessageResponseType then (None, d)
      else case indexTable d (mr_Receiver msg) of
             None \<Rightarrow> (None, d)
           | Some entry \<Rightarrow>
               if \<not> ie_handshake entry then (None, d)
               else
                 let p = ie_peer entry; h = handshake (peer_at d p)
                 in if hs_state h \<noteq> handshakeInitiationCreated then (None, d)
                    else
                      let hash1 = mixHash C (hs_hash h) (mr_Ephemeral msg);
                          ck1 = mixKey C (hs_chainKey h) (mr_Ephemeral msg);
                          (ss, err) = sharedSecret C (localEphemeral h) (mr_Ephemeral msg)
                      in if err \<noteq> None then (None, d)
                         else
                           let ck2 = mixKey C ck1 ss;
                               (ss2, err2) = sharedSecret C (privateKey d) (mr_Ephemeral msg)
                           in if err2 \<noteq> None then (None, d)
                              else
                                let ck3 = mixKey C ck2 ss2;
                                    (ck4, tau, key) = KDF3 C ck3 (presharedKey h);
                                    hash2 = mixHash C hash1 tau
                                in case aead_Open C key ZeroNonce (mr_Empty msg) hash2 of
                                     None \<Rightarrow> (None, d)
                                   | Some _ \<Rightarrow>
                                       (Some p, set_handshake p (h\<lparr>hs_hash := mixHash C hash2 (mr_Empty msg), hs_chainKey := ck4,
                                                                    remoteIndex := mr_Sender msg, hs_state := handshakeResponseConsumed\<rparr>) d))"

text \<open>\<open>BeginSymmetricSession\<close>: the key pair of the finished handshake, and its place among the three of
  the peer.\<close>

definition rotate_keypairs :: "nat \<Rightarrow> bool \<Rightarrow> nat \<Rightarrow> wg_device \<Rightarrow> wg_device" where
  "rotate_keypairs p initiator k d =
     (let q = peer_at d p; previous = kp_previous q; next = kp_next q; current = kp_current q
      in if initiator then
           let d1 = (if next \<noteq> None then DeleteKeypair current (set_peer p (q\<lparr>kp_next := None, kp_previous := next\<rparr>) d)
                     else set_peer p (q\<lparr>kp_previous := current\<rparr>) d);
               d2 = DeleteKeypair previous d1
           in set_peer p ((peer_at d2 p)\<lparr>kp_current := Some k\<rparr>) d2
         else
           let d1 = DeleteKeypair next (set_peer p (q\<lparr>kp_next := Some k\<rparr>) d)
           in DeleteKeypair previous (set_peer p ((peer_at d1 p)\<lparr>kp_previous := None\<rparr>) d1))"

definition BeginSymmetricSession :: "crypto \<Rightarrow> int \<Rightarrow> nat \<Rightarrow> wg_device \<Rightarrow> unit result \<times> wg_device" where
  "BeginSymmetricSession C now p d =
     (let h = handshake (peer_at d p); (k1, k2) = KDF2 C (hs_chainKey h) []
      in if hs_state h \<noteq> handshakeResponseConsumed \<and> hs_state h \<noteq> handshakeResponseCreated
         then (Inl (ErrNew (''invalid state for keypair derivation: '' @ handshakeState_String (hs_state h))), d)
         else
           let initiator = (hs_state h = handshakeResponseConsumed);
               sendKey = (if initiator then k1 else k2); recvKey = (if initiator then k2 else k1);
               k = next_keypair d;
               kp = \<lparr>sendNonce = 0, send_key = sendKey, receive_key = recvKey, replayFilter = Filter_Reset empty_filter,
                     isInitiator = initiator, created = now, kp_localIndex = localIndex h, kp_remoteIndex = remoteIndex h\<rparr>;
               h' = h\<lparr>hs_chainKey := setZero (hs_chainKey h), hs_hash := setZero (hs_hash h), localEphemeral := setZero (localEphemeral h),
                      hs_state := handshakeZeroed, localIndex := 0\<rparr>;
               d1 = (set_handshake p h' d)\<lparr>keypair_at := (keypair_at d)(k := kp), next_keypair := Suc k,
                      indexTable := SwapIndexForKeypair (localIndex h) k (indexTable d)\<rparr>
           in (Inr (), rotate_keypairs p initiator k d1))"

definition ReceivedWithKeypair :: "nat \<Rightarrow> nat \<Rightarrow> wg_device \<Rightarrow> bool \<times> wg_device" where
  "ReceivedWithKeypair p receivedKeypair d =
     (let q = peer_at d p
      in if kp_next q \<noteq> Some receivedKeypair then (False, d)
         else let d1 = DeleteKeypair (kp_previous q) (set_peer p (q\<lparr>kp_previous := kp_current q\<rparr>) d);
                  q1 = peer_at d1 p
              in (True, set_peer p (q1\<lparr>kp_current := kp_next q1, kp_next := None\<rparr>) d1))"

definition RejectAfterMessages :: u64 where "RejectAfterMessages = - (2 ^ 13) - 1"

definition FlushStagedPackets :: "wg_peer \<Rightarrow> wg_peer" where
  "FlushStagedPackets q =
     q\<lparr>queuedOutboundPackets := queuedOutboundPackets q - int (sum_list (map length (staged q))), staged := []\<rparr>"

definition ZeroAndFlushAll :: "nat \<Rightarrow> wg_device \<Rightarrow> wg_device" where
  "ZeroAndFlushAll p d =
     (let q = peer_at d p;
          d1 = DeleteKeypair (kp_next q) (DeleteKeypair (kp_current q) (DeleteKeypair (kp_previous q) d));
          d2 = d1\<lparr>indexTable := IndexTable_Delete (localIndex (handshake q)) (indexTable d1)\<rparr>;
          q1 = FlushStagedPackets (q\<lparr>timers := (timers q)\<lparr>sessionExpired := None\<rparr>, kp_previous := None, kp_current := None, kp_next := None,
                 handshake := Handshake_Clear (handshake q)\<rparr>)
      in set_peer p (q1\<lparr>session := noteSessionStateLocked PeerSessionNone ((session q1)\<lparr>sessionExpires := zero_time\<rparr>)\<rparr>) d2)"

fun spend_nonce :: "nat option \<Rightarrow> (nat \<Rightarrow> keypair) \<Rightarrow> (nat \<Rightarrow> keypair)" where
  "spend_nonce None ks = ks"
| "spend_nonce (Some k) ks = ks(k := (ks k)\<lparr>sendNonce := RejectAfterMessages\<rparr>)"

definition ExpireCurrentKeypairs :: "int \<Rightarrow> nat \<Rightarrow> wg_device \<Rightarrow> wg_device" where
  "ExpireCurrentKeypairs now p d =
     (let q = peer_at d p;
          d1 = d\<lparr>indexTable := IndexTable_Delete (localIndex (handshake q)) (indexTable d)\<rparr>;
          h = (Handshake_Clear (handshake q))\<lparr>lastSentHandshake := now - (RekeyTimeout + 1000000000)\<rparr>;
          d2 = d1\<lparr>keypair_at := spend_nonce (kp_next q) (spend_nonce (kp_current q) (keypair_at d1))\<rparr>
      in set_peer p (q\<lparr>handshake := h,
           session := noteSessionStateLocked PeerSessionExpired ((session q)\<lparr>sessionExpires := zero_time\<rparr>)\<rparr>) d2)"

definition Peer_Stop :: "nat \<Rightarrow> wg_device \<Rightarrow> wg_device" where
  "Peer_Stop p d =
     (let q = peer_at d p
      in if \<not> isRunning q then d
         else ZeroAndFlushAll p (set_peer p (q\<lparr>isRunning := False, timers := timersStop (timers q)\<rparr>) d))"

definition RemovePeer :: "bytes \<Rightarrow> wg_device \<Rightarrow> wg_device" where
  "RemovePeer key d =
     (case peer_with_key key d of
        None \<Rightarrow> d
      | Some p \<Rightarrow>
          let d1 = Peer_Stop p (d\<lparr>allowedips := removeByPeerLocked p (allowedips d)\<rparr>)
          in d1\<lparr>keyMap := filter (\<lambda>(k, _). k \<noteq> key) (keyMap d1)\<rparr>)"

definition SetPrivateKey :: "crypto \<Rightarrow> int \<Rightarrow> bytes \<Rightarrow> wg_device \<Rightarrow> wg_device" where
  "SetPrivateKey C now sk d =
     (if sk = privateKey d then d
      else
        let pk = ScalarBaseMult C sk;
            d1 = fold (\<lambda>(key, p) d. if remoteStatic (handshake (peer_at d p)) = pk then RemovePeer key d else d) (keyMap d) d;
            d2 = d1\<lparr>privateKey := sk, publicKey := pk, cookieChecker := CookieChecker_Init C pk (cookieChecker d1)\<rparr>;
            d3 = fold (\<lambda>(key, p) d. let h = handshake (peer_at d p)
                   in set_handshake p (h\<lparr>precomputedStaticStatic := fst (sharedSecret C sk (remoteStatic h))\<rparr>) d) (keyMap d2) d2
        in fold (\<lambda>(key, p) d. ExpireCurrentKeypairs now p d) (keyMap d3) d3)"

text \<open>\<open>NewDevice\<close>.\<close>

definition no_peer :: wg_peer where
  "no_peer = \<lparr>isRunning = False, kp_current = None, kp_previous = None, kp_next = None, handshake = no_handshake, state_allowedIPs = [],
     testAllowedIP = None, deleteOnIdle = False, peer_endpoint = None, clearSrcOnTx = False, disableRoaming = False, udpWindow = 0,
     cookieGenerator = no_generator, timers = timersInit, session = no_session, staged = [], queuedOutboundPackets = 0,
     persistentKeepaliveInterval = 0, lastHandshakeNano = 0, rxBytes = 0, txBytes = 0\<rparr>"

definition no_keypair :: keypair where
  "no_keypair = \<lparr>sendNonce = 0, send_key = [], receive_key = [], replayFilter = empty_filter, isInitiator = False, created = zero_time,
     kp_localIndex = 0, kp_remoteIndex = 0\<rparr>"

definition new_device :: wg_device where
  "new_device = \<lparr>device_state = deviceStateDown, privateKey = replicate 32 0, publicKey = replicate 32 0, keyMap = [], lookupFunc = None,
     peer_at = (\<lambda>_. no_peer), next_peer = 0, keypair_at = (\<lambda>_. no_keypair), next_keypair = 0, indexTable = Map.empty,
     allowedips = no_allowedIPs, cookieChecker = no_checker, wire = new_wire, limiter = ratelimiter_Init, underLoadUntil = 0\<rparr>"

end
