(* ===== verification/Noise_Index.thy ===== *)
theory Noise_Index
  imports Noise_Device
begin

text \<open>
  The index table never lies: an index leads to the handshake or to the key pair that has it, and to
  nothing else. The invariant, each operation of \<open>Noise_Device\<close> that keeps it, and what goes wrong with
  the index 0.
\<close>

section \<open>The invariant\<close>

definition slots :: "wg_peer \<Rightarrow> nat option list" where
  "slots q = [kp_previous q, kp_current q, kp_next q]"

definition live :: "wg_peer \<Rightarrow> nat set" where
  "live q = {k. Some k \<in> set (slots q)}"

definition handshake_entry :: "nat \<Rightarrow> indexTableEntry" where
  "handshake_entry p = \<lparr>ie_peer = p, ie_handshake = True, ie_keypair = None\<rparr>"

definition keypair_entry :: "nat \<Rightarrow> nat \<Rightarrow> indexTableEntry" where
  "keypair_entry p k = \<lparr>ie_peer = p, ie_handshake = False, ie_keypair = Some k\<rparr>"

definition peer_index_ok :: "wg_device \<Rightarrow> nat \<Rightarrow> bool" where
  "peer_index_ok d p \<longleftrightarrow>
     (let q = peer_at d p; h = handshake q
      in distinct (filter (\<lambda>k. k \<noteq> None) (slots q)) \<and>
         (\<forall>k \<in> live q. k < next_keypair d \<and> indexTable d (kp_localIndex (keypair_at d k)) = Some (keypair_entry p k)) \<and>
         (localIndex h \<noteq> 0 \<longrightarrow> indexTable d (localIndex h) = Some (handshake_entry p)) \<and>
         (hs_state h \<in> {handshakeInitiationCreated, handshakeResponseCreated, handshakeResponseConsumed} \<longrightarrow> localIndex h \<noteq> 0))"

definition index_ok :: "wg_device \<Rightarrow> bool" where
  "index_ok d \<longleftrightarrow> indexTable d 0 = None \<and> (\<forall>p. peer_index_ok d p) \<and>
     (\<forall>i e. indexTable d i = Some e \<longrightarrow>
        (e = handshake_entry (ie_peer e) \<and> localIndex (handshake (peer_at d (ie_peer e))) = i) \<or>
        (\<exists>k \<in> live (peer_at d (ie_peer e)). e = keypair_entry (ie_peer e) k \<and> kp_localIndex (keypair_at d k) = i)) \<and>
     (\<forall>p \<ge> next_peer d. live (peer_at d p) = {} \<and> localIndex (handshake (peer_at d p)) = 0)"

lemma entry_simps [simp]:
  "handshake_entry p \<noteq> keypair_entry p' k" "keypair_entry p' k \<noteq> handshake_entry p"
  "handshake_entry p = handshake_entry p' \<longleftrightarrow> p = p'" "keypair_entry p k = keypair_entry p' k' \<longleftrightarrow> p = p' \<and> k = k'"
  "ie_peer (handshake_entry p) = p" "ie_peer (keypair_entry p k) = p"
  by (auto simp: handshake_entry_def keypair_entry_def)

lemma slots_simps [simp]:
  "slots (q\<lparr>handshake := h\<rparr>) = slots q" "live (q\<lparr>handshake := h\<rparr>) = live q"
  "slots (q\<lparr>isRunning := b\<rparr>) = slots q" "live (q\<lparr>isRunning := b\<rparr>) = live q"
  by (simp_all add: slots_def live_def)

lemma set_peer_simps [simp]:
  "peer_at (set_peer p q d) x = (if x = p then q else peer_at d x)"
  "indexTable (set_peer p q d) = indexTable d" "keypair_at (set_peer p q d) = keypair_at d" "next_keypair (set_peer p q d) = next_keypair d"
  "next_peer (set_peer p q d) = next_peer d"
  by (simp_all add: set_peer_def)

lemma set_handshake_simps [simp]:
  "peer_at (set_handshake p h d) x = (if x = p then (peer_at d p)\<lparr>handshake := h\<rparr> else peer_at d x)"
  "indexTable (set_handshake p h d) = indexTable d" "keypair_at (set_handshake p h d) = keypair_at d"
  "next_keypair (set_handshake p h d) = next_keypair d" "next_peer (set_handshake p h d) = next_peer d"
  by (simp_all add: set_handshake_def)

text \<open>The invariant reads these parts of a device only.\<close>

lemma index_ok_cong:
  assumes "index_ok d" "indexTable d' = indexTable d" "next_keypair d' = next_keypair d" "next_peer d' = next_peer d"
    and "\<And>p. slots (peer_at d' p) = slots (peer_at d p)" "\<And>p. localIndex (handshake (peer_at d' p)) = localIndex (handshake (peer_at d p))"
    and "\<And>k. kp_localIndex (keypair_at d' k) = kp_localIndex (keypair_at d k)"
    and "\<And>p. hs_state (handshake (peer_at d' p)) \<in> {handshakeInitiationCreated, handshakeResponseCreated, handshakeResponseConsumed} \<Longrightarrow>
           localIndex (handshake (peer_at d p)) \<noteq> 0"
  shows "index_ok d'"
proof -
  have l: "live (peer_at d' p) = live (peer_at d p)" for p using assms(5) by (simp add: live_def)
  show ?thesis using assms(1,8) unfolding index_ok_def peer_index_ok_def Let_def assms(2-7) l by meson
qed

text \<open>What the invariant says of an index in use.\<close>

lemma index_okD:
  assumes "index_ok d"
  shows "indexTable d 0 = None"
    "\<And>p k. k \<in> live (peer_at d p) \<Longrightarrow> k < next_keypair d"
    "\<And>p k. k \<in> live (peer_at d p) \<Longrightarrow> indexTable d (kp_localIndex (keypair_at d k)) = Some (keypair_entry p k)"
    "\<And>p. localIndex (handshake (peer_at d p)) \<noteq> 0 \<Longrightarrow> indexTable d (localIndex (handshake (peer_at d p))) = Some (handshake_entry p)"
    "\<And>p. distinct (filter (\<lambda>k. k \<noteq> None) (slots (peer_at d p)))"
    "\<And>p. hs_state (handshake (peer_at d p)) \<in> {handshakeInitiationCreated, handshakeResponseCreated, handshakeResponseConsumed} \<Longrightarrow>
       localIndex (handshake (peer_at d p)) \<noteq> 0"
    "\<And>i e. indexTable d i = Some e \<Longrightarrow> (e = handshake_entry (ie_peer e) \<and> localIndex (handshake (peer_at d (ie_peer e))) = i) \<or>
        (\<exists>k \<in> live (peer_at d (ie_peer e)). e = keypair_entry (ie_peer e) k \<and> kp_localIndex (keypair_at d k) = i)"
    "\<And>p. next_peer d \<le> p \<Longrightarrow> live (peer_at d p) = {} \<and> localIndex (handshake (peer_at d p)) = 0"
  using assms unfolding index_ok_def peer_index_ok_def Let_def by blast+

lemma index_okI:
  assumes "indexTable d 0 = None"
    and "\<And>p k. k \<in> live (peer_at d p) \<Longrightarrow> k < next_keypair d"
    and "\<And>p k. k \<in> live (peer_at d p) \<Longrightarrow> indexTable d (kp_localIndex (keypair_at d k)) = Some (keypair_entry p k)"
    and "\<And>p. localIndex (handshake (peer_at d p)) \<noteq> 0 \<Longrightarrow> indexTable d (localIndex (handshake (peer_at d p))) = Some (handshake_entry p)"
    and "\<And>p. distinct (filter (\<lambda>k. k \<noteq> None) (slots (peer_at d p)))"
    and "\<And>p. hs_state (handshake (peer_at d p)) \<in> {handshakeInitiationCreated, handshakeResponseCreated, handshakeResponseConsumed} \<Longrightarrow>
       localIndex (handshake (peer_at d p)) \<noteq> 0"
    and "\<And>i e. indexTable d i = Some e \<Longrightarrow> (e = handshake_entry (ie_peer e) \<and> localIndex (handshake (peer_at d (ie_peer e))) = i) \<or>
        (\<exists>k \<in> live (peer_at d (ie_peer e)). e = keypair_entry (ie_peer e) k \<and> kp_localIndex (keypair_at d k) = i)"
    and "\<And>p. next_peer d \<le> p \<Longrightarrow> live (peer_at d p) = {} \<and> localIndex (handshake (peer_at d p)) = 0"
  shows "index_ok d"
  using assms unfolding index_ok_def peer_index_ok_def Let_def by blast

section \<open>A new index for a handshake\<close>

lemma new_index_result: "new_index r i table = Some y \<Longrightarrow> (\<exists>n. r n = y) \<and> (snd y = None \<longrightarrow> table (fst y) = None)"
  by (rule new_index.raw_induct[of "\<lambda>r i table y. (\<exists>n. r n = y) \<and> (snd y = None \<longrightarrow> table (fst y) = None)" r i table y])
    (auto split: option.splits if_splits)

lemma new_index_returns:
  assumes "\<And>n. snd (r n) = None" "table (fst (r (i + n))) = None"
  shows "\<exists>index. new_index r i table = Some (index, None) \<and> table index = None \<and> (\<exists>m. fst (r m) = index)"
  using assms(2)
proof (induction n arbitrary: i)
  case 0
  then have "new_index r i table = Some (r i)" using assms(1) by (subst new_index.simps) simp
  then show ?case using 0 assms(1) by (cases "r i") (auto simp: prod_eq_iff)
next
  case (Suc n)
  show ?case
  proof (cases "table (fst (r i))")
    case None
    then have "new_index r i table = Some (r i)" using assms(1) by (subst new_index.simps) simp
    then show ?thesis using None assms(1) by (cases "r i") (auto simp: prod_eq_iff)
  next
    case (Some e)
    then have "new_index r i table = new_index r (Suc i) table" using assms(1) by (subst new_index.simps) simp
    then show ?thesis using Suc.IH[of "Suc i"] Suc.prems by simp
  qed
qed

text \<open>The old index of the handshake is given up and a new one taken.\<close>

lemma index_ok_renew:
  assumes ok: "index_ok d" and fresh: "IndexTable_Delete (localIndex (handshake (peer_at d p))) (indexTable d) index = None"
    and nz: "index \<noteq> 0" and p: "p < next_peer d" and h: "localIndex h = index"
  shows "index_ok (set_handshake p h (d\<lparr>indexTable := (IndexTable_Delete (localIndex (handshake (peer_at d p))) (indexTable d))
           (index \<mapsto> handshake_entry p)\<rparr>))"
proof -
  let ?old = "localIndex (handshake (peer_at d p))"
  note I = index_okD[OF ok]
  have nold: "kp_localIndex (keypair_at d k) \<noteq> ?old" if "k \<in> live (peer_at d x)" for k x
    using I(1) I(3)[OF that] I(4)[of p] by (cases "?old = 0") auto
  have nidx: "kp_localIndex (keypair_at d k) \<noteq> index" if "k \<in> live (peer_at d x)" for k x
    using I(3)[OF that] nold[OF that] fresh by (auto simp: IndexTable_Delete_def split: if_splits)
  have other: "localIndex (handshake (peer_at d x)) \<noteq> ?old \<and> localIndex (handshake (peer_at d x)) \<noteq> index"
    if "x \<noteq> p" "localIndex (handshake (peer_at d x)) \<noteq> 0" for x
    using I(4)[OF that(2)] I(4)[of p] I(1) fresh that by (cases "?old = 0") (auto simp: IndexTable_Delete_def split: if_splits)
  show ?thesis
  proof (rule index_okI, goal_cases)
    case (7 i e)
    then show ?case using I(7)[of i e] other[of "ie_peer e"] nold nidx nz h
      by (auto simp: IndexTable_Delete_def split: if_splits)
  qed (use I nold nidx other nz h p in \<open>auto simp: IndexTable_Delete_def split: if_splits\<close>)
qed

lemma index_ok_drop:
  assumes ok: "index_ok d" and h: "localIndex h = 0" "hs_state h = handshakeZeroed"
  shows "index_ok (set_handshake p h (d\<lparr>indexTable := IndexTable_Delete (localIndex (handshake (peer_at d p))) (indexTable d)\<rparr>))"
proof -
  let ?old = "localIndex (handshake (peer_at d p))"
  note I = index_okD[OF ok]
  have nold: "kp_localIndex (keypair_at d k) \<noteq> ?old" if "k \<in> live (peer_at d x)" for k x
    using I(1) I(3)[OF that] I(4)[of p] by (cases "?old = 0") auto
  have other: "localIndex (handshake (peer_at d x)) \<noteq> ?old" if "x \<noteq> p" "localIndex (handshake (peer_at d x)) \<noteq> 0" for x
    using I(4)[OF that(2)] I(4)[of p] I(1) that by (cases "?old = 0") auto
  show ?thesis
  proof (rule index_okI, goal_cases)
    case (7 i e)
    then show ?case using I(7)[of i e] other[of "ie_peer e"] nold h by (auto simp: IndexTable_Delete_def split: if_splits)
  qed (use I nold other h in \<open>auto simp: IndexTable_Delete_def split: if_splits\<close>)
qed

text \<open>Key pairs that a peer drops leave the table with it.\<close>

lemma index_ok_forget:
  assumes ok: "index_ok d" and q: "handshake q = handshake (peer_at d p)" "live q \<subseteq> live (peer_at d p)"
    and sl: "distinct (filter (\<lambda>k. k \<noteq> None) (slots q))"
    and table: "\<And>i. table i = (if \<exists>k \<in> live (peer_at d p) - live q. kp_localIndex (keypair_at d k) = i then None else indexTable d i)"
  shows "index_ok (set_peer p q (d\<lparr>indexTable := table\<rparr>))"
proof -
  note I = index_okD[OF ok]
  have keep: "table i = indexTable d i" if "\<And>k. k \<in> live (peer_at d p) - live q \<Longrightarrow> kp_localIndex (keypair_at d k) \<noteq> i" for i
  proof -
    have "\<not> (\<exists>k \<in> live (peer_at d p) - live q. kp_localIndex (keypair_at d k) = i)" using that by blast
    then show ?thesis unfolding table by (rule if_not_P)
  qed
  have inj: "k = k'" if "k \<in> live (peer_at d x)" "k' \<in> live (peer_at d y)" "kp_localIndex (keypair_at d k) = kp_localIndex (keypair_at d k')" for k k' x y
    using I(3)[OF that(1)] I(3)[OF that(2)] that(3) by (metis entry_simps(4) option.inject)
  have own: "x = p" if "k \<in> live (peer_at d x)" "k \<in> live (peer_at d p)" for k x using I(3)[OF that(1)] I(3)[OF that(2)] by simp
  have kept: "table (kp_localIndex (keypair_at d k)) = Some (keypair_entry x k)" if k: "k \<in> live (if x = p then q else peer_at d x)" for k x
  proof -
    have kx: "k \<in> live (peer_at d x)" using k q(2) by (cases "x = p") auto
    have "kp_localIndex (keypair_at d k') \<noteq> kp_localIndex (keypair_at d k)" if k': "k' \<in> live (peer_at d p) - live q" for k'
    proof
      assume "kp_localIndex (keypair_at d k') = kp_localIndex (keypair_at d k)"
      then have "k' = k" using inj[of k' p k x] k' kx by blast
      then have "x = p" using own[of k x] kx k' by blast
      then show False using k k' \<open>k' = k\<close> by simp
    qed
    then show ?thesis using keep[of "kp_localIndex (keypair_at d k)"] I(3)[OF kx] by simp
  qed
  have hs: "table (localIndex (handshake (peer_at d x))) = Some (handshake_entry x)" if "localIndex (handshake (peer_at d x)) \<noteq> 0" for x
    using I(4)[OF that] keep[of "localIndex (handshake (peer_at d x))"] I(3)[where p = p] by fastforce
  show ?thesis
  proof (rule index_okI, goal_cases)
    case (7 i e)
    then have "indexTable d i = Some e" "\<not> (\<exists>k \<in> live (peer_at d p) - live q. kp_localIndex (keypair_at d k) = i)"
      using table[of i] by (simp_all split: if_splits)
    then show ?case using I(7)[of i e] q(1) by auto
  next
    case (2 x k)
    then show ?case using I(2) q(2) by (auto split: if_splits)
  next
    case (4 x)
    then show ?case using hs[of x] q(1) by (simp split: if_splits)
  next
    case (8 x)
    then show ?case using I(8)[of x] q by (auto split: if_splits)
  next
    case (3 x k)
    then show ?case using kept[of k x] by (cases "x = p") simp_all
  next
    case (5 x)
    then show ?case using I(5)[of x] sl by simp
  next
    case (6 x)
    then show ?case using I(6)[of x] q(1) by (simp split: if_splits)
  next
    case 1
    then show ?case using I(1) table[of 0] by simp
  qed
qed

section \<open>A new key pair\<close>

text \<open>The key pair takes over the index of the handshake.\<close>

lemma index_ok_session:
  assumes ok: "index_ok d" and busy: "localIndex (handshake (peer_at d p)) \<noteq> 0" and k: "k = next_keypair d"
    and kp: "kp_localIndex kp = localIndex (handshake (peer_at d p))"
    and h: "localIndex (handshake q) = 0" "hs_state (handshake q) = handshakeZeroed"
    and q: "live q \<subseteq> insert k (live (peer_at d p))" "k \<in> live q" "distinct (filter (\<lambda>k. k \<noteq> None) (slots q))"
    and table: "\<And>i. table i = (if i = localIndex (handshake (peer_at d p)) then Some (keypair_entry p k)
                  else if \<exists>k \<in> live (peer_at d p) - live q. kp_localIndex (keypair_at d k) = i then None else indexTable d i)"
  shows "index_ok (set_peer p q (d\<lparr>keypair_at := (keypair_at d)(k := kp), next_keypair := Suc k, indexTable := table\<rparr>))"
proof -
  let ?old = "localIndex (handshake (peer_at d p))"
  note I = index_okD[OF ok]
  have p: "p < next_peer d" using I(8)[of p] busy by (meson not_le)
  have new: "k \<notin> live (peer_at d x)" for x using I(2)[of k x] k by auto
  have old: "indexTable d ?old = Some (handshake_entry p)" using I(4)[OF busy] .
  have nold: "kp_localIndex (keypair_at d k') \<noteq> ?old" if "k' \<in> live (peer_at d x)" for k' x
    using I(3)[OF that] old by auto
  have inj: "k1 = k2 \<and> x = y" if "k1 \<in> live (peer_at d x)" "k2 \<in> live (peer_at d y)" "kp_localIndex (keypair_at d k1) = kp_localIndex (keypair_at d k2)" for k1 k2 x y
    using I(3)[OF that(1)] I(3)[OF that(2)] that(3) by (metis entry_simps(4) option.inject)
  have keep: "table i = indexTable d i" if "i \<noteq> ?old" "\<And>k'. k' \<in> live (peer_at d p) - live q \<Longrightarrow> kp_localIndex (keypair_at d k') \<noteq> i" for i
  proof -
    have "\<not> (\<exists>k \<in> live (peer_at d p) - live q. kp_localIndex (keypair_at d k) = i)" using that(2) by blast
    then show ?thesis using that(1) table[of i] by (simp only: if_False)
  qed
  have kept: "table (kp_localIndex (keypair_at d k')) = Some (keypair_entry x k')"
    if k': "k' \<in> live (peer_at d x)" "x = p \<longrightarrow> k' \<in> live q" for k' x
    using keep[OF nold[OF k'(1)]] inj[OF _ k'(1), of _ p] I(3)[OF k'(1)] k'(2) by fastforce
  show ?thesis
  proof (rule index_okI, goal_cases)
    case 1
    have "0 \<noteq> ?old" using busy by simp
    then show ?case using table[of 0] I(1) by simp
  next
    case (2 x k')
    then show ?case using I(2)[of k' x] I(2)[of k' p] q(1) k by (cases "x = p") fastforce+
  next
    case (3 x k')
    show ?case
    proof (cases "k' = k")
      case True
      then have "x = p" using 3 new[of x] by (simp split: if_splits)
      then show ?thesis using True kp table[of ?old] by simp
    next
      case False
      then have "k' \<in> live (peer_at d x)" "x = p \<longrightarrow> k' \<in> live q" using 3 q(1) by (auto split: if_splits)
      from kept[OF this] show ?thesis using False by simp
    qed
  next
    case (4 x)
    then have x: "x \<noteq> p" "localIndex (handshake (peer_at d x)) \<noteq> 0" using h by (auto split: if_splits)
    then have "localIndex (handshake (peer_at d x)) \<noteq> ?old" using I(4)[OF x(2)] old by auto
    from keep[OF this] have "table (localIndex (handshake (peer_at d x))) = indexTable d (localIndex (handshake (peer_at d x)))"
      using I(3)[where p = p] I(4)[OF x(2)] by fastforce
    then show ?case using I(4)[OF x(2)] x(1) by simp
  next
    case (7 i e)
    show ?case
    proof (cases "i = ?old")
      case True
      then show ?thesis using 7 table[of i] kp q(2) by auto
    next
      case False
      then have e: "indexTable d i = Some e" and nrem: "\<not> (\<exists>k \<in> live (peer_at d p) - live q. kp_localIndex (keypair_at d k) = i)"
        using 7 table[of i] by (simp_all split: if_splits)
      from I(7)[OF e] show ?thesis
      proof
        assume hs: "e = handshake_entry (ie_peer e) \<and> localIndex (handshake (peer_at d (ie_peer e))) = i"
        then have "ie_peer e \<noteq> p" using False by auto
        then show ?thesis using hs by simp
      next
        assume "\<exists>k \<in> live (peer_at d (ie_peer e)). e = keypair_entry (ie_peer e) k \<and> kp_localIndex (keypair_at d k) = i"
        then obtain k' where k': "k' \<in> live (peer_at d (ie_peer e))" "e = keypair_entry (ie_peer e) k'" "kp_localIndex (keypair_at d k') = i" by blast
        then have "k' \<noteq> k" "ie_peer e = p \<longrightarrow> k' \<in> live q" using new nrem by auto
        then show ?thesis using k' by auto
      qed
    qed
  next
    case (8 x)
    then show ?case using I(8)[of x] p by simp
  qed (use I(5,6) h q(3) in \<open>auto split: if_splits\<close>)
qed

section \<open>The operations\<close>

lemma hs_mix_simps [simp]:
  "localIndex (hs_mixHash C x h) = localIndex h" "hs_state (hs_mixHash C x h) = hs_state h"
  "localIndex (hs_mixKey C x h) = localIndex h" "hs_state (hs_mixKey C x h) = hs_state h"
  "lastTimestamp (hs_mixHash C x h) = lastTimestamp h" "lastTimestamp (hs_mixKey C x h) = lastTimestamp h"
  "precomputedStaticStatic (hs_mixHash C x h) = precomputedStaticStatic h" "precomputedStaticStatic (hs_mixKey C x h) = precomputedStaticStatic h"
  by (simp_all add: hs_mixHash_def hs_mixKey_def)

lemma index_ok_hs:
  assumes "index_ok d" "localIndex h = localIndex (handshake (peer_at d p))"
    and "hs_state h \<in> {handshakeInitiationCreated, handshakeResponseCreated, handshakeResponseConsumed} \<Longrightarrow> localIndex h \<noteq> 0"
  shows "index_ok (set_handshake p h d)"
  by (rule index_ok_cong[OF assms(1)]) (use assms index_okD(6)[OF assms(1)] in \<open>auto split: if_splits\<close>)

text \<open>A random source that never fails and never gives 0.\<close>

definition index_source :: "(nat \<Rightarrow> u32 \<times> error option) \<Rightarrow> bool" where
  "index_source r \<longleftrightarrow> (\<forall>n. snd (r n) = None \<and> fst (r n) \<noteq> 0)"

lemma NewIndexForHandshake_result:
  assumes "NewIndexForHandshake p r table = Some ((index, err), table')" "index_source r"
  shows "err = None \<and> index \<noteq> 0 \<and> table index = None \<and> table' = table(index \<mapsto> handshake_entry p)"
proof -
  obtain y where y: "new_index r 0 table = Some y" using assms(1) by (auto simp: NewIndexForHandshake_def split: option.splits)
  have res: "(\<exists>n. r n = y) \<and> (snd y = None \<longrightarrow> table (fst y) = None)" by (rule new_index_result[OF y])
  then have "snd y = None" "fst y \<noteq> 0" using assms(2) unfolding index_source_def by metis+
  then show ?thesis using assms(1) y res by (cases y) (auto simp: NewIndexForHandshake_def handshake_entry_def)
qed

lemma createMessageInitiation_index:
  assumes ok: "index_ok d" and r: "index_source rindex" and p: "p < next_peer d"
    and run: "createMessageInitiation C rkey rindex now ty p d = Some (res, d')"
  shows "index_ok d'"
proof -
  have hs: "index_ok (set_handshake p h d)" if "localIndex h = localIndex (handshake (peer_at d p))" "hs_state h = hs_state (handshake (peer_at d p))" for h
    using index_ok_hs[OF ok, of h p] index_okD(6)[OF ok, of p] that by simp
  have renew: "index_ok (set_handshake p h (d\<lparr>indexTable := table\<rparr>))"
    if "NewIndexForHandshake p rindex (IndexTable_Delete (localIndex (handshake (peer_at d p))) (indexTable d)) = Some ((index, err), table)" "localIndex h = index"
    for h index err table
    using NewIndexForHandshake_result[OF that(1) r] index_ok_renew[OF ok, of p index h] that(2) p by auto
  have noerr: "err = None"
    if "NewIndexForHandshake p rindex (IndexTable_Delete (localIndex (handshake (peer_at d p))) (indexTable d)) = Some ((index, err), table)" for index err table
    using NewIndexForHandshake_result[OF that r] by simp
  show ?thesis using run
    by (auto simp: createMessageInitiation_def newPrivateKey_def sharedSecret_def KDF2_def Let_def
        split: option.splits if_splits prod.splits intro!: hs renew dest: noerr)
qed

lemma createMessageResponse_index:
  assumes ok: "index_ok d" and r: "index_source rindex" and p: "p < next_peer d"
    and run: "createMessageResponse C rkey rindex ty p d = Some (res, d')"
  shows "index_ok d'"
proof -
  have renew: "index_ok (set_handshake p h (d\<lparr>indexTable := table\<rparr>))"
    if "NewIndexForHandshake p rindex (IndexTable_Delete (localIndex (handshake (peer_at d p))) (indexTable d)) = Some ((index, err), table)" "localIndex h = index"
    for h index err table
    using NewIndexForHandshake_result[OF that(1) r] index_ok_renew[OF ok, of p index h] that(2) p by auto
  show ?thesis using run ok
    by (auto simp: createMessageResponse_def newPrivateKey_def sharedSecret_def KDF3_def Let_def
        split: option.splits if_splits prod.splits intro!: renew)
qed

lemma ConsumeMessageResponse_index:
  assumes ok: "index_ok d"
  shows "index_ok (snd (ConsumeMessageResponse C msg d))"
proof -
  have hs: "index_ok (set_handshake p (h\<lparr>hs_hash := a, hs_chainKey := b, remoteIndex := c, hs_state := s\<rparr>) d)"
    if "h = handshake (peer_at d p)" "hs_state h = handshakeInitiationCreated" for h p a b c s
    using index_ok_hs[OF ok, of "h\<lparr>hs_hash := a, hs_chainKey := b, remoteIndex := c, hs_state := s\<rparr>" p] index_okD(6)[OF ok, of p] that by simp
  show ?thesis using ok
    by (auto simp: ConsumeMessageResponse_def sharedSecret_def KDF3_def Let_def intro: hs split: option.splits)
qed

lemma index_ok_irrelevant [simp]:
  "index_ok (d\<lparr>allowedips := T\<rparr>) \<longleftrightarrow> index_ok d" "index_ok (d\<lparr>keyMap := m\<rparr>) \<longleftrightarrow> index_ok d"
  "index_ok (d\<lparr>privateKey := sk\<rparr>) \<longleftrightarrow> index_ok d" "index_ok (d\<lparr>publicKey := pk\<rparr>) \<longleftrightarrow> index_ok d"
  "index_ok (d\<lparr>cookieChecker := c\<rparr>) \<longleftrightarrow> index_ok d" "index_ok (d\<lparr>wire := w\<rparr>) \<longleftrightarrow> index_ok d" "index_ok (d\<lparr>limiter := l\<rparr>) \<longleftrightarrow> index_ok d"
  "index_ok (d\<lparr>underLoadUntil := u\<rparr>) \<longleftrightarrow> index_ok d" "index_ok (d\<lparr>device_state := s\<rparr>) \<longleftrightarrow> index_ok d"
  by (simp_all add: index_ok_def peer_index_ok_def)

text \<open>A peer object with the same key pairs and the same handshake.\<close>

lemma index_ok_same_peer:
  assumes "index_ok d" "slots q = slots (peer_at d p)" "handshake q = handshake (peer_at d p)"
  shows "index_ok (set_peer p q d)"
  by (rule index_ok_cong[OF assms(1)]) (use assms index_okD(6)[OF assms(1)] in \<open>auto split: if_splits\<close>)

lemma NewPeer_index:
  assumes ok: "index_ok d"
  shows "index_ok (snd (NewPeer C pk d))"
proof -
  note I = index_okD[OF ok]
  have I8: "live (peer_at d (next_peer d)) = {}" "localIndex (handshake (peer_at d (next_peer d))) = 0" using I(8)[of "next_peer d"] by auto
  have "index_ok (set_peer (next_peer d) q (d\<lparr>keyMap := m, next_peer := Suc (next_peer d)\<rparr>))"
    if q: "live q = {}" "slots q = [None, None, None]" "localIndex (handshake q) = 0" "hs_state (handshake q) = handshakeZeroed" for q m
  proof (rule index_okI, goal_cases)
    case (7 i e)
    then have e: "indexTable d i = Some e" by simp
    then have "i \<noteq> 0" using I(1) by auto
    then have "ie_peer e \<noteq> next_peer d" using I(7)[OF e] I8 by auto
    then show ?case using I(7)[OF e] by simp
  qed (use I q in \<open>auto split: if_splits\<close>)
  then show ?thesis using ok by (simp add: NewPeer_def Let_def live_def slots_def no_handshake_def)
qed

lemma SetAllowedIPs_index: "index_ok d \<Longrightarrow> SetAllowedIPs p ps d = Some d' \<Longrightarrow> index_ok d'"
  by (auto simp: SetAllowedIPs_def slots_def intro!: index_ok_same_peer split: if_splits option.splits)

lemma Peer_Start_index: "index_ok d \<Longrightarrow> index_ok (Peer_Start now p d)"
  by (rule index_ok_cong[of d]) (use index_okD(6)[of d] in \<open>auto simp: Peer_Start_def Let_def slots_def split: if_splits\<close>)

lemma LookupPeer_index: "index_ok d \<Longrightarrow> LookupPeer C now pk d = Some (res, d') \<Longrightarrow> index_ok d'"
proof -
  assume ok: "index_ok d" and run: "LookupPeer C now pk d = Some (res, d')"
  have new: "index_ok d1" if "NewPeer C pk d = (r, d1)" for r d1 using NewPeer_index[OF ok, of C pk] that by simp
  have conf: "index_ok (Peer_Start now p (set_peer p q d2))"
    if "NewPeer C pk d = (Inr p, d1)" "SetAllowedIPs p ps d1 = Some d2" "slots q = slots (peer_at d2 p)" "handshake q = handshake (peer_at d2 p)" for p ps d1 d2 q
    using Peer_Start_index[OF index_ok_same_peer[OF SetAllowedIPs_index[OF new[OF that(1)] that(2)] that(3,4)]] .
  show ?thesis using run ok
    by (auto simp: LookupPeer_def Let_def slots_def SetEndpointFromPacket_def split: option.splits prod.splits sum.splits if_splits
        intro: new intro!: conf)
qed

lemma ConsumeMessageInitiation_index: "index_ok d \<Longrightarrow> ConsumeMessageInitiation C now1 now2 msg d = Some (res, d') \<Longrightarrow> index_ok d'"
proof -
  assume ok: "index_ok d" and run: "ConsumeMessageInitiation C now1 now2 msg d = Some (res, d')"
  have hs: "index_ok (set_handshake p h d1)"
    if "LookupPeer C now1 pk d = Some (r, d1)" "localIndex h = localIndex (handshake (peer_at d1 p))" "hs_state h = handshakeInitiationConsumed" for pk r d1 h p
    using index_ok_hs[OF LookupPeer_index[OF ok that(1)] that(2)] that(3) by simp
  show ?thesis using run ok
    by (auto simp: ConsumeMessageInitiation_def Let_def sharedSecret_def KDF2_def split: option.splits prod.splits if_splits
        intro: LookupPeer_index[OF ok] intro!: hs)
qed

text \<open>A device after some key pairs of a peer are deleted and the peer is replaced.\<close>

definition without :: "(nat \<Rightarrow> keypair) \<Rightarrow> nat option list \<Rightarrow> (u32 \<rightharpoonup> indexTableEntry) \<Rightarrow> (u32 \<rightharpoonup> indexTableEntry)" where
  "without ks gone table = (\<lambda>i. if \<exists>k. Some k \<in> set gone \<and> kp_localIndex (ks k) = i then None else table i)"

lemma DeleteKeypair_eq: "DeleteKeypair ko d = d\<lparr>indexTable := without (keypair_at d) [ko] (indexTable d)\<rparr>"
  by (cases ko) (auto simp: DeleteKeypair_def without_def IndexTable_Delete_def fun_eq_iff intro!: wg_device.equality)

lemma without_without [simp]: "without ks a (without ks b table) = without ks (a @ b) table"
  by (auto simp: without_def fun_eq_iff)

lemma set_peer_nf [simp]:
  "set_peer p q (set_peer p q' d) = set_peer p q d"
  "(set_peer p q d)\<lparr>indexTable := T\<rparr> = set_peer p q (d\<lparr>indexTable := T\<rparr>)"
  "(set_peer p q d)\<lparr>keypair_at := ks\<rparr> = set_peer p q (d\<lparr>keypair_at := ks\<rparr>)"
  "(set_peer p q d)\<lparr>next_keypair := n\<rparr> = set_peer p q (d\<lparr>next_keypair := n\<rparr>)"
  by (simp_all add: set_peer_def)

lemma rotate_keypairs_eq:
  "rotate_keypairs p initiator k d =
     (let q = peer_at d p
      in if initiator then
           if kp_next q \<noteq> None
           then set_peer p (q\<lparr>kp_next := None, kp_previous := kp_next q, kp_current := Some k\<rparr>) (d\<lparr>indexTable := without (keypair_at d) [kp_previous q, kp_current q] (indexTable d)\<rparr>)
           else set_peer p (q\<lparr>kp_previous := kp_current q, kp_current := Some k\<rparr>) (d\<lparr>indexTable := without (keypair_at d) [kp_previous q] (indexTable d)\<rparr>)
         else set_peer p (q\<lparr>kp_next := Some k, kp_previous := None\<rparr>) (d\<lparr>indexTable := without (keypair_at d) [kp_previous q, kp_next q] (indexTable d)\<rparr>))"
  by (simp add: rotate_keypairs_def DeleteKeypair_eq Let_def)

lemma session_table:
  assumes ok: "index_ok d" and busy: "localIndex (handshake (peer_at d p)) \<noteq> 0"
    and gone: "\<And>k'. k' \<in> live (peer_at d p) - live q \<longleftrightarrow> Some k' \<in> set gone" and kp: "kp_localIndex kp = localIndex (handshake (peer_at d p))"
  shows "without ((keypair_at d)(next_keypair d := kp)) gone (SwapIndexForKeypair (localIndex (handshake (peer_at d p))) (next_keypair d) (indexTable d)) i =
    (if i = localIndex (handshake (peer_at d p)) then Some (keypair_entry p (next_keypair d))
     else if \<exists>k \<in> live (peer_at d p) - live q. kp_localIndex (keypair_at d k) = i then None else indexTable d i)"
proof -
  note I = index_okD[OF ok]
  have old: "indexTable d (localIndex (handshake (peer_at d p))) = Some (handshake_entry p)" using I(4)[OF busy] .
  have g: "k' \<noteq> next_keypair d \<and> kp_localIndex (keypair_at d k') \<noteq> localIndex (handshake (peer_at d p))" if "Some k' \<in> set gone" for k'
    using gone[of k'] that I(2)[of k' p] I(3)[of k' p] old by auto
  have "(\<exists>k. Some k \<in> set gone \<and> kp_localIndex (((keypair_at d)(next_keypair d := kp)) k) = i) \<longleftrightarrow>
      (\<exists>k \<in> live (peer_at d p) - live q. kp_localIndex (keypair_at d k) = i)"
    using g gone by auto
  then show ?thesis using old g gone
    by (auto simp: without_def SwapIndexForKeypair_def keypair_entry_def handshake_entry_def)
qed

lemma BeginSymmetricSession_index:
  assumes ok: "index_ok d"
  shows "index_ok (snd (BeginSymmetricSession C now p d))"
proof (cases "hs_state (handshake (peer_at d p)) \<in> {handshakeResponseConsumed, handshakeResponseCreated}")
  case True
  then have busy: "localIndex (handshake (peer_at d p)) \<noteq> 0" using index_okD(6)[OF ok, of p] by auto
  have dist: "distinct (filter (\<lambda>k. k \<noteq> None) (slots (peer_at d p)))" by (rule index_okD(5)[OF ok])
  have new: "Some (next_keypair d) \<notin> set (slots (peer_at d p))" using index_okD(2)[OF ok, of "next_keypair d" p] by (auto simp: live_def)
  have session: "index_ok (set_peer p q (d\<lparr>keypair_at := (keypair_at d)(next_keypair d := kp), next_keypair := Suc (next_keypair d),
      indexTable := without ((keypair_at d)(next_keypair d := kp)) gone (SwapIndexForKeypair (localIndex (handshake (peer_at d p))) (next_keypair d) (indexTable d))\<rparr>))"
    if "kp_localIndex kp = localIndex (handshake (peer_at d p))" "localIndex (handshake q) = 0" "hs_state (handshake q) = handshakeZeroed"
      "live q \<subseteq> insert (next_keypair d) (live (peer_at d p))" "next_keypair d \<in> live q" "distinct (filter (\<lambda>k. k \<noteq> None) (slots q))"
      "\<And>k'. k' \<in> live (peer_at d p) - live q \<longleftrightarrow> Some k' \<in> set gone" for q kp gone
    by (rule index_ok_session[OF ok busy refl that(1-6)]) (rule session_table[OF ok busy that(7) that(1)])
  show ?thesis using True dist new
    by (auto simp: BeginSymmetricSession_def KDF2_def Let_def rotate_keypairs_eq set_handshake_def live_def slots_def
        intro!: session split: if_splits)
next
  case False
  then show ?thesis using ok by (auto simp: BeginSymmetricSession_def KDF2_def Let_def)
qed

lemma index_ok_forget':
  assumes "index_ok d" "handshake q = handshake (peer_at d p)" "live q \<subseteq> live (peer_at d p)" "distinct (filter (\<lambda>k. k \<noteq> None) (slots q))"
    and "\<And>k. k \<in> live (peer_at d p) - live q \<longleftrightarrow> Some k \<in> set gone"
  shows "index_ok (set_peer p q (d\<lparr>indexTable := without (keypair_at d) gone (indexTable d)\<rparr>))"
  using assms(5) by (intro index_ok_forget[OF assms(1-4)]) (auto simp: without_def)

lemma ReceivedWithKeypair_index:
  assumes ok: "index_ok d"
  shows "index_ok (snd (ReceivedWithKeypair p k d))"
proof -
  have dist: "distinct (filter (\<lambda>k. k \<noteq> None) (slots (peer_at d p)))" by (rule index_okD(5)[OF ok])
  show ?thesis using ok dist
    by (auto simp: ReceivedWithKeypair_def Let_def DeleteKeypair_eq live_def slots_def intro!: index_ok_forget' split: if_splits)
qed

lemma Handshake_Clear_simps [simp]:
  "localIndex (Handshake_Clear h) = 0" "hs_state (Handshake_Clear h) = handshakeZeroed" "lastTimestamp (Handshake_Clear h) = lastTimestamp h"
  "precomputedStaticStatic (Handshake_Clear h) = precomputedStaticStatic h"
  by (simp_all add: Handshake_Clear_def)

lemma ZeroAndFlushAll_index: "index_ok d \<Longrightarrow> index_ok (ZeroAndFlushAll p d)"
proof -
  assume ok: "index_ok d"
  let ?q = "(peer_at d p)\<lparr>kp_previous := None, kp_current := None, kp_next := None\<rparr>"
  let ?gone = "[kp_next (peer_at d p), kp_current (peer_at d p), kp_previous (peer_at d p)]"
  have f: "index_ok (set_peer p ?q (d\<lparr>indexTable := without (keypair_at d) ?gone (indexTable d)\<rparr>))"
    by (rule index_ok_forget'[OF ok]) (auto simp: live_def slots_def)
  let ?d = "set_peer p ?q (d\<lparr>indexTable := without (keypair_at d) ?gone (indexTable d)\<rparr>)"
  have g: "index_ok (set_handshake p (Handshake_Clear (handshake (peer_at d p)))
      (?d\<lparr>indexTable := IndexTable_Delete (localIndex (handshake (peer_at ?d p))) (indexTable ?d)\<rparr>))"
    by (rule index_ok_drop[OF f]) simp_all
  show ?thesis
    by (rule index_ok_cong[OF g])
      (use index_okD(6)[OF ok] in \<open>auto simp: ZeroAndFlushAll_def FlushStagedPackets_def Let_def DeleteKeypair_eq slots_def split: if_splits\<close>)
qed

lemma spend_nonce_index [simp]: "kp_localIndex (spend_nonce ko ks k) = kp_localIndex (ks k)"
  by (cases ko) auto

lemma ExpireCurrentKeypairs_index: "index_ok d \<Longrightarrow> index_ok (ExpireCurrentKeypairs now p d)"
proof -
  assume ok: "index_ok d"
  let ?h = "(Handshake_Clear (handshake (peer_at d p)))\<lparr>lastSentHandshake := now - (RekeyTimeout + 1000000000)\<rparr>"
  have f: "index_ok (set_handshake p ?h (d\<lparr>indexTable := IndexTable_Delete (localIndex (handshake (peer_at d p))) (indexTable d)\<rparr>))"
    by (rule index_ok_drop[OF ok]) simp_all
  show ?thesis unfolding ExpireCurrentKeypairs_def Let_def
    by (rule index_ok_cong[OF f]) (use index_okD(6)[OF ok] in \<open>auto simp: slots_def split: if_splits\<close>)
qed

lemma Peer_Stop_index: "index_ok d \<Longrightarrow> index_ok (Peer_Stop p d)"
  by (auto simp: Peer_Stop_def Let_def slots_def intro!: ZeroAndFlushAll_index index_ok_same_peer)

lemma RemovePeer_index: "index_ok d \<Longrightarrow> index_ok (RemovePeer key d)"
  by (auto simp: RemovePeer_def Let_def intro!: Peer_Stop_index split: option.splits)

lemma fold_index_ok: "(\<And>x d. index_ok d \<Longrightarrow> index_ok (f x d)) \<Longrightarrow> index_ok d \<Longrightarrow> index_ok (fold f xs d)"
  by (induction xs arbitrary: d) auto

lemma SetPrivateKey_index: "index_ok d \<Longrightarrow> index_ok (SetPrivateKey C now sk d)"
proof -
  assume ok: "index_ok d"
  have hs: "index_ok (let h = handshake (peer_at d' p) in set_handshake p (h\<lparr>precomputedStaticStatic := x h\<rparr>) d')" if "index_ok d'" for d' p x
    unfolding Let_def by (rule index_ok_hs[OF that]) (use index_okD(6)[OF that, of p] in simp_all)
  show ?thesis unfolding SetPrivateKey_def Let_def[of "ScalarBaseMult C sk"]
    by (auto simp: Let_def split: prod.splits intro!: fold_index_ok RemovePeer_index ExpireCurrentKeypairs_index hs[unfolded Let_def] ok)
qed

section \<open>A run without errors\<close>

lemma createMessageInitiation_ok:
  fixes p :: nat and d :: wg_device and rkey :: "bytes \<times> error option" and C :: crypto and now :: int
  defines "h \<equiv> handshake (peer_at d p)" and "sk \<equiv> clamp (fst rkey)"
  defines "hash1 \<equiv> mixHash C (mixHash C (InitialHash C) (remoteStatic h)) (ScalarBaseMult C sk)"
  defines "kdf1 \<equiv> KDF2 C (mixKey C (InitialChainKey C) (ScalarBaseMult C sk)) (ScalarMult C sk (remoteStatic h))"
  defines "static \<equiv> aead_Seal C (snd kdf1) ZeroNonce (publicKey d) hash1"
  defines "kdf2 \<equiv> KDF2 C (fst kdf1) (precomputedStaticStatic h)"
  defines "hash2 \<equiv> mixHash C hash1 static"
  defines "timestamp \<equiv> aead_Seal C (snd kdf2) ZeroNonce (stamp now) hash2"
  assumes "snd rkey = None" "\<not> isZero (ScalarMult C sk (remoteStatic h))" "\<not> isZero (precomputedStaticStatic h)"
    and "new_index rindex 0 (IndexTable_Delete (localIndex h) (indexTable d)) = Some (index, None)"
  shows "createMessageInitiation C rkey rindex now ty p d =
    Some (Inr \<lparr>mi_Type = ty, mi_Sender = index, mi_Ephemeral = ScalarBaseMult C sk, mi_Static = static, mi_Timestamp = timestamp,
               mi_MAC1 = replicate 16 0, mi_MAC2 = replicate 16 0\<rparr>,
          set_handshake p (h\<lparr>hs_state := handshakeInitiationCreated, hs_hash := mixHash C hash2 timestamp, hs_chainKey := fst kdf2,
                             localEphemeral := sk, localIndex := index\<rparr>)
            (d\<lparr>indexTable := (IndexTable_Delete (localIndex h) (indexTable d))(index \<mapsto> handshake_entry p)\<rparr>))"
proof (cases h)
  case (fields st ha ck psk le li ri rs re pss lt lic lsh)
  have "handshake (peer_at d p) = h" by (simp add: h_def)
  then show ?thesis
    using assms(9-12) fields
    by (simp add: createMessageInitiation_def newPrivateKey_def sharedSecret_def NewIndexForHandshake_def hs_mixHash_def hs_mixKey_def
        handshake_entry_def case_prod_beta Let_def sk_def hash1_def kdf1_def static_def kdf2_def hash2_def timestamp_def)
qed

section \<open>Runs of a device\<close>

text \<open>What the routines of a device do, in any order; and the same with the changes of configuration. The
  parts of a peer, a key pair and a device that the handshake does not read change at will: timers,
  cookies, queues, counters and the framing.\<close>

definition same_core :: "wg_peer \<Rightarrow> wg_peer \<Rightarrow> bool" where
  "same_core q' q \<longleftrightarrow> slots q' = slots q \<and> handshake q' = handshake q \<and> isRunning q' = isRunning q"

inductive session_step :: "crypto \<Rightarrow> wg_device \<Rightarrow> wg_device \<Rightarrow> bool" for C where
  CreateInitiation: "p < next_peer d \<Longrightarrow> index_source r \<Longrightarrow> createMessageInitiation C rkey r now ty p d = Some (res, d') \<Longrightarrow> session_step C d d'"
| ConsumeInitiation: "ConsumeMessageInitiation C now1 now2 msg d = Some (res, d') \<Longrightarrow> session_step C d d'"
| CreateResponse: "p < next_peer d \<Longrightarrow> index_source r \<Longrightarrow> createMessageResponse C rkey r ty p d = Some (res, d') \<Longrightarrow> session_step C d d'"
| ConsumeResponse: "ConsumeMessageResponse C msg d = (res, d') \<Longrightarrow> session_step C d d'"
| BeginSession: "BeginSymmetricSession C now p d = (res, d') \<Longrightarrow> session_step C d d'"
| Received: "ReceivedWithKeypair p k d = (res, d') \<Longrightarrow> session_step C d d'"
| Flush: "session_step C d (ZeroAndFlushAll p d)"
| Expire: "session_step C d (ExpireCurrentKeypairs now p d)"
| Start: "session_step C d (Peer_Start now p d)"
| Stop: "session_step C d (Peer_Stop p d)"
| AddPeer: "NewPeer C pk d = (res, d') \<Longrightarrow> session_step C d d'"
| Prefixes: "SetAllowedIPs p ps d = Some d' \<Longrightarrow> session_step C d d'"
| Sent: "session_step C d (set_handshake p ((handshake (peer_at d p))\<lparr>lastSentHandshake := t\<rparr>) d)"
| PresharedKey: "session_step C d (set_handshake p ((handshake (peer_at d p))\<lparr>presharedKey := psk\<rparr>) d)"
| Peer_fields: "same_core q (peer_at d p) \<Longrightarrow> session_step C d (set_peer p q d)"
| Keypair_fields: "session_step C d (d\<lparr>keypair_at := (keypair_at d)(k := (keypair_at d k)\<lparr>sendNonce := n, replayFilter := f\<rparr>)\<rparr>)"
| Device_fields: "session_step C d (d\<lparr>device_state := s, cookieChecker := c, wire := w, limiter := l, underLoadUntil := u\<rparr>)"

inductive dev_step :: "crypto \<Rightarrow> wg_device \<Rightarrow> wg_device \<Rightarrow> bool" for C where
  Session: "session_step C d d' \<Longrightarrow> dev_step C d d'"
| Remove: "dev_step C d (RemovePeer key d)"
| NewKey: "dev_step C d (SetPrivateKey C now sk d)"

lemma session_step_index: "session_step C d d' \<Longrightarrow> index_ok d \<Longrightarrow> index_ok d'"
proof (induction rule: session_step.induct)
  case (ConsumeResponse msg d res d')
  then show ?case using ConsumeMessageResponse_index[of d C msg] by simp
next
  case (BeginSession now p d res d')
  then show ?case using BeginSymmetricSession_index[of d C now p] by simp
next
  case (Received p k d res d')
  then show ?case using ReceivedWithKeypair_index[of d p k] by simp
next
  case (AddPeer pk d res d')
  then show ?case using NewPeer_index[of d C pk] by simp
next
  case (Sent d p t)
  then show ?case using index_ok_hs[OF Sent, of "(handshake (peer_at d p))\<lparr>lastSentHandshake := t\<rparr>" p] index_okD(6)[OF Sent, of p] by simp
next
  case (PresharedKey d p psk)
  then show ?case using index_ok_hs[OF PresharedKey, of "(handshake (peer_at d p))\<lparr>presharedKey := psk\<rparr>" p] index_okD(6)[OF PresharedKey, of p] by simp
next
  case (Keypair_fields d k n f)
  show ?case by (rule index_ok_cong[OF Keypair_fields]) (use index_okD(6)[OF Keypair_fields] in auto)
qed (auto simp: same_core_def intro: index_ok_same_peer
    intro: createMessageInitiation_index ConsumeMessageInitiation_index createMessageResponse_index ZeroAndFlushAll_index
    ExpireCurrentKeypairs_index Peer_Start_index Peer_Stop_index SetAllowedIPs_index)

lemma dev_step_index: "dev_step C d d' \<Longrightarrow> index_ok d \<Longrightarrow> index_ok d'"
  by (induction rule: dev_step.induct) (auto intro: session_step_index RemovePeer_index SetPrivateKey_index)

lemma dev_steps_index: "(dev_step C)\<^sup>*\<^sup>* d d' \<Longrightarrow> index_ok d \<Longrightarrow> index_ok d'"
  by (induction rule: rtranclp_induct) (auto intro: dev_step_index)

lemma new_device_index: "index_ok new_device"
  by (rule index_okI) (simp_all add: new_device_def no_peer_def no_handshake_def live_def slots_def)

section \<open>Examples\<close>

lemma new_index_const: "table index = None \<Longrightarrow> new_index (\<lambda>_. (index, None)) 0 table = Some (index, None)"
  by (subst new_index.simps) simp

text \<open>A device with one peer, and that peer with an initiation sent under the index 7.\<close>

definition example_device :: wg_device where
  "example_device = snd (NewPeer example_crypto (replicate 32 9) new_device)"

lemma example_device_peer:
  "handshake (peer_at example_device 0) = no_handshake\<lparr>precomputedStaticStatic := replicate 32 9, remoteStatic := replicate 32 9\<rparr>"
  "indexTable example_device = Map.empty" "next_peer example_device = 1"
proof -
  have "map2 (+) (replicate 32 0) (replicate 32 9) = replicate 32 (9 :: u8)" by code_simp
  then show "handshake (peer_at example_device 0) = no_handshake\<lparr>precomputedStaticStatic := replicate 32 9, remoteStatic := replicate 32 9\<rparr>"
    "indexTable example_device = Map.empty" "next_peer example_device = 1"
    by (simp_all add: example_device_def NewPeer_def isClosed_def new_device_def MaxPeers_def peer_with_key_def sharedSecret_def example_crypto_def no_peer_def Let_def)
qed

lemma example_initiation_sent:
  "\<exists>msg d. createMessageInitiation example_crypto (replicate 32 1, None) (\<lambda>_. (7, None)) 0 MessageInitiationType 0 example_device = Some (Inr msg, d) \<and>
     indexTable d 7 = Some (handshake_entry 0)"
proof -
  have z: "\<not> isZero (map2 (+) (clamp (replicate 32 1)) (replicate 32 9))" "\<not> isZero (replicate 32 9)" by code_simp+
  show ?thesis
    by (subst createMessageInitiation_ok[where index = 7])
      (use z in \<open>simp_all add: example_device_peer new_index_const IndexTable_Delete_def\<close>, simp add: example_crypto_def)
qed

lemma example_reachable: "(dev_step example_crypto)\<^sup>*\<^sup>* new_device example_device"
  by (rule r_into_rtranclp, rule dev_step.Session, rule session_step.AddPeer[of _ "replicate 32 9" _ "fst (NewPeer example_crypto (replicate 32 9) new_device)"])
    (simp add: example_device_def)

section \<open>Properties\<close>

text \<open>C34. After any sequence of handshake messages in both directions, key rotations, flushes and changes
  of configuration, with random indices other than 0, an index of the table leads to the live key pair
  or the handshake that has this index and to no other, and every live key pair and every handshake
  with an index is found under it.\<close>

theorem index_table_consistent:
  assumes "(dev_step C)\<^sup>*\<^sup>* new_device d"
  shows "(\<forall>i p k. indexTable d i = Some (keypair_entry p k) \<longleftrightarrow> k \<in> live (peer_at d p) \<and> kp_localIndex (keypair_at d k) = i) \<and>
    (\<forall>i p. indexTable d i = Some (handshake_entry p) \<longleftrightarrow> i \<noteq> 0 \<and> localIndex (handshake (peer_at d p)) = i) \<and>
    (\<forall>i e. indexTable d i = Some e \<longrightarrow> (\<exists>p k. e = keypair_entry p k \<or> e = handshake_entry p))"
proof -
  note I = index_okD[OF dev_steps_index[OF assms new_device_index]]
  show ?thesis
  proof (intro conjI allI impI iffI)
    fix i p k assume e: "indexTable d i = Some (keypair_entry p k)"
    show "k \<in> live (peer_at d p)" "kp_localIndex (keypair_at d k) = i" using I(7)[OF e] by auto
  next
    fix i p assume e: "indexTable d i = Some (handshake_entry p)"
    show "i \<noteq> 0" "localIndex (handshake (peer_at d p)) = i" using I(7)[OF e] e I(1) by auto
  qed (use I(3,4,7) in blast)+
qed

theorem index_table_consistent_witness:
  "\<exists>d. (dev_step example_crypto)\<^sup>*\<^sup>* new_device d \<and> indexTable d 7 = Some (handshake_entry 0) \<and> localIndex (handshake (peer_at d 0)) = 7"
proof -
  obtain msg d where d: "createMessageInitiation example_crypto (replicate 32 1, None) (\<lambda>_. (7, None)) 0 MessageInitiationType 0 example_device = Some (Inr msg, d)"
      "indexTable d 7 = Some (handshake_entry 0)" using example_initiation_sent by blast
  have "dev_step example_crypto example_device d"
    by (rule dev_step.Session[OF session_step.CreateInitiation[OF _ _ d(1)]]) (simp_all add: example_device_peer index_source_def)
  with example_reachable have run: "(dev_step example_crypto)\<^sup>*\<^sup>* new_device d" by (rule rtranclp.rtrancl_into_rtrancl)
  have "localIndex (handshake (peer_at d 0)) = 7" using index_table_consistent[OF run] d(2) by simp
  with run d(2) show ?thesis by blast
qed



end
