(* ===== verification/Noise_Session.thy ===== *)
theory Noise_Session
  imports Noise_Index
begin

text \<open>
  What the handshake achieves: two devices that know each other end with the same keys, crossed, under
  the indices the other uses; and an initiation that was consumed is never consumed again.
\<close>

section \<open>The messages of a run without errors\<close>

lemma createMessageResponse_ok:
  fixes p :: nat and d :: wg_device and rkey :: "bytes \<times> error option" and C :: crypto
  defines "h \<equiv> handshake (peer_at d p)" and "sk \<equiv> clamp (fst rkey)"
  defines "ephemeral \<equiv> ScalarBaseMult C sk"
  defines "ck \<equiv> mixKey C (mixKey C (mixKey C (hs_chainKey h) ephemeral) (ScalarMult C sk (remoteEphemeral h))) (ScalarMult C sk (remoteStatic h))"
  defines "kdf \<equiv> KDF3 C ck (presharedKey h)"
  defines "hash1 \<equiv> mixHash C (mixHash C (hs_hash h) ephemeral) (fst (snd kdf))"
  defines "seal \<equiv> aead_Seal C (snd (snd kdf)) ZeroNonce [] hash1"
  assumes "hs_state h = handshakeInitiationConsumed" "snd rkey = None"
    and "\<not> isZero (ScalarMult C sk (remoteEphemeral h))" "\<not> isZero (ScalarMult C sk (remoteStatic h))"
    and "new_index rindex 0 (IndexTable_Delete (localIndex h) (indexTable d)) = Some (index, None)"
  shows "createMessageResponse C rkey rindex ty p d =
    Some (Inr \<lparr>mr_Type = ty, mr_Sender = index, mr_Receiver = remoteIndex h, mr_Ephemeral = ephemeral, mr_Empty = seal,
               mr_MAC1 = replicate 16 0, mr_MAC2 = replicate 16 0\<rparr>,
          set_handshake p (h\<lparr>hs_state := handshakeResponseCreated, hs_hash := mixHash C hash1 seal, hs_chainKey := fst kdf,
                             localEphemeral := sk, localIndex := index\<rparr>)
            (d\<lparr>indexTable := (IndexTable_Delete (localIndex h) (indexTable d))(index \<mapsto> handshake_entry p)\<rparr>))"
proof (cases h)
  case (fields st ha ck' psk le li ri rs re pss lt lic lsh)
  have "handshake (peer_at d p) = h" by (simp add: h_def)
  then show ?thesis
    using assms(8-12) fields
    by (simp add: createMessageResponse_def newPrivateKey_def sharedSecret_def NewIndexForHandshake_def hs_mixHash_def hs_mixKey_def
        handshake_entry_def case_prod_beta Let_def sk_def ephemeral_def ck_def kdf_def hash1_def seal_def)
qed

text \<open>\<open>ConsumeMessageInitiation\<close> of a message for a known peer.\<close>

lemma ConsumeMessageInitiation_ok:
  fixes p :: nat and d :: wg_device and msg :: messageInitiation and C :: crypto
  defines "h \<equiv> handshake (peer_at d p)"
  defines "hash1 \<equiv> mixHash C (mixHash C (InitialHash C) (publicKey d)) (mi_Ephemeral msg)"
  defines "kdf1 \<equiv> KDF2 C (mixKey C (InitialChainKey C) (mi_Ephemeral msg)) (ScalarMult C (privateKey d) (mi_Ephemeral msg))"
  defines "hash2 \<equiv> mixHash C hash1 (mi_Static msg)"
  defines "kdf2 \<equiv> KDF2 C (fst kdf1) (precomputedStaticStatic h)"
  assumes "mi_Type msg = MessageInitiationType" "\<not> isZero (ScalarMult C (privateKey d) (mi_Ephemeral msg))"
    and "aead_Open C (snd kdf1) ZeroNonce (mi_Static msg) hash1 = Some pk" "peer_with_key pk d = Some p" "isRunning (peer_at d p)"
    and "\<not> isZero (precomputedStaticStatic h)" "aead_Open C (snd kdf2) ZeroNonce (mi_Timestamp msg) hash2 = Some ts"
    and "Timestamp_After ts (lastTimestamp h)" "time_Sub now1 (lastInitiationConsumption h) > HandshakeInitationRate"
  shows "ConsumeMessageInitiation C now1 now2 msg d =
    Some (Some p, set_handshake p (h\<lparr>hs_hash := mixHash C hash2 (mi_Timestamp msg), hs_chainKey := fst kdf2, remoteIndex := mi_Sender msg,
                                     remoteEphemeral := mi_Ephemeral msg, lastTimestamp := ts, lastInitiationConsumption := (if now2 > lastInitiationConsumption h then now2 else lastInitiationConsumption h),
                                     hs_state := handshakeInitiationConsumed\<rparr>) d)"
  using assms(6-14)
  by (simp add: ConsumeMessageInitiation_def LookupPeer_def sharedSecret_def case_prod_beta Let_def h_def hash1_def kdf1_def hash2_def kdf2_def)

lemma ConsumeMessageResponse_ok:
  fixes p :: nat and d :: wg_device and msg :: messageResponse and C :: crypto
  defines "h \<equiv> handshake (peer_at d p)"
  defines "ck \<equiv> mixKey C (mixKey C (mixKey C (hs_chainKey h) (mr_Ephemeral msg)) (ScalarMult C (localEphemeral h) (mr_Ephemeral msg)))
                  (ScalarMult C (privateKey d) (mr_Ephemeral msg))"
  defines "kdf \<equiv> KDF3 C ck (presharedKey h)"
  defines "hash1 \<equiv> mixHash C (mixHash C (hs_hash h) (mr_Ephemeral msg)) (fst (snd kdf))"
  assumes "mr_Type msg = MessageResponseType" "indexTable d (mr_Receiver msg) = Some (handshake_entry p)"
    and "hs_state h = handshakeInitiationCreated"
    and "\<not> isZero (ScalarMult C (localEphemeral h) (mr_Ephemeral msg))" "\<not> isZero (ScalarMult C (privateKey d) (mr_Ephemeral msg))"
    and "aead_Open C (snd (snd kdf)) ZeroNonce (mr_Empty msg) hash1 = Some x"
  shows "ConsumeMessageResponse C msg d =
    (Some p, set_handshake p (h\<lparr>hs_hash := mixHash C hash1 (mr_Empty msg), hs_chainKey := fst kdf, remoteIndex := mr_Sender msg,
                                hs_state := handshakeResponseConsumed\<rparr>) d)"
  using assms(5-10)
  by (simp add: ConsumeMessageResponse_def handshake_entry_def sharedSecret_def case_prod_beta Let_def h_def ck_def kdf_def hash1_def)

text \<open>The key pair of a session, found under the index of the handshake.\<close>

definition session_keypair :: "bytes \<Rightarrow> bytes \<Rightarrow> bool \<Rightarrow> int \<Rightarrow> u32 \<Rightarrow> u32 \<Rightarrow> keypair" where
  "session_keypair sendKey recvKey initiator now li ri =
     \<lparr>sendNonce = 0, send_key = sendKey, receive_key = recvKey, replayFilter = Filter_Reset empty_filter,
      isInitiator = initiator, created = now, kp_localIndex = li, kp_remoteIndex = ri\<rparr>"

lemma BeginSymmetricSession_initiator:
  fixes p :: nat and d :: wg_device
  defines "h \<equiv> handshake (peer_at d p)"
  assumes ok: "index_ok d" and st: "hs_state h = handshakeResponseConsumed"
  shows "\<exists>d'. BeginSymmetricSession C now p d = (Inr (), d') \<and> index_ok d' \<and> kp_current (peer_at d' p) = Some (next_keypair d) \<and>
    keypair_at d' (next_keypair d) = session_keypair (fst (KDF2 C (hs_chainKey h) [])) (snd (KDF2 C (hs_chainKey h) [])) True now (localIndex h) (remoteIndex h) \<and>
    indexTable d' (localIndex h) = Some (keypair_entry p (next_keypair d))"
proof -
  obtain d' where d': "BeginSymmetricSession C now p d = (Inr (), d')" "kp_current (peer_at d' p) = Some (next_keypair d)"
      "keypair_at d' (next_keypair d) = session_keypair (fst (KDF2 C (hs_chainKey h) [])) (snd (KDF2 C (hs_chainKey h) [])) True now (localIndex h) (remoteIndex h)"
    using st by (simp add: BeginSymmetricSession_def rotate_keypairs_eq case_prod_beta Let_def set_handshake_def h_def session_keypair_def)
  have ok': "index_ok d'" using BeginSymmetricSession_index[OF ok, of C now p] d'(1) by simp
  have "indexTable d' (localIndex h) = Some (keypair_entry p (next_keypair d))"
    using index_okD(3)[OF ok', of "next_keypair d" p] d'(2,3) by (simp add: live_def slots_def session_keypair_def)
  then show ?thesis using d' ok' by blast
qed

lemma BeginSymmetricSession_responder:
  fixes p :: nat and d :: wg_device
  defines "h \<equiv> handshake (peer_at d p)"
  assumes ok: "index_ok d" and st: "hs_state h = handshakeResponseCreated"
  shows "\<exists>d'. BeginSymmetricSession C now p d = (Inr (), d') \<and> index_ok d' \<and> kp_next (peer_at d' p) = Some (next_keypair d) \<and>
    keypair_at d' (next_keypair d) = session_keypair (snd (KDF2 C (hs_chainKey h) [])) (fst (KDF2 C (hs_chainKey h) [])) False now (localIndex h) (remoteIndex h) \<and>
    indexTable d' (localIndex h) = Some (keypair_entry p (next_keypair d))"
proof -
  obtain d' where d': "BeginSymmetricSession C now p d = (Inr (), d')" "kp_next (peer_at d' p) = Some (next_keypair d)"
      "keypair_at d' (next_keypair d) = session_keypair (snd (KDF2 C (hs_chainKey h) [])) (fst (KDF2 C (hs_chainKey h) [])) False now (localIndex h) (remoteIndex h)"
    using st by (simp add: BeginSymmetricSession_def rotate_keypairs_eq case_prod_beta Let_def set_handshake_def h_def session_keypair_def)
  have ok': "index_ok d'" using BeginSymmetricSession_index[OF ok, of C now p] d'(1) by simp
  have "indexTable d' (localIndex h) = Some (keypair_entry p (next_keypair d))"
    using index_okD(3)[OF ok', of "next_keypair d" p] d'(2,3) by (simp add: live_def slots_def session_keypair_def)
  then show ?thesis using d' ok' by blast
qed

section \<open>Agreement\<close>

text \<open>Peer \<open>a\<close> of device \<open>A\<close> and peer \<open>b\<close> of device \<open>B\<close> are each other's.\<close>

definition paired :: "crypto \<Rightarrow> wg_device \<Rightarrow> nat \<Rightarrow> wg_device \<Rightarrow> nat \<Rightarrow> bool" where
  "paired C A a B b \<longleftrightarrow>
     length (privateKey A) = 32 \<and> length (privateKey B) = 32 \<and>
     publicKey A = ScalarBaseMult C (privateKey A) \<and> publicKey B = ScalarBaseMult C (privateKey B) \<and>
     remoteStatic (handshake (peer_at A a)) = publicKey B \<and> remoteStatic (handshake (peer_at B b)) = publicKey A \<and>
     precomputedStaticStatic (handshake (peer_at A a)) = ScalarMult C (privateKey A) (publicKey B) \<and>
     precomputedStaticStatic (handshake (peer_at B b)) = ScalarMult C (privateKey B) (publicKey A) \<and>
     presharedKey (handshake (peer_at A a)) = presharedKey (handshake (peer_at B b)) \<and>
     a < next_peer A \<and> b < next_peer B \<and> peer_with_key (publicKey A) B = Some b \<and> isRunning (peer_at B b)"

text \<open>No shared secret of the run is zero.\<close>

definition secrets_ok :: "crypto \<Rightarrow> wg_device \<Rightarrow> wg_device \<Rightarrow> bytes \<Rightarrow> bytes \<Rightarrow> bool" where
  "secrets_ok C A B eA eB \<longleftrightarrow>
     \<not> isZero (ScalarMult C (privateKey A) (publicKey B)) \<and> \<not> isZero (ScalarMult C eA (publicKey B)) \<and>
     \<not> isZero (ScalarMult C eB (ScalarBaseMult C eA)) \<and> \<not> isZero (ScalarMult C eB (publicKey A))"

text \<open>The state of both after the first message: the same transcript, and the index of the initiator.\<close>

definition half_open :: "crypto \<Rightarrow> wg_device \<Rightarrow> nat \<Rightarrow> wg_device \<Rightarrow> nat \<Rightarrow> bytes \<Rightarrow> bool" where
  "half_open C A a B b eA \<longleftrightarrow>
     (let ha = handshake (peer_at A a); hb = handshake (peer_at B b)
      in index_ok A \<and> index_ok B \<and> b < next_peer B \<and> hs_state ha = handshakeInitiationCreated \<and> hs_state hb = handshakeInitiationConsumed \<and>
         hs_hash hb = hs_hash ha \<and> hs_chainKey hb = hs_chainKey ha \<and> presharedKey hb = presharedKey ha \<and>
         localEphemeral ha = eA \<and> remoteEphemeral hb = ScalarBaseMult C eA \<and> remoteStatic hb = ScalarBaseMult C (privateKey A) \<and>
         remoteIndex hb = localIndex ha)"

lemma fresh_after_delete:
  assumes "index_source r" "indexTable d (fst (r n)) = None"
  shows "\<exists>index. new_index r 0 (IndexTable_Delete x (indexTable d)) = Some (index, None) \<and> index \<noteq> 0"
proof -
  have "IndexTable_Delete x (indexTable d) (fst (r (0 + n))) = None" using assms(2) by (simp add: IndexTable_Delete_def)
  with new_index_returns[of r "IndexTable_Delete x (indexTable d)" 0 n] show ?thesis using assms(1) unfolding index_source_def by blast
qed

lemma first_message:
  fixes A B :: wg_device and a b :: nat
  assumes laws: "crypto_laws C" and pair: "paired C A a B b" and ok: "index_ok A" "index_ok B"
    and key: "snd ra = None" "length (fst ra) = 32" and secret: "\<not> isZero (ScalarMult C (clamp (fst ra)) (publicKey B))" "\<not> isZero (ScalarMult C (privateKey A) (publicKey B))"
    and idx: "index_source ia" "indexTable A (fst (ia n)) = None"
    and ts: "Timestamp_After (stamp now) (lastTimestamp (handshake (peer_at B b)))"
      "time_Sub t1 (lastInitiationConsumption (handshake (peer_at B b))) > HandshakeInitationRate"
  shows "\<exists>m1 A1 B1. createMessageInitiation C ra ia now MessageInitiationType a A = Some (Inr m1, A1) \<and>
    ConsumeMessageInitiation C t1 t2 m1 B = Some (Some b, B1) \<and> half_open C A1 a B1 b (clamp (fst ra)) \<and>
    privateKey A1 = privateKey A \<and> indexTable B1 = indexTable B"
proof -
  note law = crypto_lawsD[OF laws] and P = pair[unfolded paired_def]
  let ?sk = "clamp (fst ra)"
  have skl: "length ?sk = 32" using key(2) by simp
  have dh: "ScalarMult C (privateKey B) (ScalarBaseMult C ?sk) = ScalarMult C ?sk (ScalarBaseMult C (privateKey B))"
    "ScalarMult C (privateKey B) (ScalarBaseMult C (privateKey A)) = ScalarMult C (privateKey A) (ScalarBaseMult C (privateKey B))"
    using law(1)[of "privateKey B" ?sk] law(1)[of "privateKey B" "privateKey A"] P skl by simp_all
  obtain index where index: "new_index ia 0 (IndexTable_Delete (localIndex (handshake (peer_at A a))) (indexTable A)) = Some (index, None)"
    using fresh_after_delete[OF idx] by blast
  have pk: "peer_with_key (ScalarBaseMult C (privateKey A)) B = Some b" using P by metis
  let ?h = "handshake (peer_at A a)" and ?hb = "handshake (peer_at B b)"
  let ?hash1 = "mixHash C (mixHash C (InitialHash C) (publicKey B)) (ScalarBaseMult C ?sk)"
  let ?kdf1 = "KDF2 C (mixKey C (InitialChainKey C) (ScalarBaseMult C ?sk)) (ScalarMult C ?sk (publicKey B))"
  let ?static = "aead_Seal C (snd ?kdf1) ZeroNonce (publicKey A) ?hash1"
  let ?kdf2 = "KDF2 C (fst ?kdf1) (ScalarMult C (privateKey A) (publicKey B))"
  let ?hash2 = "mixHash C ?hash1 ?static"
  let ?ts = "aead_Seal C (snd ?kdf2) ZeroNonce (stamp now) ?hash2"
  let ?m = "\<lparr>mi_Type = MessageInitiationType, mi_Sender = index, mi_Ephemeral = ScalarBaseMult C ?sk, mi_Static = ?static, mi_Timestamp = ?ts,
               mi_MAC1 = replicate 16 0, mi_MAC2 = replicate 16 0\<rparr>"
  let ?A1 = "set_handshake a (?h\<lparr>hs_state := handshakeInitiationCreated, hs_hash := mixHash C ?hash2 ?ts, hs_chainKey := fst ?kdf2, localEphemeral := ?sk, localIndex := index\<rparr>)
      (A\<lparr>indexTable := (IndexTable_Delete (localIndex ?h) (indexTable A))(index \<mapsto> handshake_entry a)\<rparr>)"
  have runA: "createMessageInitiation C ra ia now MessageInitiationType a A = Some (Inr ?m, ?A1)"
    using createMessageInitiation_ok[where C = C and now = now and ty = MessageInitiationType and p = a and d = A, OF key(1) _ _ index] P secret by simp
  let ?B1 = "set_handshake b (?hb\<lparr>hs_hash := mixHash C ?hash2 ?ts, hs_chainKey := fst ?kdf2, remoteIndex := index,
      remoteEphemeral := ScalarBaseMult C ?sk, lastTimestamp := stamp now,
      lastInitiationConsumption := (if t2 > lastInitiationConsumption ?hb then t2 else lastInitiationConsumption ?hb), hs_state := handshakeInitiationConsumed\<rparr>) B"
  have runB: "ConsumeMessageInitiation C t1 t2 ?m B = Some (Some b, ?B1)"
    by (subst ConsumeMessageInitiation_ok[where p = b and pk = "publicKey A" and ts = "stamp now"])
      (use P pk secret ts in \<open>simp_all add: dh law(2)\<close>)
  have ok': "index_ok ?A1" "index_ok ?B1"
    using createMessageInitiation_index[OF ok(1) idx(1) _ runA] ConsumeMessageInitiation_index[OF ok(2) runB] P by blast+
  have half: "half_open C A1 a B1 b ?sk" if "index_ok A1" "index_ok B1" "next_peer B1 = next_peer B" "privateKey A1 = privateKey A"
      "handshake (peer_at A1 a) = handshake (peer_at ?A1 a)" "handshake (peer_at B1 b) = handshake (peer_at ?B1 b)" for A1 B1
    using that P by (simp add: half_open_def Let_def)
  have "half_open C ?A1 a ?B1 b ?sk" by (rule half[OF ok']) (simp_all add: set_handshake_def set_peer_def)
  then show ?thesis using runA runB by (intro exI[of _ ?m] exI[of _ ?A1] exI[of _ ?B1]) (simp add: set_handshake_def set_peer_def)
qed

text \<open>The key pairs match: the key one sends with is the key the other receives with, and the index one
  puts into its packets leads the other to this key pair.\<close>

definition session_agreed :: "wg_device \<Rightarrow> nat \<Rightarrow> wg_device \<Rightarrow> nat \<Rightarrow> bool" where
  "session_agreed A a B b \<longleftrightarrow>
     (\<exists>ka kb. kp_current (peer_at A a) = Some ka \<and> kp_next (peer_at B b) = Some kb \<and>
        send_key (keypair_at A ka) = receive_key (keypair_at B kb) \<and> receive_key (keypair_at A ka) = send_key (keypair_at B kb) \<and>
        indexTable A (kp_remoteIndex (keypair_at B kb)) = Some (keypair_entry a ka) \<and>
        indexTable B (kp_remoteIndex (keypair_at A ka)) = Some (keypair_entry b kb))"

lemma second_message:
  fixes A B :: wg_device and a b :: nat
  assumes laws: "crypto_laws C" and half: "half_open C A a B b eA" and len: "length eA = 32" "length (privateKey A) = 32"
    and key: "snd rb = None" "length (fst rb) = 32"
    and secret: "\<not> isZero (ScalarMult C (clamp (fst rb)) (ScalarBaseMult C eA))" "\<not> isZero (ScalarMult C (clamp (fst rb)) (ScalarBaseMult C (privateKey A)))"
    and idx: "index_source ib" "indexTable B (fst (ib n)) = None"
  shows "\<exists>m2 B2 B3 A2 A3. createMessageResponse C rb ib MessageResponseType b B = Some (Inr m2, B2) \<and>
    BeginSymmetricSession C t3 b B2 = (Inr (), B3) \<and> ConsumeMessageResponse C m2 A = (Some a, A2) \<and>
    BeginSymmetricSession C t4 a A2 = (Inr (), A3) \<and> session_agreed A3 a B3 b"
proof -
  note law = crypto_lawsD[OF laws] and H = half[unfolded half_open_def Let_def]
  let ?sk = "clamp (fst rb)" and ?ha = "handshake (peer_at A a)" and ?hb = "handshake (peer_at B b)"
  have skl: "length ?sk = 32" using key(2) by simp
  have dh: "ScalarMult C eA (ScalarBaseMult C ?sk) = ScalarMult C ?sk (ScalarBaseMult C eA)"
    "ScalarMult C (privateKey A) (ScalarBaseMult C ?sk) = ScalarMult C ?sk (ScalarBaseMult C (privateKey A))"
    using law(1)[of eA ?sk] law(1)[of "privateKey A" ?sk] len skl by simp_all
  obtain index where index: "new_index ib 0 (IndexTable_Delete (localIndex ?hb) (indexTable B)) = Some (index, None)"
    using fresh_after_delete[OF idx] by blast
  have entry: "indexTable A (localIndex ?ha) = Some (handshake_entry a)" using index_okD(4,6)[of A a] H by auto
  let ?ck = "mixKey C (mixKey C (mixKey C (hs_chainKey ?ha) (ScalarBaseMult C ?sk)) (ScalarMult C ?sk (ScalarBaseMult C eA))) (ScalarMult C ?sk (ScalarBaseMult C (privateKey A)))"
  let ?kdf = "KDF3 C ?ck (presharedKey ?ha)"
  let ?hash1 = "mixHash C (mixHash C (hs_hash ?ha) (ScalarBaseMult C ?sk)) (fst (snd ?kdf))"
  let ?seal = "aead_Seal C (snd (snd ?kdf)) ZeroNonce [] ?hash1"
  let ?m = "\<lparr>mr_Type = MessageResponseType, mr_Sender = index, mr_Receiver = localIndex ?ha, mr_Ephemeral = ScalarBaseMult C ?sk, mr_Empty = ?seal,
               mr_MAC1 = replicate 16 0, mr_MAC2 = replicate 16 0\<rparr>"
  let ?B2 = "set_handshake b (?hb\<lparr>hs_state := handshakeResponseCreated, hs_hash := mixHash C ?hash1 ?seal, hs_chainKey := fst ?kdf, localEphemeral := ?sk, localIndex := index\<rparr>)
      (B\<lparr>indexTable := (IndexTable_Delete (localIndex ?hb) (indexTable B))(index \<mapsto> handshake_entry b)\<rparr>)"
  let ?A2 = "set_handshake a (?ha\<lparr>hs_hash := mixHash C ?hash1 ?seal, hs_chainKey := fst ?kdf, remoteIndex := index, hs_state := handshakeResponseConsumed\<rparr>) A"
  have runB: "createMessageResponse C rb ib MessageResponseType b B = Some (Inr ?m, ?B2)"
    by (subst createMessageResponse_ok[where index = index]) (use H key secret index in simp_all)
  have runA: "ConsumeMessageResponse C ?m A = (Some a, ?A2)"
    by (subst ConsumeMessageResponse_ok[where p = a and x = "[]"]) (use H secret entry in \<open>simp_all add: dh law(2)\<close>)
  have okB: "index_ok ?B2" using createMessageResponse_index[OF _ idx(1) _ runB] H by blast
  have okA: "index_ok ?A2" using ConsumeMessageResponse_index[of A C ?m] H unfolding runA by simp
  obtain B3 where B3: "BeginSymmetricSession C t3 b ?B2 = (Inr (), B3)" "kp_next (peer_at B3 b) = Some (next_keypair B)"
      "keypair_at B3 (next_keypair B) = session_keypair (snd (KDF2 C (fst ?kdf) [])) (fst (KDF2 C (fst ?kdf) [])) False t3 index (remoteIndex ?hb)"
      "indexTable B3 index = Some (keypair_entry b (next_keypair B))"
    using BeginSymmetricSession_responder[OF okB, of b C t3] by auto
  obtain A3 where A3: "BeginSymmetricSession C t4 a ?A2 = (Inr (), A3)" "kp_current (peer_at A3 a) = Some (next_keypair A)"
      "keypair_at A3 (next_keypair A) = session_keypair (fst (KDF2 C (fst ?kdf) [])) (snd (KDF2 C (fst ?kdf) [])) True t4 (localIndex ?ha) index"
      "indexTable A3 (localIndex ?ha) = Some (keypair_entry a (next_keypair A))"
    using BeginSymmetricSession_initiator[OF okA, of a C t4] by auto
  have "session_agreed A3 a B3 b" using A3(2-4) B3(2-4) H by (auto simp: session_agreed_def session_keypair_def)
  then show ?thesis using runA runB A3(1) B3(1) by blast
qed

section \<open>An example\<close>

text \<open>A device with a private key and one running peer.\<close>

definition example_pair :: "u8 \<Rightarrow> u8 \<Rightarrow> wg_device" where
  "example_pair x y = Peer_Start 0 0 (snd (NewPeer example_crypto (replicate 32 y) (SetPrivateKey example_crypto 0 (replicate 32 x) new_device)))"

lemma example_pair_reachable: "(dev_step example_crypto)\<^sup>*\<^sup>* new_device (example_pair x y)"
proof -
  let ?d1 = "SetPrivateKey example_crypto 0 (replicate 32 x) new_device" and ?C = example_crypto
  let ?d2 = "snd (NewPeer ?C (replicate 32 y) ?d1)"
  have "dev_step ?C new_device ?d1" by (rule dev_step.NewKey)
  moreover have "dev_step ?C ?d1 ?d2"
    by (rule dev_step.Session, rule session_step.AddPeer[of _ "replicate 32 y" _ "fst (NewPeer ?C (replicate 32 y) ?d1)"]) simp
  moreover have "dev_step ?C ?d2 (example_pair x y)" unfolding example_pair_def by (rule dev_step.Session, rule session_step.Start)
  ultimately show ?thesis by (meson converse_rtranclp_into_rtranclp rtranclp.rtrancl_refl)
qed

lemma sum_replicate: "map2 (+) (replicate n x) (replicate n y) = replicate n (x + y :: u8)"
  by (induction n) simp_all

lemma example_pair_simps:
  assumes "x \<noteq> 0"
  shows "privateKey (example_pair x y) = replicate 32 x" "publicKey (example_pair x y) = replicate 32 x"
    "keyMap (example_pair x y) = [(replicate 32 y, 0)]" "next_peer (example_pair x y) = 1" "indexTable (example_pair x y) = Map.empty"
    "isRunning (peer_at (example_pair x y) 0)"
    "handshake (peer_at (example_pair x y) 0) = no_handshake\<lparr>precomputedStaticStatic := replicate 32 (x + y), remoteStatic := replicate 32 y,
       lastSentHandshake := - (RekeyTimeout + 1000000000)\<rparr>"
proof -
  have ne: "replicate 32 x \<noteq> replicate 32 0" using assms by (metis nth_replicate zero_less_numeral)
  show "privateKey (example_pair x y) = replicate 32 x" "publicKey (example_pair x y) = replicate 32 x"
    "keyMap (example_pair x y) = [(replicate 32 y, 0)]" "next_peer (example_pair x y) = 1" "indexTable (example_pair x y) = Map.empty"
    "isRunning (peer_at (example_pair x y) 0)"
    "handshake (peer_at (example_pair x y) 0) = no_handshake\<lparr>precomputedStaticStatic := replicate 32 (x + y), remoteStatic := replicate 32 y,
       lastSentHandshake := - (RekeyTimeout + 1000000000)\<rparr>"
    using ne sum_replicate[of 32 x y]
    by (simp_all add: example_pair_def Peer_Start_def NewPeer_def isClosed_def SetPrivateKey_def new_device_def MaxPeers_def peer_with_key_def sharedSecret_def
        example_crypto_def set_peer_def Let_def)
qed

lemma example_paired: "paired example_crypto (example_pair 1 2) 0 (example_pair 2 1) 0"
  by (simp add: paired_def example_pair_simps peer_with_key_def no_handshake_def) (simp add: example_crypto_def sum_replicate)

lemma example_secrets: "secrets_ok example_crypto (example_pair 1 2) (example_pair 2 1) (clamp (replicate 32 5)) (clamp (replicate 32 6))"
proof -
  have "\<not> isZero (map2 (+) (replicate 32 1) (replicate 32 2))" "\<not> isZero (map2 (+) (clamp (replicate 32 5)) (replicate 32 2))"
    "\<not> isZero (map2 (+) (clamp (replicate 32 6)) (take 32 (clamp (replicate 32 5) @ replicate 32 0)))" "\<not> isZero (map2 (+) (clamp (replicate 32 6)) (replicate 32 1))"
    by code_simp+
  then show ?thesis by (simp add: secrets_ok_def example_pair_simps) (simp add: example_crypto_def)
qed

lemma example_times: "Timestamp_After (stamp 0) (replicate 12 0)" "time_Sub 0 zero_time > HandshakeInitationRate"
  by code_simp+

lemma example_first_message: "\<exists>msg B. ConsumeMessageInitiation example_crypto 0 0 msg (example_pair 2 1) = Some (Some 0, B)"
proof -
  have ok: "index_ok (example_pair x y)" for x y using dev_steps_index[OF example_pair_reachable new_device_index] .
  have "\<exists>m1 A1 B1. createMessageInitiation example_crypto (replicate 32 5, None) (\<lambda>_. (7, None)) 0 MessageInitiationType 0 (example_pair 1 2) = Some (Inr m1, A1) \<and>
      ConsumeMessageInitiation example_crypto 0 0 m1 (example_pair 2 1) = Some (Some 0, B1) \<and> half_open example_crypto A1 0 B1 0 (clamp (fst (replicate 32 5, None :: error option))) \<and>
      privateKey A1 = privateKey (example_pair 1 2) \<and> indexTable B1 = indexTable (example_pair 2 1)"
    by (rule first_message[OF example_crypto_laws example_paired ok ok])
      (use example_secrets example_times in \<open>simp_all add: secrets_ok_def example_pair_simps no_handshake_def index_source_def\<close>)
  then show ?thesis by blast
qed

section \<open>Properties\<close>

text \<open>C32. Two devices in any reachable state that have each other as peers with the same preshared key
  complete the handshake: the initiation of one is consumed by the other, its response is consumed by
  the first, and both sessions begin. Then each sends with the key the other receives with, and the
  index in the packets of one leads the other to the matching key pair.\<close>

theorem handshake_agreement:
  assumes "crypto_laws C" "(dev_step C)\<^sup>*\<^sup>* new_device A" "(dev_step C)\<^sup>*\<^sup>* new_device B" "paired C A a B b"
    and "snd ra = None" "length (fst ra) = 32" "snd rb = None" "length (fst rb) = 32" "secrets_ok C A B (clamp (fst ra)) (clamp (fst rb))"
    and "index_source ia" "indexTable A (fst (ia n)) = None" "index_source ib" "indexTable B (fst (ib m)) = None"
    and "Timestamp_After (stamp now) (lastTimestamp (handshake (peer_at B b)))"
    and "time_Sub t1 (lastInitiationConsumption (handshake (peer_at B b))) > HandshakeInitationRate"
  shows "\<exists>m1 A1 B1 m2 B2 B3 A2 A3. createMessageInitiation C ra ia now MessageInitiationType a A = Some (Inr m1, A1) \<and>
    ConsumeMessageInitiation C t1 t2 m1 B = Some (Some b, B1) \<and> createMessageResponse C rb ib MessageResponseType b B1 = Some (Inr m2, B2) \<and>
    BeginSymmetricSession C t3 b B2 = (Inr (), B3) \<and> ConsumeMessageResponse C m2 A1 = (Some a, A2) \<and>
    BeginSymmetricSession C t4 a A2 = (Inr (), A3) \<and> session_agreed A3 a B3 b"
proof -
  have ok: "index_ok A" "index_ok B" using dev_steps_index new_device_index assms(2,3) by blast+
  have S: "\<not> isZero (ScalarMult C (clamp (fst ra)) (publicKey B))" "\<not> isZero (ScalarMult C (privateKey A) (publicKey B))"
    "\<not> isZero (ScalarMult C (clamp (fst rb)) (ScalarBaseMult C (clamp (fst ra))))" "\<not> isZero (ScalarMult C (clamp (fst rb)) (publicKey A))"
    using assms(9) by (simp_all add: secrets_ok_def)
  have P: "publicKey A = ScalarBaseMult C (privateKey A)" "length (privateKey A) = 32" using assms(4) by (simp_all add: paired_def)
  obtain m1 A1 B1 where 1: "createMessageInitiation C ra ia now MessageInitiationType a A = Some (Inr m1, A1)"
      "ConsumeMessageInitiation C t1 t2 m1 B = Some (Some b, B1)" "half_open C A1 a B1 b (clamp (fst ra))"
      "privateKey A1 = privateKey A" "indexTable B1 = indexTable B"
    using first_message[OF assms(1,4) ok assms(5,6) S(1,2) assms(10,11,14,15)] by blast
  have "\<exists>m2 B2 B3 A2 A3. createMessageResponse C rb ib MessageResponseType b B1 = Some (Inr m2, B2) \<and>
      BeginSymmetricSession C t3 b B2 = (Inr (), B3) \<and> ConsumeMessageResponse C m2 A1 = (Some a, A2) \<and>
      BeginSymmetricSession C t4 a A2 = (Inr (), A3) \<and> session_agreed A3 a B3 b"
    using 1 S P assms(6-8,12,13) by (intro second_message[OF assms(1) 1(3)]) simp_all
  then show ?thesis using 1(1,2) by blast
qed

theorem handshake_agreement_witness:
  "\<exists>m1 A1 B1 m2 B2 B3 A2 A3. createMessageInitiation example_crypto (replicate 32 5, None) (\<lambda>_. (7, None)) 0 MessageInitiationType 0 (example_pair 1 2) = Some (Inr m1, A1) \<and>
    ConsumeMessageInitiation example_crypto 0 0 m1 (example_pair 2 1) = Some (Some 0, B1) \<and>
    createMessageResponse example_crypto (replicate 32 6, None) (\<lambda>_. (8, None)) MessageResponseType 0 B1 = Some (Inr m2, B2) \<and>
    BeginSymmetricSession example_crypto 0 0 B2 = (Inr (), B3) \<and> ConsumeMessageResponse example_crypto m2 A1 = (Some 0, A2) \<and>
    BeginSymmetricSession example_crypto 0 0 A2 = (Inr (), A3) \<and> session_agreed A3 0 B3 0"
  by (rule handshake_agreement[OF example_crypto_laws example_pair_reachable example_pair_reachable example_paired])
    (use example_secrets example_times in \<open>simp_all add: example_pair_simps no_handshake_def index_source_def\<close>)

end
