(* ===== verification/Noise_Replay.thy ===== *)
theory Noise_Replay
  imports Noise_Session
begin

text \<open>
  An initiation is consumed once: the timestamp of the last one never goes back, whatever the device
  does between, as long as its private key and the peer stay.
\<close>

section \<open>What the steps of a session keep\<close>

definition keeps :: "wg_device \<Rightarrow> wg_device \<Rightarrow> bool" where
  "keeps d d' \<longleftrightarrow> privateKey d' = privateKey d \<and> publicKey d' = publicKey d \<and> next_peer d \<le> next_peer d' \<and>
     (\<forall>pk p. peer_with_key pk d = Some p \<longrightarrow> peer_with_key pk d' = Some p) \<and>
     (\<forall>pk p. peer_with_key pk d' = Some p \<longrightarrow> peer_with_key pk d = Some p \<or> p < next_peer d') \<and>
     (\<forall>p < next_peer d. precomputedStaticStatic (handshake (peer_at d' p)) = precomputedStaticStatic (handshake (peer_at d p)) \<and>
        (lastTimestamp (handshake (peer_at d' p)) = lastTimestamp (handshake (peer_at d p)) \<or>
         Timestamp_After (lastTimestamp (handshake (peer_at d' p))) (lastTimestamp (handshake (peer_at d p)))))"

definition keys_ok :: "wg_device \<Rightarrow> bool" where
  "keys_ok d \<longleftrightarrow> (\<forall>pk p. peer_with_key pk d = Some p \<longrightarrow> p < next_peer d)"

lemma set_peer_keys [simp]:
  "privateKey (set_peer p q d) = privateKey d" "publicKey (set_peer p q d) = publicKey d" "keyMap (set_peer p q d) = keyMap d"
  "privateKey (set_handshake p h d) = privateKey d" "publicKey (set_handshake p h d) = publicKey d" "keyMap (set_handshake p h d) = keyMap d"
  by (simp_all add: set_handshake_def set_peer_def)

lemma keeps_refl [simp]: "keeps d d"
  by (simp add: keeps_def)

lemma keepsD:
  assumes "keeps d d'"
  shows "privateKey d' = privateKey d" "publicKey d' = publicKey d" "next_peer d \<le> next_peer d'"
    "peer_with_key pk d = Some p \<Longrightarrow> peer_with_key pk d' = Some p"
    "peer_with_key pk d' = Some p \<Longrightarrow> peer_with_key pk d = Some p \<or> p < next_peer d'"
    "p < next_peer d \<Longrightarrow> precomputedStaticStatic (handshake (peer_at d' p)) = precomputedStaticStatic (handshake (peer_at d p))"
    "p < next_peer d \<Longrightarrow> lastTimestamp (handshake (peer_at d' p)) = lastTimestamp (handshake (peer_at d p)) \<or>
       Timestamp_After (lastTimestamp (handshake (peer_at d' p))) (lastTimestamp (handshake (peer_at d p)))"
  using assms unfolding keeps_def by blast+

lemma keeps_trans:
  assumes "keeps d d1" "keeps d1 d2"
  shows "keeps d d2"
proof -
  note K = keepsD[OF assms(1)] and L = keepsD[OF assms(2)]
  have "precomputedStaticStatic (handshake (peer_at d2 p)) = precomputedStaticStatic (handshake (peer_at d p)) \<and>
      (lastTimestamp (handshake (peer_at d2 p)) = lastTimestamp (handshake (peer_at d p)) \<or>
       Timestamp_After (lastTimestamp (handshake (peer_at d2 p))) (lastTimestamp (handshake (peer_at d p))))" if "p < next_peer d" for p
  proof -
    have p1: "p < next_peer d1" using that K(3) by simp
    show ?thesis using K(6,7)[OF that] L(6,7)[OF p1] by (elim disjE) (simp_all add: After_trans)
  qed
  moreover have "peer_with_key pk d = Some p \<or> p < next_peer d2" if "peer_with_key pk d2 = Some p" for pk p
    using L(5)[OF that] K(5)[of pk p] L(3) by auto
  ultimately show ?thesis using K(1-4) L(1-4) by (simp add: keeps_def)
qed

text \<open>The same keys, and peers whose handshakes keep the two fields.\<close>

lemma keeps_same:
  assumes "privateKey d' = privateKey d" "publicKey d' = publicKey d" "next_peer d' = next_peer d" "keyMap d' = keyMap d"
    and "\<And>p. precomputedStaticStatic (handshake (peer_at d' p)) = precomputedStaticStatic (handshake (peer_at d p))"
    and "\<And>p. lastTimestamp (handshake (peer_at d' p)) = lastTimestamp (handshake (peer_at d p))"
  shows "keeps d d'"
  using assms by (simp add: keeps_def peer_with_key_def)

lemma createMessageInitiation_keeps: "createMessageInitiation C rkey r now ty p d = Some (res, d') \<Longrightarrow> keeps d d'"
  by (auto simp: createMessageInitiation_def newPrivateKey_def sharedSecret_def KDF2_def Let_def
      split: option.splits if_splits prod.splits intro!: keeps_same)

lemma createMessageResponse_keeps: "createMessageResponse C rkey r ty p d = Some (res, d') \<Longrightarrow> keeps d d'"
  by (auto simp: createMessageResponse_def newPrivateKey_def sharedSecret_def KDF3_def Let_def
      split: option.splits if_splits prod.splits intro!: keeps_same)

lemma ConsumeMessageResponse_keeps: "ConsumeMessageResponse C msg d = (res, d') \<Longrightarrow> keeps d d'"
  by (auto simp: ConsumeMessageResponse_def sharedSecret_def KDF3_def Let_def
      split: option.splits if_splits prod.splits intro!: keeps_same)

lemma BeginSymmetricSession_keeps: "BeginSymmetricSession C now p d = (res, d') \<Longrightarrow> keeps d d'"
  by (auto simp: BeginSymmetricSession_def KDF2_def rotate_keypairs_eq Let_def split: if_splits intro!: keeps_same)

lemma ReceivedWithKeypair_keeps: "ReceivedWithKeypair p k d = (res, d') \<Longrightarrow> keeps d d'"
  by (auto simp: ReceivedWithKeypair_def DeleteKeypair_eq Let_def split: if_splits intro!: keeps_same)

lemma ZeroAndFlushAll_keeps: "keeps d (ZeroAndFlushAll p d)"
  by (rule keeps_same) (simp_all add: ZeroAndFlushAll_def FlushStagedPackets_def DeleteKeypair_eq Let_def)

lemma ExpireCurrentKeypairs_keeps: "keeps d (ExpireCurrentKeypairs now p d)"
  by (rule keeps_same) (simp_all add: ExpireCurrentKeypairs_def Let_def)

lemma Peer_Start_keeps: "keeps d (Peer_Start now p d)"
  by (rule keeps_same) (simp_all add: Peer_Start_def Let_def)

lemma Peer_Stop_keeps: "keeps d (Peer_Stop p d)"
proof -
  have "keeps d (set_peer p ((peer_at d p)\<lparr>isRunning := False, timers := timersStop (timers (peer_at d p))\<rparr>) d)" by (rule keeps_same) simp_all
  then show ?thesis unfolding Peer_Stop_def Let_def using ZeroAndFlushAll_keeps keeps_trans by simp
qed

lemma SetAllowedIPs_keeps: "SetAllowedIPs p ps d = Some d' \<Longrightarrow> keeps d d'"
  by (auto simp: SetAllowedIPs_def split: if_splits option.splits intro!: keeps_same)

lemma NewPeer_keeps: "NewPeer C pk d = (res, d') \<Longrightarrow> keeps d d'"
  by (auto simp: NewPeer_def keeps_def peer_with_key_def Let_def split: if_splits)

lemma LookupPeer_keeps: "LookupPeer C now pk d = Some (res, d') \<Longrightarrow> keeps d d'"
proof -
  assume run: "LookupPeer C now pk d = Some (res, d')"
  have conf: "keeps d (Peer_Start now p (set_peer p q d2))"
    if "NewPeer C pk d = (Inr p, d1)" "SetAllowedIPs p ps d1 = Some d2" "handshake q = handshake (peer_at d2 p)" for p ps d1 d2 q
  proof -
    have "keeps d2 (set_peer p q d2)" using that(3) by (intro keeps_same) simp_all
    then show ?thesis using NewPeer_keeps[OF that(1)] SetAllowedIPs_keeps[OF that(2)] Peer_Start_keeps keeps_trans by meson
  qed
  show ?thesis using run
    by (auto simp: LookupPeer_def Let_def SetEndpointFromPacket_def split: option.splits prod.splits sum.splits if_splits
        intro: NewPeer_keeps intro!: conf)
qed

lemma ConsumeMessageInitiation_keeps: "ConsumeMessageInitiation C now1 now2 msg d = Some (res, d') \<Longrightarrow> keeps d d'"
proof -
  assume run: "ConsumeMessageInitiation C now1 now2 msg d = Some (res, d')"
  have hs: "keeps d (set_handshake p h d1)"
    if "LookupPeer C now1 pk d = Some (r, d1)" "precomputedStaticStatic h = precomputedStaticStatic (handshake (peer_at d1 p))"
      "Timestamp_After (lastTimestamp h) (lastTimestamp (handshake (peer_at d1 p)))" for pk r d1 h p
  proof -
    have "keeps d1 (set_handshake p h d1)" using that(2,3) by (simp add: keeps_def peer_with_key_def)
    then show ?thesis using LookupPeer_keeps[OF that(1)] keeps_trans by blast
  qed
  show ?thesis using run
    by (auto simp: ConsumeMessageInitiation_def Let_def sharedSecret_def KDF2_def split: option.splits prod.splits if_splits
        intro: LookupPeer_keeps intro!: hs)
qed

lemma session_step_keeps: "session_step C d d' \<Longrightarrow> keeps d d'"
  by (induction rule: session_step.induct)
    (auto intro: keeps_same createMessageInitiation_keeps ConsumeMessageInitiation_keeps createMessageResponse_keeps ConsumeMessageResponse_keeps
      BeginSymmetricSession_keeps ReceivedWithKeypair_keeps ZeroAndFlushAll_keeps ExpireCurrentKeypairs_keeps Peer_Start_keeps Peer_Stop_keeps
      NewPeer_keeps SetAllowedIPs_keeps simp: same_core_def)

lemma session_steps_keeps: "(session_step C)\<^sup>*\<^sup>* d d' \<Longrightarrow> keeps d d'"
  by (induction rule: rtranclp_induct) (auto intro: keeps_trans session_step_keeps)

lemma keeps_keys_ok: "keeps d d' \<Longrightarrow> keys_ok d \<Longrightarrow> keys_ok d'"
  unfolding keys_ok_def using keepsD(3,5)[of d d'] less_le_trans by blast

section \<open>Peers of reachable devices\<close>

lemma map_of_filter_key: "map_of (filter (\<lambda>(k, _). k \<noteq> key) m) pk = (if pk = key then None else map_of m pk)"
  by (induction m) auto

lemma RemovePeer_keys: "keys_ok d \<Longrightarrow> keys_ok (RemovePeer key d)"
proof (cases "peer_with_key key d")
  case (Some p)
  assume ok: "keys_ok d"
  have "keys_ok (d\<lparr>allowedips := removeByPeerLocked p (allowedips d)\<rparr>)" using ok by (simp add: keys_ok_def peer_with_key_def)
  then have "keys_ok (Peer_Stop p (d\<lparr>allowedips := removeByPeerLocked p (allowedips d)\<rparr>))" using keeps_keys_ok[OF Peer_Stop_keeps] by blast
  then show ?thesis using Some by (simp add: RemovePeer_def keys_ok_def peer_with_key_def map_of_filter_key Let_def)
qed (simp add: RemovePeer_def)

lemma fold_keys_ok: "(\<And>x d. keys_ok d \<Longrightarrow> keys_ok (f x d)) \<Longrightarrow> keys_ok d \<Longrightarrow> keys_ok (fold f xs d)"
  by (induction xs arbitrary: d) auto

lemma SetPrivateKey_keys: "keys_ok d \<Longrightarrow> keys_ok (SetPrivateKey C now sk d)"
proof -
  assume ok: "keys_ok d"
  have hs: "keys_ok (set_handshake p h d')" if "keys_ok d'" for d' p h using that by (simp add: keys_ok_def peer_with_key_def)
  have pk: "keys_ok (d'\<lparr>privateKey := sk, publicKey := x, cookieChecker := c\<rparr>)" if "keys_ok d'" for d' x c using that by (simp add: keys_ok_def peer_with_key_def)
  show ?thesis
    by (auto simp: SetPrivateKey_def Let_def split: prod.splits
        intro!: fold_keys_ok RemovePeer_keys keeps_keys_ok[OF ExpireCurrentKeypairs_keeps] hs pk ok)
qed

lemma dev_steps_keys: "(dev_step C)\<^sup>*\<^sup>* d d' \<Longrightarrow> keys_ok d \<Longrightarrow> keys_ok d'"
proof (induction rule: rtranclp_induct)
  case (step d1 d2)
  from step(2) step.IH[OF step.prems] show ?case
    by (induction rule: dev_step.induct) (auto intro: keeps_keys_ok session_step_keeps RemovePeer_keys SetPrivateKey_keys)
qed

section \<open>Replayed initiations\<close>

text \<open>What a device decrypts of an initiation: the peer, and the timestamp with its key.\<close>

definition initiation_static :: "crypto \<Rightarrow> messageInitiation \<Rightarrow> wg_device \<Rightarrow> bytes option" where
  "initiation_static C msg d =
     aead_Open C (snd (KDF2 C (mixKey C (InitialChainKey C) (mi_Ephemeral msg)) (ScalarMult C (privateKey d) (mi_Ephemeral msg)))) ZeroNonce (mi_Static msg)
       (mixHash C (mixHash C (InitialHash C) (publicKey d)) (mi_Ephemeral msg))"

definition initiation_timestamp :: "crypto \<Rightarrow> messageInitiation \<Rightarrow> bytes \<Rightarrow> wg_device \<Rightarrow> bytes option" where
  "initiation_timestamp C msg pss d =
     aead_Open C (snd (KDF2 C (fst (KDF2 C (mixKey C (InitialChainKey C) (mi_Ephemeral msg)) (ScalarMult C (privateKey d) (mi_Ephemeral msg)))) pss)) ZeroNonce (mi_Timestamp msg)
       (mixHash C (mixHash C (mixHash C (InitialHash C) (publicKey d)) (mi_Ephemeral msg)) (mi_Static msg))"

lemma consumed:
  assumes "ConsumeMessageInitiation C now1 now2 msg d = Some (Some p, d')"
  shows "\<exists>pk d1 ts. initiation_static C msg d = Some pk \<and> LookupPeer C now1 pk d = Some (Some p, d1) \<and>
    initiation_timestamp C msg (precomputedStaticStatic (handshake (peer_at d1 p))) d = Some ts \<and>
    Timestamp_After ts (lastTimestamp (handshake (peer_at d1 p))) \<and> lastTimestamp (handshake (peer_at d' p)) = ts \<and>
    precomputedStaticStatic (handshake (peer_at d' p)) = precomputedStaticStatic (handshake (peer_at d1 p)) \<and>
    keyMap d' = keyMap d1 \<and> next_peer d' = next_peer d1"
  using assms
  by (auto simp: ConsumeMessageInitiation_def initiation_static_def initiation_timestamp_def sharedSecret_def Let_def case_prod_beta
      split: option.splits prod.splits if_splits)

lemma LookupPeer_found: "LookupPeer C now pk d = Some (Some p, d1) \<Longrightarrow> peer_with_key pk d1 = Some p"
proof -
  assume run: "LookupPeer C now pk d = Some (Some p, d1)"
  have map: "keyMap (Peer_Start now p d2) = keyMap d2" "SetAllowedIPs p ps d2 = Some d3 \<Longrightarrow> keyMap d3 = keyMap d2" for p ps d2 d3
    by (auto simp: Peer_Start_def Let_def SetAllowedIPs_def split: if_splits option.splits)
  have new: "NewPeer C pk d = (Inr p, d2) \<Longrightarrow> map_of (keyMap d2) pk = Some p" for p d2
    by (auto simp: NewPeer_def Let_def split: if_splits)
  show ?thesis using run
    by (auto simp: LookupPeer_def peer_with_key_def map new Let_def split: option.splits prod.splits sum.splits if_splits)
qed

text \<open>Without a function that creates peers the call returns.\<close>

lemma ConsumeMessageInitiation_returns:
  assumes "lookupFunc d = None"
  shows "ConsumeMessageInitiation C now1 now2 msg d \<noteq> None"
    "ConsumeMessageInitiation C now1 now2 msg d = Some (res, d') \<Longrightarrow> lookupFunc d' = None"
  using assms
  by (auto simp: ConsumeMessageInitiation_def LookupPeer_def set_handshake_def set_peer_def Let_def split: option.splits prod.splits if_splits)

text \<open>C33. An initiation that was consumed is never consumed again: in any reachable device and after
  any steps of the sessions, whatever the clock, the same message yields no peer, as long as the
  private key is not changed and the peer is not removed.\<close>

theorem initiation_consumed_once:
  assumes "(dev_step C)\<^sup>*\<^sup>* new_device d" "ConsumeMessageInitiation C t1 t2 msg d = Some (Some p, d1)"
    and "(session_step C)\<^sup>*\<^sup>* d1 d2" "ConsumeMessageInitiation C t3 t4 msg d2 = Some (res, d3)"
  shows "res = None"
proof (rule ccontr)
  assume "res \<noteq> None"
  then obtain q where again: "ConsumeMessageInitiation C t3 t4 msg d2 = Some (Some q, d3)" using assms(4) by auto
  obtain pk e1 ts where 1: "initiation_static C msg d = Some pk" "LookupPeer C t1 pk d = Some (Some p, e1)"
      "initiation_timestamp C msg (precomputedStaticStatic (handshake (peer_at e1 p))) d = Some ts" "lastTimestamp (handshake (peer_at d1 p)) = ts"
      "precomputedStaticStatic (handshake (peer_at d1 p)) = precomputedStaticStatic (handshake (peer_at e1 p))" "keyMap d1 = keyMap e1" "next_peer d1 = next_peer e1"
    using consumed[OF assms(2)] by blast
  obtain pk' e2 ts' where 2: "initiation_static C msg d2 = Some pk'" "LookupPeer C t3 pk' d2 = Some (Some q, e2)"
      "initiation_timestamp C msg (precomputedStaticStatic (handshake (peer_at e2 q))) d2 = Some ts'"
      "Timestamp_After ts' (lastTimestamp (handshake (peer_at e2 q)))"
    using consumed[OF again] by blast
  have K: "keeps d d1" "keeps d1 d2" using ConsumeMessageInitiation_keeps[OF assms(2)] session_steps_keeps[OF assms(3)] .
  have keys: "privateKey d2 = privateKey d" "publicKey d2 = publicKey d" using keepsD(1,2)[OF K(1)] keepsD(1,2)[OF K(2)] by simp_all
  have pk: "pk' = pk" using 1(1) 2(1) keys by (simp add: initiation_static_def)
  have p1: "peer_with_key pk d1 = Some p" using LookupPeer_found[OF 1(2)] 1(6) by (simp add: peer_with_key_def)
  have "keys_ok new_device" by (simp add: keys_ok_def peer_with_key_def new_device_def)
  then have "keys_ok d1" using keeps_keys_ok[OF K(1) dev_steps_keys[OF assms(1)]] by blast
  then have lt: "p < next_peer d1" using p1 by (auto simp: keys_ok_def)
  have "peer_with_key pk d2 = Some p" using keepsD(4)[OF K(2) p1] .
  then have e2: "q = p" "e2 = d2" using 2(2) pk by (auto simp: LookupPeer_def)
  have "ts' = ts" using 1(3,5) 2(3) keepsD(6)[OF K(2) lt] keys e2 by (simp add: initiation_timestamp_def)
  then show False using 2(4) keepsD(7)[OF K(2) lt] 1(4) e2 After_irrefl After_trans by metis
qed

theorem initiation_consumed_once_witness:
  "\<exists>msg B1. ConsumeMessageInitiation example_crypto 0 0 msg (example_pair 2 1) = Some (Some 0, B1) \<and>
     (\<exists>B2. ConsumeMessageInitiation example_crypto 1000000000 1000000000 msg B1 = Some (None, B2))"
proof -
  obtain msg B1 where run: "ConsumeMessageInitiation example_crypto 0 0 msg (example_pair 2 1) = Some (Some 0, B1)"
    using example_first_message by blast
  have "lookupFunc (example_pair 2 1) = None"
    by (simp add: example_pair_def Peer_Start_def NewPeer_def SetPrivateKey_def new_device_def set_peer_def Let_def)
  then have "ConsumeMessageInitiation example_crypto 1000000000 1000000000 msg B1 \<noteq> None"
    using ConsumeMessageInitiation_returns(1) ConsumeMessageInitiation_returns(2)[OF _ run] by blast
  then obtain res B2 where again: "ConsumeMessageInitiation example_crypto 1000000000 1000000000 msg B1 = Some (res, B2)" by force
  have "res = None" by (rule initiation_consumed_once[OF example_pair_reachable run _ again]) simp
  then show ?thesis using run again by blast
qed

end
