(* ===== verification/Spec2Isabelle.thy ===== *)
theory Spec2Isabelle
  imports Rule_Theorems Transport_Manager Fake_IP Compiled_Rules Noise_Replay
begin

text \<open>
  A verification development for the sing-box proxy platform of this repository.

  \<open>Go_Prelude\<close> holds the fragment of Go and its standard library the code uses;
  \<open>Net_Addr\<close> models \<open>net/netip\<close>. \<open>Inbound_Context\<close> models \<open>adapter/inbound.go\<close>;
  \<open>Rule_Items\<close> the rule items of \<open>route/rule/rule_item_*.go\<close>; \<open>Rule_Match\<close> the matcher of
  \<open>route/rule/rule_abstract.go\<close>, \<open>match_state.go\<close>, \<open>rule_item_rule_set.go\<close> and
  \<open>rule_dns.go\<close>. \<open>Rule_Spec\<close> specifies matching, \<open>Rule_Sound\<close> shows that the matcher
  implements the specification, and \<open>Rule_Theorems\<close> states the properties.
\<close>

end
